(* ===== verification/Go_Lib.thy ===== *)
theory Go_Lib
  imports Main "HOL-Library.Word" "HOL-Library.Sublist" "HOL-Library.Code_Target_Nat"
begin

section \<open>Shared vocabulary: the Go runtime and standard library as the sources use it\<close>

text \<open>
  This theory is the prelude of the development.  It fixes how the Go values that occur in every
  component are represented and collects the generic facts the component theories share:
  \<^item> a Go \<^verbatim>\<open>string\<close> is a byte string, modelled as \<^typ>\<open>string\<close>; the functions of package
    \<^verbatim>\<open>strings\<close> and \<^verbatim>\<open>strconv\<close> the sources call are defined here (white space is the ASCII
    white space of \<^verbatim>\<open>strings.TrimSpace\<close>);
  \<^item> \<^verbatim>\<open>int64\<close> values are \<^typ>\<open>int\<close>; where a product of run-time values may leave the range the
    two's complement wrap-around is written out with \<open>i64\<close>;
  \<^item> \<^verbatim>\<open>time.Time\<close> is an \<^typ>\<open>int\<close> (nanoseconds since the epoch), \<^verbatim>\<open>time.Duration\<close> an \<^typ>\<open>int\<close>
    in the \<^verbatim>\<open>int64\<close> range, and \<^verbatim>\<open>time.Time.Sub\<close> saturates as the library's does;
  \<^item> a Go map is a partial function \<open>'k \<rightharpoonup> 'v\<close>; deleting every entry whose key fails a test
    while ranging over the map is \<open>map_keep\<close>;
  \<^item> the wall clock is never read inside a model: every operation takes the instant at which it
    runs as its argument.
\<close>

named_theorems go_defs \<open>definitions of library operations, for unfolding\<close>
named_theorems map_simps \<open>behaviour of Go maps under the operations of the sources\<close>

subsection \<open>Bytes of a string\<close>

abbreviation ord :: "char \<Rightarrow> nat" where
  "ord c \<equiv> of_char c"

definition is_digit :: "char \<Rightarrow> bool" where
  "is_digit c \<longleftrightarrow> 48 \<le> ord c \<and> ord c \<le> 57"

definition digit_val :: "char \<Rightarrow> nat" where
  "digit_val c = ord c - 48"

definition is_space :: "char \<Rightarrow> bool" where
  "is_space c \<longleftrightarrow> ord c = 32 \<or> (9 \<le> ord c \<and> ord c \<le> 13)"

text \<open>The hexadecimal digits, in either case, and their values.\<close>

definition hex_val :: "char \<Rightarrow> nat option" where
  "hex_val c =
     (if 48 \<le> ord c \<and> ord c \<le> 57 then Some (ord c - 48)
      else if 97 \<le> ord c \<and> ord c \<le> 102 then Some (ord c - 87)
      else if 65 \<le> ord c \<and> ord c \<le> 70 then Some (ord c - 55)
      else None)"

subsection \<open>Package strings\<close>

definition trim_space :: "string \<Rightarrow> string" where
  "trim_space s = rev (dropWhile is_space (rev (dropWhile is_space s)))"

text \<open>\<^verbatim>\<open>strings.Split(s, sep)\<close> for a separator of one byte: always at least one field.\<close>

fun split_on :: "char \<Rightarrow> string \<Rightarrow> string list" where
  "split_on sep [] = [[]]"
| "split_on sep (c # s) =
     (if c = sep then [] # split_on sep s
      else case split_on sep s of [] \<Rightarrow> [[c]] | w # ws \<Rightarrow> (c # w) # ws)"

text \<open>\<^verbatim>\<open>strings.Cut(s, sep)\<close> for a separator of one byte: the parts around its first occurrence.\<close>

fun cut :: "char \<Rightarrow> string \<Rightarrow> (string \<times> string) option" where
  "cut sep [] = None"
| "cut sep (c # s) = (if c = sep then Some ([], s) else map_option (\<lambda>(a, b). (c # a, b)) (cut sep s))"

text \<open>\<^verbatim>\<open>strings.Fields\<close>: the maximal runs of non-space bytes.\<close>

fun fields_aux :: "string \<Rightarrow> string \<Rightarrow> string list" where
  "fields_aux acc [] = (if acc = [] then [] else [rev acc])"
| "fields_aux acc (c # s) =
     (if is_space c then (if acc = [] then [] else [rev acc]) @ fields_aux [] s
      else fields_aux (c # acc) s)"

definition fields :: "string \<Rightarrow> string list" where
  "fields s = fields_aux [] s"

definition has_prefix :: "string \<Rightarrow> string \<Rightarrow> bool" where
  "has_prefix s p \<longleftrightarrow> take (length p) s = p"

lemma has_prefix_iff [go_defs]: "has_prefix s p \<longleftrightarrow> prefix p s"
  by (metis has_prefix_def append_take_drop_id prefix_def append_eq_conv_conj)

lemma split_on_ne [simp]: "split_on sep s \<noteq> []"
  by (cases s) (auto split: list.splits)

lemma split_on_no_sep: "sep \<notin> set s \<Longrightarrow> split_on sep s = [s]"
  by (induction s) auto

lemma split_on_sound: "w \<in> set (split_on sep s) \<Longrightarrow> set w \<subseteq> set s - {sep}"
  by (induction s arbitrary: w) (fastforce split: list.splits if_splits)+

lemma cut_None_iff: "cut sep s = None \<longleftrightarrow> sep \<notin> set s"
  by (induction s) auto

lemma cut_SomeD: "cut sep s = Some (a, b) \<Longrightarrow> s = a @ sep # b \<and> sep \<notin> set a"
  by (induction s arbitrary: a b) (auto split: if_splits)

lemma trim_space_ident:
  assumes "s \<noteq> []" "\<not> is_space (hd s)" "\<not> is_space (last s)"
  shows "trim_space s = s"
proof -
  have "dropWhile is_space s = s"
    using assms(1,2) by (cases s) auto
  moreover have "dropWhile is_space (rev s) = rev s"
    using assms(1,3) by (cases "rev s") (auto simp: hd_rev [symmetric])
  ultimately show ?thesis by (simp add: trim_space_def)
qed

lemma dropWhile_hd: "dropWhile P s \<noteq> [] \<Longrightarrow> \<not> P (hd (dropWhile P s))"
  by (induction s) auto

lemma dropWhile_last: "dropWhile P s \<noteq> [] \<Longrightarrow> last (dropWhile P s) = last s"
  by (metis last_appendR takeWhile_dropWhile_id)

lemma trim_space_idem [simp]: "trim_space (trim_space s) = trim_space s"
proof (cases "trim_space s = []")
  case True
  moreover have "trim_space [] = []" by (simp add: trim_space_def)
  ultimately show ?thesis by simp
next
  case False
  let ?u = "dropWhile is_space s"
  from False have ne: "dropWhile is_space (rev ?u) \<noteq> []" by (simp add: trim_space_def)
  have "\<not> is_space (last (trim_space s))"
    using dropWhile_hd [OF ne] by (simp add: trim_space_def last_rev)
  moreover have "hd (trim_space s) = hd ?u"
    using dropWhile_last [OF ne] ne by (simp add: trim_space_def hd_rev last_rev)
  moreover have "\<not> is_space (hd ?u)"
    using ne by (intro dropWhile_hd) (auto dest: set_dropWhileD)
  ultimately show ?thesis using False by (intro trim_space_ident) simp_all
qed

subsection \<open>Package strconv\<close>

text \<open>Decimal digits of a number, most significant first (\<^verbatim>\<open>strconv.Itoa\<close> on naturals).\<close>

fun string_of_nat :: "nat \<Rightarrow> string" where
  "string_of_nat n =
     (if n < 10 then [char_of (48 + n)]
      else string_of_nat (n div 10) @ [char_of (48 + n mod 10)])"

declare string_of_nat.simps [simp del]

definition itoa :: "int \<Rightarrow> string" where
  "itoa i = (if i < 0 then CHR ''-'' # string_of_nat (nat (- i)) else string_of_nat (nat i))"

text \<open>The value of a string of decimal digits; the empty string and other bytes are refused.\<close>

definition digits_val :: "string \<Rightarrow> nat option" where
  "digits_val s =
     (if s \<noteq> [] \<and> list_all is_digit s
      then Some (foldl (\<lambda>n c. n * 10 + digit_val c) 0 s) else None)"

text \<open>\<^verbatim>\<open>strconv.Atoi\<close>: an optional sign, decimal digits, the \<^verbatim>\<open>int64\<close> range.\<close>

definition atoi :: "string \<Rightarrow> int option" where
  "atoi s =
     (let neg = (s \<noteq> [] \<and> hd s = CHR ''-'');
          body = (if s \<noteq> [] \<and> (hd s = CHR ''-'' \<or> hd s = CHR ''+'') then tl s else s)
      in case digits_val body of
           None \<Rightarrow> None
         | Some n \<Rightarrow>
             (let v = (if neg then - int n else int n)
              in if - (2 ^ 63) \<le> v \<and> v < 2 ^ 63 then Some v else None))"

lemma is_digit_char_of: "d < 10 \<Longrightarrow> is_digit (char_of (48 + d :: nat))"
  by (simp add: is_digit_def)

lemma digit_val_char_of: "d < 10 \<Longrightarrow> digit_val (char_of (48 + d :: nat)) = d"
  by (simp add: digit_val_def)

lemma string_of_nat_digits: "c \<in> set (string_of_nat n) \<Longrightarrow> is_digit c"
proof (induction n arbitrary: c rule: string_of_nat.induct)
  case (1 n)
  then show ?case
    by (subst (asm) (2) string_of_nat.simps) (auto split: if_splits intro: is_digit_char_of)
qed

lemma string_of_nat_ne [simp]: "string_of_nat n \<noteq> []"
  by (subst string_of_nat.simps) simp

lemma foldl_digits: "foldl (\<lambda>n c. n * 10 + digit_val c) k (string_of_nat n) = k * 10 ^ length (string_of_nat n) + n"
proof (induction n arbitrary: k rule: string_of_nat.induct)
  case (1 n)
  show ?case
  proof (cases "n < 10")
    case True
    then show ?thesis by (simp add: string_of_nat.simps [of n] digit_val_char_of)
  next
    case False
    have d: "digit_val (char_of (48 + n mod 10)) = n mod 10" by (rule digit_val_char_of) simp
    show ?thesis using False 1 by (simp add: string_of_nat.simps [of n] d algebra_simps)
  qed
qed

lemma digits_val_nat: "digits_val (string_of_nat n) = Some n"
  using foldl_digits [of 0 n] string_of_nat_digits [of _ n] by (auto simp: digits_val_def list_all_iff)

subsection \<open>64-bit integers, times and durations\<close>

type_synonym gotime = int
type_synonym duration = int

definition i64 :: "int \<Rightarrow> int" where
  "i64 x = (x + 2 ^ 63) mod 2 ^ 64 - 2 ^ 63"

definition in_i64 :: "int \<Rightarrow> bool" where
  "in_i64 x \<longleftrightarrow> - (2 ^ 63) \<le> x \<and> x < 2 ^ 63"

lemma i64_id: "in_i64 x \<Longrightarrow> i64 x = x"
  by (simp add: i64_def in_i64_def)

lemma in_i64_i64 [simp]: "in_i64 (i64 x)"
  by (simp add: i64_def in_i64_def)

lemma atoi_itoa: "in_i64 i \<Longrightarrow> atoi (itoa i) = Some i"
proof -
  assume i: "in_i64 i"
  have "hd (string_of_nat k) \<noteq> CHR ''-'' \<and> hd (string_of_nat k) \<noteq> CHR ''+''" for k
    using string_of_nat_digits [of "hd (string_of_nat k)" k] by (auto simp: is_digit_def)
  then show ?thesis using i by (auto simp: atoi_def itoa_def Let_def digits_val_nat in_i64_def)
qed

definition second :: duration where [code_unfold]: "second = 1000000000"
definition minute :: duration where [code_unfold]: "minute = 60000000000"

lemmas duration_defs [go_defs] = second_def minute_def

text \<open>\<^verbatim>\<open>t.Sub(u)\<close> saturates at the ends of the \<^verbatim>\<open>Duration\<close> range.\<close>

definition time_sub :: "gotime \<Rightarrow> gotime \<Rightarrow> duration" where
  "time_sub t u = max (- (2 ^ 63)) (min (2 ^ 63 - 1) (t - u))"

lemma time_sub_less: "in_i64 d \<Longrightarrow> - (2 ^ 63) < d \<Longrightarrow> time_sub t u < d \<longleftrightarrow> t - u < d"
  by (auto simp: time_sub_def in_i64_def)

lemma time_sub_ge: "in_i64 d \<Longrightarrow> - (2 ^ 63) < d \<Longrightarrow> d \<le> time_sub t u \<longleftrightarrow> d \<le> t - u"
  by (auto simp: time_sub_def in_i64_def)

lemma time_sub_gt: "in_i64 d \<Longrightarrow> d < 2 ^ 63 - 1 \<Longrightarrow> d < time_sub t u \<longleftrightarrow> d < t - u"
  by (auto simp: time_sub_def in_i64_def)

subsection \<open>Maps\<close>

text \<open>Ranging over a map and deleting every entry whose key fails a test.\<close>

definition map_keep :: "('k \<Rightarrow> bool) \<Rightarrow> ('k \<rightharpoonup> 'v) \<Rightarrow> ('k \<rightharpoonup> 'v)" where
  "map_keep P m = (\<lambda>k. if P k then m k else None)"

lemma map_keep_apply [map_simps]: "map_keep P m k = (if P k then m k else None)"
  by (simp add: map_keep_def)

lemma dom_map_keep [map_simps]: "dom (map_keep P m) = {k \<in> dom m. P k}"
  by (auto simp: map_keep_def dom_def)

text \<open>The first value with a given key of an association list, and lists as finite tables.\<close>

lemma finite_dom_upd [simp]: "finite (dom (m(k := v))) \<longleftrightarrow> finite (dom m)"
proof -
  have "dom (m(k := v)) = (if v = None then dom m - {k} else insert k (dom m))"
    by (auto simp: dom_def)
  then show ?thesis by simp
qed

subsection \<open>Lists\<close>

lemma filter_partition_set: "set (filter P xs) \<union> set (filter (\<lambda>x. \<not> P x) xs) = set xs"
  by auto

lemma length_filter_partition: "length (filter P xs) + length (filter (\<lambda>x. \<not> P x) xs) = length xs"
  by (rule sum_length_filter_compl)

text \<open>A stable sort by a strict order, for the \<^verbatim>\<open>ORDER BY\<close> clauses and \<^verbatim>\<open>sort.Slice\<close>.\<close>

fun insert_by :: "('a \<Rightarrow> 'a \<Rightarrow> bool) \<Rightarrow> 'a \<Rightarrow> 'a list \<Rightarrow> 'a list" where
  "insert_by lt x [] = [x]"
| "insert_by lt x (y # ys) = (if lt y x then y # insert_by lt x ys else x # y # ys)"

definition sort_by :: "('a \<Rightarrow> 'a \<Rightarrow> bool) \<Rightarrow> 'a list \<Rightarrow> 'a list" where
  "sort_by lt xs = foldr (insert_by lt) xs []"

lemma sort_by_simps [simp]: "sort_by lt [] = []" "sort_by lt (x # xs) = insert_by lt x (sort_by lt xs)"
  by (simp_all add: sort_by_def)

lemma set_insert_by [simp]: "set (insert_by lt x xs) = insert x (set xs)"
  by (induction xs) auto

lemma set_sort_by [simp]: "set (sort_by lt xs) = set xs"
  by (induction xs) auto

lemma length_insert_by [simp]: "length (insert_by lt x xs) = Suc (length xs)"
  by (induction xs) auto

lemma length_sort_by [simp]: "length (sort_by lt xs) = length xs"
  by (induction xs) auto

lemma sorted_insert_by:
  assumes "\<And>a b c. \<not> lt b a \<Longrightarrow> \<not> lt c b \<Longrightarrow> \<not> lt c a" "\<And>a b. lt a b \<Longrightarrow> \<not> lt b a"
  shows "sorted_wrt (\<lambda>a b. \<not> lt b a) xs \<Longrightarrow> sorted_wrt (\<lambda>a b. \<not> lt b a) (insert_by lt x xs)"
proof (induction xs)
  case (Cons y ys)
  have "\<not> lt z x" if "\<not> lt y x" "z \<in> set ys" for z
  proof (rule assms(1))
    show "\<not> lt y x" "\<not> lt z y" using that Cons.prems by auto
  qed
  then show ?case using Cons assms(2) [of y x] by auto
qed simp

lemma sorted_sort_by:
  assumes "\<And>a b c. \<not> lt b a \<Longrightarrow> \<not> lt c b \<Longrightarrow> \<not> lt c a" "\<And>a b. lt a b \<Longrightarrow> \<not> lt b a"
  shows "sorted_wrt (\<lambda>a b. \<not> lt b a) (sort_by lt xs)"
  by (induction xs) (simp_all add: sorted_insert_by [OF assms])

lemma list_all2_memD: "list_all2 R rs as \<Longrightarrow> s \<in> set rs \<Longrightarrow> \<exists>b \<in> set as. R s b"
  by (induction rs as rule: list_all2_induct) auto

lemma list_all2_sorted_wrt:
  assumes "list_all2 R rs as" "sorted_wrt P as" "\<And>a b r s. R r a \<Longrightarrow> R s b \<Longrightarrow> P a b \<Longrightarrow> Q r s"
  shows "sorted_wrt Q rs"
  using assms(1,2)
proof (induction rs arbitrary: as)
  case (Cons r rs)
  then obtain a as' where as: "as = a # as'" "R r a" "list_all2 R rs as'"
    by (auto simp: list_all2_Cons1)
  have "Q r s" if s: "s \<in> set rs" for s
  proof -
    obtain b where "b \<in> set as'" "R s b" using list_all2_memD [OF as(3) s] by blast
    then show ?thesis using assms(3) [OF as(2)] Cons.prems(2) as(1) by simp
  qed
  then show ?case using Cons.IH [OF as(3)] Cons.prems(2) as(1) by simp
qed simp

end
