(* ===== verification/Go_Net.thy ===== *)
theory Go_Net
  imports Go_Lib
begin

unbundle bit_operations_syntax

section \<open>Package net: addresses, masks and networks\<close>

text \<open>
  The part of Go's package \<^verbatim>\<open>net\<close> (and \<^verbatim>\<open>net/netip\<close>, which parses for it) that the sources rest on.
  An \<^verbatim>\<open>IP\<close> is a byte slice of four or sixteen bytes, an \<^verbatim>\<open>IPMask\<close> a byte slice, an \<^verbatim>\<open>IPNet\<close> a pair of
  both, so the model keeps byte lists: which of the two lengths a value has is visible to the code
  (\<^verbatim>\<open>To4\<close>, \<^verbatim>\<open>Mask.Size\<close>, \<^verbatim>\<open>Contains\<close>).  Parsing follows the library's loops, refusals included:
  leading zeros, too many fields, misplaced dots, a second \<^verbatim>\<open>::\<close>, zones.
  The lemmas relate byte lists to the number they denote (\<open>be_nat\<close>) and prove that printing an
  IPv4 address and parsing it again gives the address back.
\<close>

type_synonym byte = "8 word"
type_synonym ip = "byte list"
type_synonym ipmask = "byte list"

record ipnet =
  net_ip :: ip
  net_mask :: ipmask

subsection \<open>Forms of an address\<close>

definition v4InV6Prefix :: "byte list" where
  "v4InV6Prefix = replicate 10 0 @ [255, 255]"

definition To4 :: "ip \<Rightarrow> ip option" where
  "To4 ip =
     (if length ip = 4 then Some ip
      else if length ip = 16 \<and> take 12 ip = v4InV6Prefix then Some (drop 12 ip)
      else None)"

definition ip_equal :: "ip \<Rightarrow> ip \<Rightarrow> bool" where
  "ip_equal ip x =
     (if length ip = length x then ip = x
      else if length ip = 4 \<and> length x = 16 then take 12 x = v4InV6Prefix \<and> ip = drop 12 x
      else if length ip = 16 \<and> length x = 4 then take 12 ip = v4InV6Prefix \<and> drop 12 ip = x
      else False)"

abbreviation IPv4zero :: ip where "IPv4zero \<equiv> v4InV6Prefix @ [0, 0, 0, 0]"
abbreviation IPv4bcast :: ip where "IPv4bcast \<equiv> v4InV6Prefix @ [255, 255, 255, 255]"
abbreviation IPv6unspecified :: ip where "IPv6unspecified \<equiv> replicate 16 0"
abbreviation IPv6loopback :: ip where "IPv6loopback \<equiv> replicate 15 0 @ [1]"

definition IsUnspecified :: "ip \<Rightarrow> bool" where
  "IsUnspecified ip \<longleftrightarrow> ip_equal ip IPv4zero \<or> ip_equal ip IPv6unspecified"

definition IsLoopback :: "ip \<Rightarrow> bool" where
  "IsLoopback ip =
     (case To4 ip of Some v4 \<Rightarrow> v4 ! 0 = 127 | None \<Rightarrow> ip_equal ip IPv6loopback)"

definition IsLinkLocalUnicast :: "ip \<Rightarrow> bool" where
  "IsLinkLocalUnicast ip =
     (case To4 ip of
        Some v4 \<Rightarrow> v4 ! 0 = 169 \<and> v4 ! 1 = 254
      | None \<Rightarrow> length ip = 16 \<and> ip ! 0 = 0xFE \<and> ip ! 1 AND 0xC0 = 0x80)"

definition IsMulticast :: "ip \<Rightarrow> bool" where
  "IsMulticast ip =
     (case To4 ip of
        Some v4 \<Rightarrow> v4 ! 0 AND 0xF0 = 0xE0
      | None \<Rightarrow> length ip = 16 \<and> ip ! 0 = 0xFF)"

subsection \<open>Masks and networks\<close>

text \<open>\<^verbatim>\<open>net.CIDRMask(ones, 8 * l)\<close>: one byte at a time, \<open>n\<close> ones still to be set.\<close>

fun cidr_mask :: "nat \<Rightarrow> nat \<Rightarrow> ipmask" where
  "cidr_mask n 0 = []"
| "cidr_mask n (Suc l) =
     (if 8 \<le> n then 255 # cidr_mask (n - 8) l
      else NOT (drop_bit n 255) # cidr_mask 0 l)"

text \<open>The number of leading ones of one mask byte, \<open>None\<close> unless zeros follow.\<close>

fun byte_ones :: "nat \<Rightarrow> byte \<Rightarrow> nat option" where
  "byte_ones 0 v = (if v = 0 then Some 0 else None)"
| "byte_ones (Suc k) v =
     (if v AND 0x80 \<noteq> 0 then map_option Suc (byte_ones k (push_bit 1 v))
      else if v = 0 then Some 0 else None)"

fun simpleMaskLength :: "ipmask \<Rightarrow> nat option" where
  "simpleMaskLength [] = Some 0"
| "simpleMaskLength (v # m) =
     (if v = 255 then map_option ((+) 8) (simpleMaskLength m)
      else case byte_ones 8 v of
             None \<Rightarrow> None
           | Some k \<Rightarrow> if list_all (\<lambda>b. b = 0) m then Some k else None)"

text \<open>\<^verbatim>\<open>IPMask.Size\<close> gives \<^verbatim>\<open>(0, 0)\<close> for a mask that is not ones followed by zeros.\<close>

definition mask_size :: "ipmask \<Rightarrow> nat \<times> nat" where
  "mask_size m = (case simpleMaskLength m of None \<Rightarrow> (0, 0) | Some ones \<Rightarrow> (ones, 8 * length m))"

definition mask_bytes :: "byte list \<Rightarrow> byte list \<Rightarrow> byte list" where
  "mask_bytes a m = map2 (AND) a m"

definition ip_mask :: "ip \<Rightarrow> ipmask \<Rightarrow> ip option" where
  "ip_mask ip m =
     (let m' = (if length m = 16 \<and> length ip = 4 \<and> list_all (\<lambda>b. b = 255) (take 12 m)
                then drop 12 m else m);
          ip' = (if length m' = 4 \<and> length ip = 16 \<and> take 12 ip = v4InV6Prefix
                 then drop 12 ip else ip)
      in if length ip' = length m' then Some (mask_bytes ip' m') else None)"

definition networkNumberAndMask :: "ipnet \<Rightarrow> (ip \<times> ipmask) option" where
  "networkNumberAndMask n =
     (let ip = (case To4 (net_ip n) of Some v4 \<Rightarrow> v4 | None \<Rightarrow> net_ip n); m = net_mask n
      in if To4 (net_ip n) = None \<and> length (net_ip n) \<noteq> 16 then None
         else if length m = 4 then (if length ip = 4 then Some (ip, m) else None)
         else if length m = 16 then Some (ip, if length ip = 4 then drop 12 m else m)
         else None)"

definition net_contains :: "ipnet \<Rightarrow> ip \<Rightarrow> bool" where
  "net_contains n ip =
     (let x = (case To4 ip of Some v4 \<Rightarrow> v4 | None \<Rightarrow> ip)
      in case networkNumberAndMask n of
           None \<Rightarrow> x = []
         | Some (nn, m) \<Rightarrow> length x = length nn \<and> mask_bytes nn m = mask_bytes x m)"

subsection \<open>Parsing\<close>

text \<open>
  The field loop of \<^verbatim>\<open>netip.parseIPv4Fields\<close>.  \<open>sep\<close> holds at the start and after a dot,
  \<open>v\<close> and \<open>dig\<close> are the value and the number of digits of the current field, \<open>fs\<close> the fields
  completed so far.
\<close>

fun parseIPv4Fields :: "bool \<Rightarrow> nat \<Rightarrow> nat \<Rightarrow> nat list \<Rightarrow> string \<Rightarrow> nat list option" where
  "parseIPv4Fields sep v dig fs [] = (if length fs < 3 then None else Some (fs @ [v]))"
| "parseIPv4Fields sep v dig fs (c # s) =
     (if is_digit c then
        (if dig = 1 \<and> v = 0 then None
         else let v' = v * 10 + digit_val c
              in if 255 < v' then None else parseIPv4Fields False v' (dig + 1) fs s)
      else if c = CHR ''.'' then
        (if sep \<or> s = [] then None
         else if length fs = 3 then None
         else parseIPv4Fields True 0 0 (fs @ [v]) s)
      else None)"

definition parseIPv4 :: "string \<Rightarrow> byte list option" where
  "parseIPv4 s = map_option (map of_nat) (parseIPv4Fields True 0 0 [] s)"

text \<open>A run of hexadecimal digits: its value, its length and what follows; at most four digits.\<close>

fun hex_group :: "nat \<Rightarrow> nat \<Rightarrow> string \<Rightarrow> (nat \<times> nat \<times> string) option" where
  "hex_group off acc [] = Some (acc, off, [])"
| "hex_group off acc (c # s) =
     (case hex_val c of
        None \<Rightarrow> Some (acc, off, c # s)
      | Some h \<Rightarrow> if 3 < off then None else hex_group (off + 1) (acc * 16 + h) s)"

text \<open>
  The main loop of \<^verbatim>\<open>netip.parseIPv6\<close>: \<open>bs\<close> are the bytes read so far, \<open>ell\<close> the position of
  the ellipsis, the first argument bounds the iterations (each one adds two bytes, so eight of them
  exhaust the address).  The result is the bytes, the ellipsis and the unread rest.
\<close>

fun parseIPv6Loop ::
    "nat \<Rightarrow> byte list \<Rightarrow> nat option \<Rightarrow> string \<Rightarrow> (byte list \<times> nat option \<times> string) option" where
  "parseIPv6Loop 0 bs ell s = Some (bs, ell, s)"
| "parseIPv6Loop (Suc k) bs ell s =
     (case hex_group 0 0 s of
        None \<Rightarrow> None
      | Some (acc, off, rest) \<Rightarrow>
          (if off = 0 then None
           else if rest \<noteq> [] \<and> hd rest = CHR ''.'' then
             (if ell = None \<and> length bs \<noteq> 12 then None
              else if 16 < length bs + 4 then None
              else case parseIPv4Fields True 0 0 [] s of
                     None \<Rightarrow> None
                   | Some fs \<Rightarrow> Some (bs @ map of_nat fs, ell, []))
           else
             (let bs' = bs @ [of_nat (acc div 256), of_nat acc]
              in case rest of
                   [] \<Rightarrow> Some (bs', ell, [])
                 | c # s' \<Rightarrow>
                     (if c \<noteq> CHR '':'' \<or> s' = [] then None
                      else if hd s' = CHR '':'' then
                        (if ell \<noteq> None then None
                         else if tl s' = [] then Some (bs', Some (length bs'), [])
                         else parseIPv6Loop k bs' (Some (length bs')) (tl s'))
                      else parseIPv6Loop k bs' ell s'))))"

definition parseIPv6 :: "string \<Rightarrow> byte list option" where
  "parseIPv6 s =
     (let lead = (2 \<le> length s \<and> s ! 0 = CHR '':'' \<and> s ! 1 = CHR '':'');
          ell = (if lead then Some 0 else None); body = (if lead then drop 2 s else s)
      in if lead \<and> body = [] then Some (replicate 16 0)
         else case parseIPv6Loop 8 [] ell body of
                None \<Rightarrow> None
              | Some (bs, e, rest) \<Rightarrow>
                  (if rest \<noteq> [] then None
                   else if length bs < 16 then
                     (case e of
                        None \<Rightarrow> None
                      | Some i \<Rightarrow> Some (take i bs @ replicate (16 - length bs) 0 @ drop i bs))
                   else if e \<noteq> None then None
                   else Some bs))"

text \<open>
  \<^verbatim>\<open>netip.ParseAddr\<close> as \<^verbatim>\<open>net.ParseIP\<close> and \<^verbatim>\<open>net.ParseCIDR\<close> use it: the first dot, colon or percent
  sign decides; an address with a zone is refused by both callers.
\<close>

definition parseAddr :: "string \<Rightarrow> byte list option" where
  "parseAddr s =
     (case dropWhile (\<lambda>c. c \<noteq> CHR ''.'' \<and> c \<noteq> CHR '':'' \<and> c \<noteq> CHR ''%'') s of
        [] \<Rightarrow> None
      | c # _ \<Rightarrow>
          (if c = CHR ''.'' then parseIPv4 s
           else if c = CHR '':'' then (if CHR ''%'' \<in> set s then None else parseIPv6 s)
           else None))"

definition as16 :: "byte list \<Rightarrow> ip" where
  "as16 bs = (if length bs = 4 then v4InV6Prefix @ bs else bs)"

definition ParseIP :: "string \<Rightarrow> ip option" where
  "ParseIP s = map_option as16 (parseAddr s)"

text \<open>\<^verbatim>\<open>net.dtoi\<close> on the part after the slash: all of it decimal digits, below \<^verbatim>\<open>0xFFFFFF\<close>.\<close>

definition dtoi_all :: "string \<Rightarrow> nat option" where
  "dtoi_all s =
     (case digits_val s of None \<Rightarrow> None | Some n \<Rightarrow> if n < 0xFFFFFF then Some n else None)"

definition ParseCIDR :: "string \<Rightarrow> (ip \<times> ipnet) option" where
  "ParseCIDR s =
     (case cut (CHR ''/'') s of
        None \<Rightarrow> None
      | Some (addr, bits) \<Rightarrow>
          (case (parseAddr addr, dtoi_all bits) of
             (Some a, Some n) \<Rightarrow>
               (if 8 * length a < n then None
                else let m = cidr_mask n (length a)
                     in map_option (\<lambda>i. (as16 a, \<lparr>net_ip = i, net_mask = m\<rparr>)) (ip_mask (as16 a) m))
           | _ \<Rightarrow> None))"

subsection \<open>Printing\<close>

definition v4_string :: "byte list \<Rightarrow> string" where
  "v4_string bs = concat (map (\<lambda>(i, b). (if i = 0 then [] else ''.'') @ string_of_nat (unat b))
                              (enumerate 0 bs))"

definition hex_digit :: "nat \<Rightarrow> char" where
  "hex_digit d = char_of (if d < 10 then 48 + d else 87 + d)"

text \<open>\<^verbatim>\<open>netip.appendHex\<close>: no leading zeros.\<close>

definition hex16 :: "nat \<Rightarrow> string" where
  "hex16 x =
     (if 0x1000 \<le> x then [hex_digit (x div 0x1000 mod 16)] else []) @
     (if 0x100 \<le> x then [hex_digit (x div 0x100 mod 16)] else []) @
     (if 0x10 \<le> x then [hex_digit (x div 0x10 mod 16)] else []) @ [hex_digit (x mod 16)]"

fun groups16 :: "byte list \<Rightarrow> nat list" where
  "groups16 (a # b # bs) = (unat a * 256 + unat b) # groups16 bs"
| "groups16 _ = []"

text \<open>The first longest run of at least two zero groups, as \<open>(start, end)\<close>.\<close>

fun zero_run :: "nat list \<Rightarrow> nat \<Rightarrow> nat" where
  "zero_run gs i = length (takeWhile (\<lambda>g. g = 0) (drop i gs))"

definition best_zero_run :: "nat list \<Rightarrow> (nat \<times> nat) option" where
  "best_zero_run gs =
     foldl (\<lambda>best i. let l = zero_run gs i
                      in if 2 \<le> l \<and> (case best of None \<Rightarrow> True | Some (a, b) \<Rightarrow> b - a < l)
                         then Some (i, i + l) else best) None [0..<8]"

definition join_colon :: "nat list \<Rightarrow> string" where
  "join_colon gs = concat (map (\<lambda>(i, g). (if i = 0 then [] else '':'') @ hex16 g) (enumerate 0 gs))"

definition v6_string :: "byte list \<Rightarrow> string" where
  "v6_string bs =
     (let gs = groups16 bs
      in case best_zero_run gs of
           None \<Rightarrow> join_colon gs
         | Some (a, b) \<Rightarrow> join_colon (take a gs) @ ''::'' @ join_colon (drop b gs))"

definition ip_string :: "ip \<Rightarrow> string" where
  "ip_string ip =
     (if ip = [] then ''<nil>''
      else case To4 ip of
             Some v4 \<Rightarrow> v4_string v4
           | None \<Rightarrow> (if length ip = 16 then v6_string ip
                      else CHR ''?'' # concat (map (\<lambda>b. [hex_digit (unat b div 16), hex_digit (unat b mod 16)]) ip)))"

subsection \<open>The number a byte string denotes\<close>

definition be_nat :: "byte list \<Rightarrow> nat" where
  "be_nat bs = foldl (\<lambda>n b. n * 256 + unat b) 0 bs"

lemma be_nat_foldl: "foldl (\<lambda>n b. n * 256 + unat b) k bs = k * 256 ^ length bs + be_nat (bs :: byte list)"
proof (induction bs arbitrary: k)
  case Nil
  then show ?case by (simp add: be_nat_def)
next
  case (Cons b bs)
  show ?case
    using Cons.IH [of "k * 256 + unat b"] Cons.IH [of "unat b"]
    by (simp add: be_nat_def algebra_simps)
qed

lemma be_nat_Nil [simp]: "be_nat [] = 0"
  by (simp add: be_nat_def)

lemma be_nat_Cons [simp]: "be_nat (b # bs) = unat b * 256 ^ length bs + be_nat bs"
  using be_nat_foldl [of "unat b" bs] by (simp add: be_nat_def)

lemma unat_byte_less [simp]: "unat (b :: byte) < 256"
proof -
  have "unat b < 2 ^ LENGTH(8)" by (rule unsigned_less)
  then show ?thesis by simp
qed

lemma be_nat_less: "be_nat bs < 256 ^ length bs"
proof (induction bs)
  case (Cons b bs)
  have "unat b * 256 ^ length bs + be_nat bs < (unat b + 1) * 256 ^ length bs"
    using Cons.IH by simp
  also have "\<dots> \<le> 256 * 256 ^ length bs"
    using unat_byte_less [of b] by (intro mult_le_mono1) linarith
  finally show ?case by simp
qed simp

lemma be_nat_append: "be_nat (as @ bs) = be_nat as * 256 ^ length bs + be_nat bs"
  by (induction as) (simp_all add: power_add algebra_simps)

lemma div_split_eq:
  fixes a b x y m :: nat
  assumes "x < m" "y < m"
  shows "a * m + x = b * m + y \<longleftrightarrow> a = b \<and> x = y"
  using assms by (metis add.commute add_left_cancel div_mult_self3 div_less div_mult_self1 less_nat_zero_code add_0 mult.commute)

lemma be_nat_inj: "length as = length bs \<Longrightarrow> be_nat as = be_nat bs \<longleftrightarrow> as = bs"
proof (induction as bs rule: list_induct2)
  case (Cons a as b bs)
  have "be_nat as < 256 ^ length bs" "be_nat bs < 256 ^ length bs"
    using be_nat_less [of as] be_nat_less [of bs] Cons.hyps by simp_all
  from div_split_eq [OF this, of "unat a" "unat b"] show ?case
    using Cons by (auto simp: word_unat_eq_iff)
qed simp

subsection \<open>Masks cut a number at a power of two\<close>

lemma low_mask_byte: "n \<le> 8 \<Longrightarrow> drop_bit n (255 :: byte) = mask (8 - n)"
proof -
  assume "n \<le> 8"
  then have "drop_bit n (- 1 :: byte) = mask (8 - n)"
    by (intro bit_word_eqI) (auto simp: bit_simps)
  moreover have "(255 :: byte) = - 1" by simp
  ultimately show ?thesis by (simp only:)
qed

lemma byte_and_high_eq:
  fixes a b :: byte
  assumes "n < 8"
  shows "a AND NOT (drop_bit n 255) = b AND NOT (drop_bit n 255) \<longleftrightarrow>
    unat a div 2 ^ (8 - n) = unat b div 2 ^ (8 - n)"
proof -
  have "x AND NOT (mask k) = push_bit k (drop_bit k x)" for x :: byte and k
    by (rule bit_word_eqI) (auto simp: bit_simps)
  moreover have "drop_bit k x = drop_bit k y \<longleftrightarrow> unat x div 2 ^ k = unat y div 2 ^ k" for x y :: byte and k
    by (simp add: word_unat_eq_iff unat_drop_bit_eq drop_bit_eq_div [where ?'a = nat])
  moreover have "push_bit k (drop_bit k x) = push_bit k (drop_bit k y) \<longleftrightarrow> drop_bit k x = drop_bit k y"
    if "k \<le> 8" for x y :: byte and k
  proof
    assume "push_bit k (drop_bit k x) = push_bit k (drop_bit k y)"
    then have "drop_bit k (push_bit k (drop_bit k x)) = drop_bit k (push_bit k (drop_bit k y))" by simp
    moreover have "drop_bit k (push_bit k (drop_bit k z)) = drop_bit k z" for z :: byte
      by (rule bit_word_eqI) (auto simp: bit_simps dest: bit_imp_le_length)
    ultimately show "drop_bit k x = drop_bit k y" by simp
  qed simp
  ultimately show ?thesis using assms by (simp add: low_mask_byte)
qed

lemma length_cidr_mask [simp]: "length (cidr_mask n l) = l"
  by (induction n l rule: cidr_mask.induct) auto

lemma mask_bytes_Cons [simp]: "mask_bytes (a # as) (m # ms) = (a AND m) # mask_bytes as ms"
  by (simp add: mask_bytes_def)

lemma mask_bytes_Nil [simp]: "mask_bytes [] ms = []"
  by (simp add: mask_bytes_def)

lemma length_mask_bytes [simp]: "length (mask_bytes as ms) = min (length as) (length ms)"
  by (simp add: mask_bytes_def)

lemma mask_bytes_Nil2 [simp]: "mask_bytes as [] = []"
  by (simp add: mask_bytes_def)

lemma minus_256_byte [simp]: "(- 256 :: byte) = 0"
  by code_simp

lemma mask_zero: "mask_bytes as (cidr_mask 0 l) = replicate (min (length as) l) 0"
proof (induction as arbitrary: l)
  case (Cons a as)
  then show ?case by (cases l) simp_all
qed simp

lemma and_255 [simp]: "a AND 255 = a" for a :: byte
proof -
  have "(255 :: byte) = - 1" by simp
  then show ?thesis by (simp only: and.right_neutral)
qed

lemma mask_bytes_eq_iff:
  assumes "length as = l" "length bs = l" "n \<le> 8 * l"
  shows "mask_bytes as (cidr_mask n l) = mask_bytes bs (cidr_mask n l) \<longleftrightarrow>
    be_nat as div 2 ^ (8 * l - n) = be_nat bs div 2 ^ (8 * l - n)"
  using assms
proof (induction l arbitrary: as bs n)
  case 0
  then show ?case by simp
next
  case (Suc l)
  obtain a as' b bs' where ab: "as = a # as'" "bs = b # bs'" "length as' = l" "length bs' = l"
    using Suc.prems(1,2) by (metis length_Suc_conv)
  have lt: "be_nat as' < 256 ^ l" "be_nat bs' < 256 ^ l"
    using be_nat_less [of as'] be_nat_less [of bs'] ab by simp_all
  have p: "(256 :: nat) ^ l = 2 ^ (8 * l)" by (simp add: power_mult)
  show ?case
  proof (cases "8 \<le> n")
    case True
    define k where "k = 8 * Suc l - n"
    have kl: "k \<le> 8 * l" and nk: "8 * l - (n - 8) = k" and nl: "n - 8 \<le> 8 * l"
      using True Suc.prems(3) by (auto simp: k_def)
    have pk: "(256 :: nat) ^ l = 2 ^ (8 * l - k) * 2 ^ k"
      using kl by (simp add: p flip: power_add)
    have cons: "be_nat (x # xs) div 2 ^ k = unat x * 2 ^ (8 * l - k) + be_nat xs div 2 ^ k"
      if "length xs = l" for x :: byte and xs
      using that by (simp add: pk mult.assoc [symmetric])
    have small: "be_nat xs div 2 ^ k < 2 ^ (8 * l - k)" if "length xs = l" for xs :: "byte list"
      using be_nat_less [of xs] that pk by (simp add: less_mult_imp_div_less)
    have "mask_bytes as (cidr_mask n (Suc l)) = mask_bytes bs (cidr_mask n (Suc l)) \<longleftrightarrow>
      a = b \<and> be_nat as' div 2 ^ k = be_nat bs' div 2 ^ k"
      using True ab Suc.IH [OF ab(3,4) nl] by (simp add: nk)
    also have "\<dots> \<longleftrightarrow> be_nat as div 2 ^ k = be_nat bs div 2 ^ k"
      by (simp only: ab cons div_split_eq [OF small small, OF ab(3,4)] word_unat_eq_iff)
    finally show ?thesis by (simp only: k_def)
  next
    case False
    have "8 * Suc l - n = (8 - n) + 8 * l" using False by simp
    then have "(2 :: nat) ^ (8 * Suc l - n) = 256 ^ l * 2 ^ (8 - n)"
      by (simp add: p power_add)
    moreover have "be_nat (x # xs) div (256 ^ l * 2 ^ (8 - n)) = unat x div 2 ^ (8 - n)"
      if "length xs = l" for x :: byte and xs
      using that be_nat_less [of xs] by (simp add: div_mult2_eq)
    ultimately show ?thesis
      using False ab byte_and_high_eq [of n a b] by (simp add: mask_zero del: be_nat_Cons)
  qed
qed

lemma byte_cases8: "n < 8 \<Longrightarrow> n = 0 \<or> n = 1 \<or> n = 2 \<or> n = 3 \<or> n = 4 \<or> n = 5 \<or> n = 6 \<or> n = (7 :: nat)"
  by auto

lemma byte_ones_high: "n < 8 \<Longrightarrow> byte_ones 8 (NOT (drop_bit n 255)) = Some n"
  by (drule byte_cases8, elim disjE; simp; code_simp)

lemma high_byte_neq: "n < 8 \<Longrightarrow> NOT (drop_bit n 255) \<noteq> (255 :: byte)"
  by (drule byte_cases8, elim disjE; simp; code_simp)

lemma list_all_cidr_mask_0: "list_all (\<lambda>b. b = 0) (cidr_mask 0 l)"
  by (induction l) simp_all

lemma simpleMaskLength_cidr: "n \<le> 8 * l \<Longrightarrow> simpleMaskLength (cidr_mask n l) = Some n"
proof (induction l arbitrary: n)
  case (Suc l)
  then show ?case
    by (cases "8 \<le> n") (simp_all add: byte_ones_high high_byte_neq list_all_cidr_mask_0)
qed simp

lemma mask_size_cidr: "n \<le> 8 * l \<Longrightarrow> mask_size (cidr_mask n l) = (n, 8 * l)"
  by (simp add: mask_size_def simpleMaskLength_cidr)

lemma To4_4 [simp]: "length ip = 4 \<Longrightarrow> To4 ip = Some ip"
  by (simp add: To4_def)

lemma length_v4InV6Prefix [simp]: "length v4InV6Prefix = 12"
  by (simp add: v4InV6Prefix_def)

lemma To4_as16 [simp]: "length bs = 4 \<Longrightarrow> To4 (v4InV6Prefix @ bs) = Some bs"
  by (simp add: To4_def)

lemma To4_length: "To4 ip = Some v \<Longrightarrow> length v = 4"
  by (auto simp: To4_def split: if_splits)

text \<open>A network as \<^verbatim>\<open>net.ParseCIDR\<close> builds it from four address bytes.\<close>

definition v4net :: "byte list \<Rightarrow> nat \<Rightarrow> ipnet" where
  "v4net a n = \<lparr>net_ip = mask_bytes a (cidr_mask n 4), net_mask = cidr_mask n 4\<rparr>"

lemma ip_mask_v4: "length a = 4 \<Longrightarrow> ip_mask (as16 a) (cidr_mask n 4) = Some (mask_bytes a (cidr_mask n 4))"
  by (simp add: ip_mask_def as16_def Let_def)

lemma mask_mask: "mask_bytes (mask_bytes a m) m = mask_bytes a m"
proof (induction a arbitrary: m)
  case (Cons x a)
  then show ?case by (cases m) (simp_all add: and.assoc)
qed simp

lemma v4net_contains:
  assumes "length a = 4" "n \<le> 32" "To4 x = Some b"
  shows "net_contains (v4net a n) x \<longleftrightarrow> be_nat b div 2 ^ (32 - n) = be_nat a div 2 ^ (32 - n)"
proof -
  have "networkNumberAndMask (v4net a n) = Some (mask_bytes a (cidr_mask n 4), cidr_mask n 4)"
    using assms(1) by (simp add: networkNumberAndMask_def v4net_def Let_def)
  then have "net_contains (v4net a n) x \<longleftrightarrow>
      mask_bytes a (cidr_mask n 4) = mask_bytes b (cidr_mask n 4)"
    using assms To4_length [OF assms(3)] by (simp add: net_contains_def mask_mask)
  also have "\<dots> \<longleftrightarrow> be_nat a div 2 ^ (32 - n) = be_nat b div 2 ^ (32 - n)"
    using mask_bytes_eq_iff [of a 4 b n] assms To4_length [OF assms(3)] by simp
  finally show ?thesis by metis
qed

subsection \<open>Printing and parsing an IPv4 address\<close>

text \<open>Reading back the digits of a field adds one octet to the fields.\<close>

lemma parse_octet:
  assumes "v < 256"
  shows "parseIPv4Fields True 0 0 fs (string_of_nat v @ s) =
    parseIPv4Fields False v (length (string_of_nat v)) fs s"
proof -
  consider "v < 10" | "10 \<le> v" "v < 100" | "100 \<le> v" "v < 256" using assms by linarith
  then show ?thesis
  proof cases
    case 1
    then show ?thesis
      by (simp add: string_of_nat.simps [of v] is_digit_char_of digit_val_char_of)
  next
    case 2
    then have "string_of_nat v = [char_of (48 + v div 10), char_of (48 + v mod 10)]"
      by (simp add: string_of_nat.simps [of v] string_of_nat.simps [of "v div 10"])
    moreover have "v div 10 < 10" "v div 10 \<noteq> 0" using 2 by auto
    ultimately show ?thesis using assms
      by (simp add: is_digit_char_of digit_val_char_of)
  next
    case 3
    have q: "\<not> v div 10 < 10" "v div 100 < 10" "v div 100 \<noteq> 0" using 3 by auto
    then have "string_of_nat v = [char_of (48 + v div 100), char_of (48 + v div 10 mod 10), char_of (48 + v mod 10)]"
      by (simp add: string_of_nat.simps [of v] string_of_nat.simps [of "v div 10"]
          string_of_nat.simps [of "v div 100"] div_mult2_eq [symmetric])
    moreover have "v div 100 * 10 + v div 10 mod 10 = v div 10"
      using div_mult_mod_eq [of "v div 10" 10] by (simp add: div_mult2_eq [symmetric])
    moreover have "v div 10 \<le> 255" using assms by simp
    ultimately show ?thesis using assms q
      by (simp add: is_digit_char_of digit_val_char_of)
  qed
qed

lemma dot_not_digit [simp]: "\<not> is_digit (CHR ''.'')"
  by (simp add: is_digit_def)

lemma parse_octet_dot:
  "v < 256 \<Longrightarrow> length fs < 3 \<Longrightarrow> s \<noteq> [] \<Longrightarrow>
   parseIPv4Fields True 0 0 fs (string_of_nat v @ CHR ''.'' # s) = parseIPv4Fields True 0 0 (fs @ [v]) s"
  by (simp add: parse_octet)

lemma v4_string4:
  "v4_string [a, b, c, d] =
    string_of_nat (unat a) @ CHR ''.'' # string_of_nat (unat b) @ CHR ''.'' #
    string_of_nat (unat c) @ CHR ''.'' # string_of_nat (unat d)"
  by (simp add: v4_string_def)

lemma parseIPv4_v4_string: "parseIPv4 (v4_string [a, b, c, d]) = Some [a, b, c, d]"
  using parse_octet [of "unat d" "[unat a, unat b, unat c]" "[]"]
  by (simp add: parseIPv4_def v4_string4 parse_octet_dot)

lemma digit_not_special: "is_digit c \<Longrightarrow> c \<noteq> CHR ''.'' \<and> c \<noteq> CHR '':'' \<and> c \<noteq> CHR ''%''"
  by (auto simp: is_digit_def)

lemma length4E:
  assumes "length bs = 4"
  obtains a b c d where "bs = [a, b, c, d]"
  using assms by (auto simp: numeral_eq_Suc length_Suc_conv)

lemma parseAddr_v4_string:
  assumes "length bs = 4"
  shows "parseAddr (v4_string bs) = Some bs"
proof -
  obtain a b c d where bs: "bs = [a, b, c, d]" using assms by (rule length4E)
  have "dropWhile (\<lambda>c. c \<noteq> CHR ''.'' \<and> c \<noteq> CHR '':'' \<and> c \<noteq> CHR ''%'') (string_of_nat n @ CHR ''.'' # s) = CHR ''.'' # s" for n s
    using string_of_nat_digits digit_not_special by (subst dropWhile_append2) auto
  then show ?thesis
    using parseIPv4_v4_string [of a b c d] by (simp add: parseAddr_def bs v4_string4)
qed

lemma ParseIP_ip_string:
  assumes "To4 ip = Some bs"
  shows "ParseIP (ip_string ip) = Some (v4InV6Prefix @ bs)"
proof -
  have "length bs = 4" using assms by (rule To4_length)
  moreover have "ip_string ip = v4_string bs"
    using assms by (auto simp: ip_string_def To4_def)
  ultimately show ?thesis by (simp add: ParseIP_def parseAddr_v4_string as16_def)
qed

lemma v4_string_inj:
  assumes "length as = 4" "length bs = 4"
  shows "v4_string as = v4_string bs \<longleftrightarrow> as = bs"
  by (metis assms parseAddr_v4_string option.inject)

end
