(* ===== verification/Cidrutil.thy ===== *)
theory Cidrutil
  imports Go_Net
begin

unbundle bit_operations_syntax

section \<open>Package cidrutil: scan targets and network membership\<close>

text \<open>
  A model of \<^verbatim>\<open>internal/cidrutil/cidrutil.go\<close>, the one place where a target specification (a CIDR
  block, a single address, a range, or a comma-separated list of them) is validated, expanded into
  the addresses a scan visits, and partitioned along the boundary of a network.

  Errors are the package's sentinel errors, carrying the offending text where the message quotes it.
  The two loops that walk addresses (\<^verbatim>\<open>enumerateCIDR\<close>, \<^verbatim>\<open>enumerateRange\<close>) are partial functions into
  \<open>option\<close>: \<open>None\<close> means that the loop never ends, so termination is a theorem, not an assumption.
\<close>

datatype cidr_error =
    ErrEmptyCIDR
  | ErrInvalidNetwork string
  | ErrEmptyTargets
  | ErrNoValidTargets
  | ErrInvalidTarget string
  | ErrInvalidIPRange string
  | ErrIPv6RangeUnsupported string
  | ErrTargetRangeTooLarge int
  | ErrReservedTarget string string

subsection \<open>Reserved address space\<close>

text \<open>The empty string is "not reserved"; a nil address has no class.\<close>

definition reservedClass :: "ip option \<Rightarrow> string" where
  "reservedClass ipo =
     (case ipo of
        None \<Rightarrow> ''''
      | Some ip \<Rightarrow>
          (if IsUnspecified ip then ''unspecified''
           else if IsLoopback ip then ''loopback''
           else if IsLinkLocalUnicast ip then ''link-local unicast''
           else if IsMulticast ip then ''multicast''
           else if ip_equal ip IPv4bcast then ''limited broadcast''
           else (case To4 ip of
                   Some v4 \<Rightarrow> if 240 \<le> v4 ! 0 then ''reserved (240.0.0.0/4)'' else ''''
                 | None \<Rightarrow> '''')))"

definition lastAddress :: "ipnet \<Rightarrow> ip option" where
  "lastAddress n =
     (let (ones, bits) = mask_size (net_mask n)
      in if bits \<le> ones then None
         else Some (map2 (\<lambda>b m. b OR NOT m) (net_ip n) (net_mask n)))"

definition checkReserved :: "string \<Rightarrow> ip option \<Rightarrow> ip option \<Rightarrow> cidr_error option" where
  "checkReserved part fst_ip lst_ip =
     (if reservedClass fst_ip \<noteq> '''' then Some (ErrReservedTarget part (reservedClass fst_ip))
      else if lst_ip \<noteq> None \<and> reservedClass lst_ip \<noteq> '''' then
        Some (ErrReservedTarget part (reservedClass lst_ip))
      else None)"

subsection \<open>Ranges\<close>

definition u32_of :: "ip \<Rightarrow> 32 word" where
  "u32_of ip =
     push_bit 24 (ucast (ip ! 0)) OR push_bit 16 (ucast (ip ! 1)) OR
     push_bit 8 (ucast (ip ! 2)) OR ucast (ip ! 3)"

definition rangeBounds :: "string \<Rightarrow> cidr_error + ip \<times> ip" where
  "rangeBounds s =
     (case cut (CHR ''-'') s of
        None \<Rightarrow> Inl (ErrInvalidIPRange s)
      | Some (p0, p1) \<Rightarrow>
          (let startStr = trim_space p0; endStr = trim_space p1
           in case ParseIP startStr of
                None \<Rightarrow> Inl (ErrInvalidIPRange startStr)
              | Some startIP \<Rightarrow>
                  (case To4 startIP of
                     None \<Rightarrow> Inl (ErrIPv6RangeUnsupported s)
                   | Some start4 \<Rightarrow>
                       (let end4 = (case ParseIP endStr of
                                      Some e \<Rightarrow> To4 e
                                    | None \<Rightarrow>
                                        (case atoi endStr of
                                           None \<Rightarrow> None
                                         | Some n \<Rightarrow> if n < 0 \<or> 255 < n then None
                                                     else Some (start4[3 := of_int n])))
                        in case end4 of
                             None \<Rightarrow> Inl (ErrInvalidIPRange endStr)
                           | Some end4 \<Rightarrow>
                               (if u32_of end4 < u32_of start4 then Inr (end4, start4)
                                else Inr (start4, end4))))))"

fun incIP_rev :: "byte list \<Rightarrow> byte list" where
  "incIP_rev [] = []"
| "incIP_rev (b # bs) = (if b + 1 > 0 then (b + 1) # bs else (b + 1) # incIP_rev bs)"

definition incIP :: "ip \<Rightarrow> ip" where
  "incIP ip = rev (incIP_rev (rev ip))"

partial_function (option) enumerateRangeLoop ::
    "ip \<Rightarrow> 32 word \<Rightarrow> 32 word \<Rightarrow> string list \<Rightarrow> string list option" where
  "enumerateRangeLoop cur curU endU ips =
     (if curU \<le> endU then
        (if curU = endU then Some (ips @ [ip_string cur])
         else enumerateRangeLoop (incIP cur) (u32_of (incIP cur)) endU (ips @ [ip_string cur]))
      else Some ips)"

definition maxRangeIPs :: int where
  "maxRangeIPs = 65536"

definition enumerateRange :: "ip \<Rightarrow> ip \<Rightarrow> (cidr_error + string list) option" where
  "enumerateRange start end_ip =
     (case (To4 start, To4 end_ip) of
        (Some start4, Some end4) \<Rightarrow>
          (let startU = u32_of start4; endU = u32_of end4; cnt = uint (endU - startU) + 1
           in if maxRangeIPs < cnt then Some (Inl (ErrTargetRangeTooLarge cnt))
              else map_option Inr (enumerateRangeLoop start4 startU endU []))
      | _ \<Rightarrow> Some (Inl (ErrInvalidIPRange ''non-IPv4 range endpoints'')))"

subsection \<open>CIDR blocks\<close>

definition v4ReservedBounds :: "ipnet \<Rightarrow> bool \<times> bool" where
  "v4ReservedBounds n =
     (let (ones, bits) = mask_size (net_mask n)
      in if bits \<noteq> 32 \<or> 31 \<le> ones then (False, False) else (True, True))"

partial_function (option) enumerateCIDRLoop :: "ipnet \<Rightarrow> ip \<Rightarrow> string list \<Rightarrow> string list option" where
  "enumerateCIDRLoop n ip ips =
     (if net_contains n ip then enumerateCIDRLoop n (incIP ip) (ips @ [ip_string ip]) else Some ips)"

definition enumerateCIDR :: "ipnet \<Rightarrow> string list option" where
  "enumerateCIDR n =
     (let (ones, bits) = mask_size (net_mask n)
      in if ones = bits then Some [ip_string (net_ip n)]
         else case enumerateCIDRLoop n (case ip_mask (net_ip n) (net_mask n) of
                                          Some i \<Rightarrow> i | None \<Rightarrow> []) [] of
                None \<Rightarrow> None
              | Some ips \<Rightarrow>
                  (let (skipFirst, skipLast) = v4ReservedBounds n
                   in if skipFirst then
                        (let ips' = tl ips
                         in Some (if skipLast \<and> ips' \<noteq> [] then butlast ips' else ips'))
                      else Some ips))"

subsection \<open>Validation\<close>

text \<open>The body of the loop of \<^verbatim>\<open>ValidateTargetsFor\<close> for one trimmed, non-empty part.\<close>

definition validatePart :: "string \<Rightarrow> bool \<Rightarrow> cidr_error option" where
  "validatePart part allowReserved =
     (case ParseCIDR part of
        Some (_, n) \<Rightarrow>
          (if \<not> allowReserved then checkReserved part (Some (net_ip n)) (lastAddress n) else None)
      | None \<Rightarrow>
          (case ParseIP part of
             Some ip \<Rightarrow>
               (if \<not> allowReserved \<and> reservedClass (Some ip) \<noteq> ''''
                then Some (ErrReservedTarget part (reservedClass (Some ip))) else None)
           | None \<Rightarrow>
               (if CHR ''-'' \<in> set part then
                  (case rangeBounds part of
                     Inl e \<Rightarrow> Some e
                   | Inr (start, end_ip) \<Rightarrow>
                       (if \<not> allowReserved then checkReserved part (Some start) (Some end_ip) else None))
                else Some (ErrInvalidTarget part))))"

fun validateParts :: "string list \<Rightarrow> bool \<Rightarrow> cidr_error option" where
  "validateParts [] allowReserved = None"
| "validateParts (p # ps) allowReserved =
     (let part = trim_space p
      in if part = [] then validateParts ps allowReserved
         else case validatePart part allowReserved of
                Some e \<Rightarrow> Some e
              | None \<Rightarrow> validateParts ps allowReserved)"

definition ValidateTargetsFor :: "string \<Rightarrow> bool \<Rightarrow> cidr_error option" where
  "ValidateTargetsFor targets allowReserved =
     (let t = trim_space targets
      in if t = [] then Some ErrEmptyTargets
         else validateParts (split_on (CHR '','') t) allowReserved)"

definition ValidateTargets :: "string \<Rightarrow> cidr_error option" where
  "ValidateTargets targets = ValidateTargetsFor targets False"

subsection \<open>Expansion\<close>

definition expandSingle :: "string \<Rightarrow> bool \<Rightarrow> (cidr_error + string list) option" where
  "expandSingle t allowReserved =
     (case ParseCIDR t of
        Some (_, n) \<Rightarrow>
          (case (if \<not> allowReserved then checkReserved t (Some (net_ip n)) (lastAddress n) else None) of
             Some e \<Rightarrow> Some (Inl e)
           | None \<Rightarrow> map_option Inr (enumerateCIDR n))
      | None \<Rightarrow>
          (case ParseIP t of
             Some ip \<Rightarrow>
               (if \<not> allowReserved \<and> reservedClass (Some ip) \<noteq> ''''
                then Some (Inl (ErrReservedTarget t (reservedClass (Some ip))))
                else Some (Inr [ip_string ip]))
           | None \<Rightarrow>
               (if CHR ''-'' \<in> set t then
                  (case rangeBounds t of
                     Inl e \<Rightarrow> Some (Inl e)
                   | Inr (start, end_ip) \<Rightarrow>
                       (case (if \<not> allowReserved then checkReserved t (Some start) (Some end_ip) else None) of
                          Some e \<Rightarrow> Some (Inl e)
                        | None \<Rightarrow> enumerateRange start end_ip))
                else Some (Inl (ErrInvalidTarget t)))))"

text \<open>The loop over the comma-separated parts: the first error ends it, a divergence is final.\<close>

fun expandParts :: "string list \<Rightarrow> bool \<Rightarrow> string list \<Rightarrow> (cidr_error + string list) option" where
  "expandParts [] allowReserved ips = Some (Inr ips)"
| "expandParts (p # ps) allowReserved ips =
     (let part = trim_space p
      in if part = [] then expandParts ps allowReserved ips
         else case expandSingle part allowReserved of
                None \<Rightarrow> None
              | Some (Inl e) \<Rightarrow> Some (Inl e)
              | Some (Inr expanded) \<Rightarrow> expandParts ps allowReserved (ips @ expanded))"

definition ExpandTargetsFor :: "string \<Rightarrow> bool \<Rightarrow> (cidr_error + string list) option" where
  "ExpandTargetsFor targets allowReserved =
     (let t = trim_space targets
      in if t = [] then Some (Inl ErrEmptyTargets)
         else if CHR '','' \<in> set t then
           (case expandParts (split_on (CHR '','') t) allowReserved [] of
              None \<Rightarrow> None
            | Some (Inl e) \<Rightarrow> Some (Inl e)
            | Some (Inr ips) \<Rightarrow> if ips = [] then Some (Inl ErrNoValidTargets) else Some (Inr ips))
         else expandSingle t allowReserved)"

definition ExpandTargets :: "string \<Rightarrow> (cidr_error + string list) option" where
  "ExpandTargets targets = ExpandTargetsFor targets False"

subsection \<open>Network membership\<close>

definition ParseNetwork :: "string \<Rightarrow> cidr_error + ipnet" where
  "ParseNetwork cidr0 =
     (let cidr = trim_space cidr0
      in if cidr = [] then Inl ErrEmptyCIDR
         else if CHR ''/'' \<notin> set cidr then
           (case ParseIP cidr of
              None \<Rightarrow> Inl (ErrInvalidNetwork cidr)
            | Some ip \<Rightarrow>
                (let full = cidr @ (if To4 ip \<noteq> None then ''/32'' else ''/128'')
                 in case ParseCIDR full of
                      None \<Rightarrow> Inl (ErrInvalidNetwork full)
                    | Some (_, n) \<Rightarrow> Inr n))
         else (case ParseCIDR cidr of
                 None \<Rightarrow> Inl (ErrInvalidNetwork cidr)
               | Some (_, n) \<Rightarrow> Inr n))"

definition contains_opt :: "ipnet \<Rightarrow> ip option \<Rightarrow> bool" where
  "contains_opt n ipo = net_contains n (case ipo of None \<Rightarrow> [] | Some ip \<Rightarrow> ip)"

definition ContainsIP :: "ipnet option \<Rightarrow> string \<Rightarrow> bool" where
  "ContainsIP network ipStr =
     (case network of
        None \<Rightarrow> False
      | Some n \<Rightarrow> (case ParseIP (trim_space ipStr) of None \<Rightarrow> False | Some ip \<Rightarrow> net_contains n ip))"

fun partitionLoop :: "ipnet \<Rightarrow> string list \<Rightarrow> string list \<times> string list \<Rightarrow> string list \<times> string list" where
  "partitionLoop n [] acc = acc"
| "partitionLoop n (s # ss) (ins, outs) =
     (if contains_opt n (ParseIP s) then partitionLoop n ss (ins @ [s], outs)
      else partitionLoop n ss (ins, outs @ [s]))"

definition PartitionTargets ::
    "string \<Rightarrow> ipnet option \<Rightarrow> (cidr_error + string list \<times> string list) option" where
  "PartitionTargets targets network =
     (case network of
        None \<Rightarrow> Some (Inr ([], []))
      | Some n \<Rightarrow>
          (case ExpandTargets targets of
             None \<Rightarrow> None
           | Some (Inl e) \<Rightarrow> Some (Inl e)
           | Some (Inr ips) \<Rightarrow> Some (Inr (partitionLoop n ips ([], [])))))"

declare enumerateRangeLoop.simps [code] enumerateCIDRLoop.simps [code]

subsection \<open>Stepping through addresses\<close>

lemma length_incIP_rev [simp]: "length (incIP_rev bs) = length bs"
  by (induction bs) auto

lemma length_incIP [simp]: "length (incIP ip) = length ip"
  by (simp add: incIP_def)

definition le_nat :: "byte list \<Rightarrow> nat" where
  "le_nat bs = be_nat (rev bs)"

lemma le_nat_Cons [simp]: "le_nat (b # bs) = unat b + 256 * le_nat bs"
  by (simp add: le_nat_def be_nat_append)

lemma le_nat_Nil [simp]: "le_nat [] = 0"
  by (simp add: le_nat_def)

lemma unat_byte_inc: "unat (b + 1 :: byte) = (if b + 1 > 0 then unat b + 1 else 0) \<and> (\<not> b + 1 > 0 \<longrightarrow> unat b = 255)"
proof (cases "b + 1 = 0")
  case True
  then have "b = - 1" by (simp only: eq_neg_iff_add_eq_0)
  moreover have "unat (- 1 :: byte) = 255" by code_simp
  ultimately show ?thesis using True by simp
next
  case False
  then have "unat (b + 1) \<noteq> 0" by (simp add: unat_eq_zero)
  moreover have "unat (b + 1) = (unat b + 1) mod 256" by (simp add: unat_word_ariths)
  ultimately have "unat (b + 1) = unat b + 1" using unat_byte_less [of b] by (cases "unat b = 255") auto
  then show ?thesis using False by (simp add: word_gt_0)
qed

lemma le_nat_incIP_rev:
  "le_nat (incIP_rev bs) = (le_nat bs + 1) mod 256 ^ length bs"
proof (induction bs)
  case (Cons b bs)
  have lt: "le_nat xs < 256 ^ length xs" for xs :: "byte list"
    using be_nat_less [of "rev xs"] by (simp add: le_nat_def)
  show ?case
  proof (cases "b + 1 > 0")
    case True
    have "unat (b + 1) < 256" by (rule unat_byte_less)
    then have "unat b + 1 + 256 * le_nat bs < 256 * 256 ^ length bs"
      using lt [of bs] unat_byte_inc [of b] True by simp
    then show ?thesis using True unat_byte_inc [of b] by simp
  next
    case False
    have "(256 + 256 * le_nat bs) mod (256 * 256 ^ length bs) = 256 * ((le_nat bs + 1) mod 256 ^ length bs)"
      by (simp add: mult_mod_right)
    then show ?thesis using False unat_byte_inc [of b] Cons.IH by simp
  qed
qed simp

lemma be_nat_incIP: "be_nat (incIP ip) = (be_nat ip + 1) mod 256 ^ length ip"
  using le_nat_incIP_rev [of "rev ip"] by (simp add: le_nat_def incIP_def)

text \<open>The four bytes of a number below \<open>2 ^ 32\<close>.\<close>

definition v4_of :: "nat \<Rightarrow> byte list" where
  "v4_of v = [of_nat (v div 2 ^ 24), of_nat (v div 2 ^ 16), of_nat (v div 2 ^ 8), of_nat v]"

lemma length_v4_of [simp]: "length (v4_of v) = 4"
  by (simp add: v4_of_def)

lemma be_nat_v4_of: "v < 2 ^ 32 \<Longrightarrow> be_nat (v4_of v) = v"
proof -
  assume "v < 2 ^ 32"
  then have v24: "v div 16777216 mod 256 = v div 16777216" by (simp add: less_mult_imp_div_less)
  have "v div 256 = v div 65536 * 256 + v div 256 mod 256"
    using div_mult_mod_eq [of "v div 256" 256] by (simp add: div_mult2_eq [symmetric])
  moreover have "v div 65536 = v div 16777216 * 256 + v div 65536 mod 256"
    using div_mult_mod_eq [of "v div 65536" 256] by (simp add: div_mult2_eq [symmetric])
  moreover have "v = v div 256 * 256 + v mod 256" by simp
  ultimately have "v = v div 16777216 * 16777216 + (v div 65536 mod 256 * 65536
      + (v div 256 mod 256 * 256 + v mod 256))"
    by linarith
  moreover have "unat (of_nat k :: byte) = k mod 256" for k
    by (simp add: unat_of_nat)
  ultimately show ?thesis
    by (simp add: v4_of_def v24)
qed

lemma v4_of_be_nat: "length bs = 4 \<Longrightarrow> v4_of (be_nat bs) = bs"
  using be_nat_inj [of "v4_of (be_nat bs)" bs] be_nat_v4_of [of "be_nat bs"] be_nat_less [of bs] by simp

lemma u32_of_be_nat:
  assumes "length ip = 4"
  shows "unat (u32_of ip) = be_nat ip"
proof -
  obtain a b c d where ip: "ip = [a, b, c, d]" using assms by (rule length4E)
  let ?A = "ucast a :: 32 word" let ?B = "ucast b :: 32 word" let ?C = "ucast c :: 32 word" let ?D = "ucast d :: 32 word"
  have "push_bit 24 ?A OR push_bit 16 ?B OR push_bit 8 ?C OR ?D = push_bit 24 ?A + (push_bit 16 ?B + (push_bit 8 ?C + ?D))"
  proof -
    have "push_bit 8 ?C + ?D = push_bit 8 ?C OR ?D"
      by (rule disjunctive_add) (auto simp: bit_simps dest: bit_imp_le_length)
    moreover have "push_bit 16 ?B + (push_bit 8 ?C OR ?D) = push_bit 16 ?B OR (push_bit 8 ?C OR ?D)"
      by (rule disjunctive_add) (auto simp: bit_simps dest: bit_imp_le_length)
    moreover have "push_bit 24 ?A + (push_bit 16 ?B OR (push_bit 8 ?C OR ?D)) =
        push_bit 24 ?A OR (push_bit 16 ?B OR (push_bit 8 ?C OR ?D))"
      by (rule disjunctive_add) (auto simp: bit_simps dest: bit_imp_le_length)
    ultimately show ?thesis by (simp only:)
  qed
  also have "\<dots> = of_nat (be_nat ip)"
    by (simp add: ip push_bit_eq_mult mult.commute)
  finally have "u32_of ip = of_nat (be_nat ip)" by (simp only: u32_of_def ip nth_Cons_0 nth_Cons_numeral) (simp add: ip)
  moreover have "be_nat ip < 2 ^ LENGTH(32)" using be_nat_less [of ip] assms by simp
  ultimately show ?thesis by (simp only: unat_of_nat mod_less)
qed

text \<open>The printed addresses of the numbers of an interval.\<close>

definition v4_strings :: "nat \<Rightarrow> nat \<Rightarrow> string list" where
  "v4_strings lo hi = map (\<lambda>v. ip_string (v4_of v)) [lo..<hi]"

lemma v4_strings_step: "lo < hi \<Longrightarrow> v4_strings lo hi = ip_string (v4_of lo) # v4_strings (Suc lo) hi"
  by (simp add: v4_strings_def upt_conv_Cons)

lemma v4_strings_empty [simp]: "v4_strings lo lo = []"
  by (simp add: v4_strings_def)

lemma be_nat_incIP4:
  "length ip = 4 \<Longrightarrow> be_nat ip + 1 < 2 ^ 32 \<Longrightarrow> be_nat (incIP ip) = be_nat ip + 1"
  by (simp add: be_nat_incIP)

lemma enumerateRangeLoop_all:
  assumes "length cur = 4" "be_nat cur \<le> unat endU"
  shows "enumerateRangeLoop cur (u32_of cur) endU ips = Some (ips @ v4_strings (be_nat cur) (Suc (unat endU)))"
  using assms
proof (induction "unat endU - be_nat cur" arbitrary: cur ips)
  case 0
  then have eq: "u32_of cur = endU" by (simp add: word_unat_eq_iff u32_of_be_nat)
  have "be_nat cur = unat endU" using 0 by simp
  then have "v4_strings (be_nat cur) (Suc (unat endU)) = [ip_string cur]"
    using v4_of_be_nat [OF 0(2)] by (simp add: v4_strings_step)
  then show ?case by (simp add: enumerateRangeLoop.simps [of cur] eq)
next
  case (Suc k)
  have lt: "be_nat cur < unat endU" using Suc.hyps(2) by simp
  have "unat endU < 2 ^ LENGTH(32)" by (rule unsigned_less)
  with lt have next_num: "be_nat (incIP cur) = be_nat cur + 1"
    by (intro be_nat_incIP4 [OF Suc.prems(1)]) simp
  have ne: "u32_of cur \<noteq> endU" "u32_of cur \<le> endU"
    using lt u32_of_be_nat [OF Suc.prems(1)] by (auto simp: word_le_nat_alt)
  have "enumerateRangeLoop (incIP cur) (u32_of (incIP cur)) endU (ips @ [ip_string cur]) =
      Some ((ips @ [ip_string cur]) @ v4_strings (be_nat cur + 1) (Suc (unat endU)))"
    using Suc.hyps(1) [of "incIP cur"] Suc.hyps(2) lt next_num Suc.prems(1) by simp
  then show ?case
    using ne lt v4_of_be_nat [OF Suc.prems(1)]
    by (simp add: enumerateRangeLoop.simps [of cur] v4_strings_step [of "be_nat cur"])
qed

lemma enumerateRange_eq:
  assumes "length s = 4" "length e = 4" "be_nat s \<le> be_nat e"
  shows "enumerateRange s e =
    Some (if 65536 < be_nat e - be_nat s + 1
          then Inl (ErrTargetRangeTooLarge (int (be_nat e - be_nat s) + 1))
          else Inr (v4_strings (be_nat s) (Suc (be_nat e))))"
proof -
  have "u32_of s \<le> u32_of e" using assms by (simp add: word_le_nat_alt u32_of_be_nat)
  then have "uint (u32_of e - u32_of s) = int (be_nat e - be_nat s)"
    using assms by (simp add: u32_of_be_nat uint_nat unat_sub)
  moreover from this have "65536 < uint (u32_of e - u32_of s) + 1 \<longleftrightarrow> 65536 < be_nat e - be_nat s + 1"
    by linarith
  ultimately show ?thesis
    using assms enumerateRangeLoop_all [of s "u32_of e" "[]"]
    by (simp add: enumerateRange_def maxRangeIPs_def Let_def u32_of_be_nat del: of_nat_diff)
qed

text \<open>What \<^verbatim>\<open>rangeBounds\<close> returns is a pair of IPv4 addresses in ascending order.\<close>

lemma rangeBounds_ordered:
  assumes "rangeBounds t = Inr (s, e)"
  shows "length s = 4 \<and> length e = 4 \<and> be_nat s \<le> be_nat e"
proof -
  from assms obtain a b where ab: "length a = 4" "length b = 4"
      "(if u32_of b < u32_of a then (b, a) else (a, b)) = (s, e)"
    unfolding rangeBounds_def Let_def
    by (fastforce split: option.splits prod.splits if_splits dest: To4_length)
  then show ?thesis
    by (auto simp: word_less_nat_alt u32_of_be_nat split: if_splits)
qed

subsection \<open>Walking a block\<close>

definition block_lo :: "byte list \<Rightarrow> nat \<Rightarrow> nat" where
  "block_lo a n = be_nat a div 2 ^ (32 - n) * 2 ^ (32 - n)"

lemma block_bound:
  assumes "length a = 4" "n \<le> 32"
  shows "block_lo a n + 2 ^ (32 - n) \<le> 2 ^ 32"
proof -
  let ?p = "2 ^ (32 - n) :: nat"
  have p: "(2 :: nat) ^ 32 = 2 ^ n * ?p" using assms(2) by (simp flip: power_add)
  have "be_nat a < 2 ^ n * ?p" using be_nat_less [of a] assms(1) p by simp
  then have "be_nat a div ?p < 2 ^ n" by (rule less_mult_imp_div_less)
  then have "(be_nat a div ?p + 1) * ?p \<le> 2 ^ n * ?p" by (intro mult_le_mono1) simp
  then show ?thesis unfolding block_lo_def p by (simp add: add.commute)
qed

lemma in_block_iff:
  fixes v :: nat
  shows "v div 2 ^ k = q \<longleftrightarrow> q * 2 ^ k \<le> v \<and> v < q * 2 ^ k + 2 ^ k"
proof
  assume "v div 2 ^ k = q"
  then show "q * 2 ^ k \<le> v \<and> v < q * 2 ^ k + 2 ^ k"
    using div_times_less_eq_dividend [of v "2 ^ k"] dividend_less_div_times [of "2 ^ k" v] by auto
next
  assume "q * 2 ^ k \<le> v \<and> v < q * 2 ^ k + 2 ^ k"
  then show "v div 2 ^ k = q"
    by (intro div_nat_eqI) (simp_all add: mult.commute)
qed

lemma v4net_contains_iff:
  assumes "length a = 4" "n \<le> 32" "To4 x = Some b"
  shows "net_contains (v4net a n) x \<longleftrightarrow>
    block_lo a n \<le> be_nat b \<and> be_nat b < block_lo a n + 2 ^ (32 - n)"
  using v4net_contains [OF assms] by (simp add: in_block_iff block_lo_def)

lemma enumerateCIDRLoop_all:
  assumes a: "length a = 4" and n: "1 \<le> n" "n \<le> 32"
    and cur: "length cur = 4" "block_lo a n \<le> be_nat cur" "be_nat cur < block_lo a n + 2 ^ (32 - n)"
  shows "enumerateCIDRLoop (v4net a n) cur ips =
    Some (ips @ v4_strings (be_nat cur) (block_lo a n + 2 ^ (32 - n)))"
  using cur
proof (induction "block_lo a n + 2 ^ (32 - n) - be_nat cur" arbitrary: cur ips)
  case 0
  then show ?case by simp
next
  case (Suc k)
  let ?hi = "block_lo a n + 2 ^ (32 - n)"
  have here: "net_contains (v4net a n) cur"
    using v4net_contains_iff [OF a n(2), of cur cur] Suc.prems by simp
  have vs: "v4_strings (be_nat cur) ?hi = ip_string cur # v4_strings (Suc (be_nat cur)) ?hi"
    using Suc.prems v4_of_be_nat [of cur] by (simp add: v4_strings_step)
  show ?case
  proof (cases "be_nat cur + 1 < ?hi")
    case True
    then have "be_nat (incIP cur) = be_nat cur + 1"
      using block_bound [OF a n(2)] by (intro be_nat_incIP4 [OF Suc.prems(1)]) simp
    then show ?thesis
      using Suc.hyps(1) [of "incIP cur" "ips @ [ip_string cur]"] Suc.hyps(2) Suc.prems True here vs
      by (simp add: enumerateCIDRLoop.simps [of _ cur])
  next
    case False
    then have last: "be_nat cur + 1 = ?hi" using Suc.prems by simp
    have "\<not> net_contains (v4net a n) (incIP cur)"
    proof (cases "?hi = 2 ^ 32")
      case True
      then have "be_nat (incIP cur) = 0" using last Suc.prems(1) by (simp add: be_nat_incIP)
      moreover have "0 < block_lo a n"
      proof -
        have "(2 :: nat) ^ (32 - n) < 2 ^ 32" using n(1) by (intro power_strict_increasing) auto
        then show ?thesis using True by linarith
      qed
      ultimately show ?thesis
        using v4net_contains_iff [OF a n(2), of "incIP cur" "incIP cur"] Suc.prems(1) by simp
    next
      case False
      then have "be_nat (incIP cur) = ?hi"
        using block_bound [OF a n(2)] last by (subst be_nat_incIP4 [OF Suc.prems(1)]) simp_all
      then show ?thesis
        using v4net_contains_iff [OF a n(2), of "incIP cur" "incIP cur"] Suc.prems(1) by simp
    qed
    then show ?thesis
      using here vs last
      by (simp add: enumerateCIDRLoop.simps [of _ cur] enumerateCIDRLoop.simps [of _ "incIP cur"])
  qed
qed

lemma unat_high_byte:
  fixes a :: byte
  assumes "n < 8"
  shows "unat (a AND NOT (drop_bit n 255)) = unat a div 2 ^ (8 - n) * 2 ^ (8 - n)"
proof -
  have "a AND NOT (mask (8 - n)) = push_bit (8 - n) (drop_bit (8 - n) a)"
    by (rule bit_word_eqI) (auto simp: bit_simps)
  moreover have "unat (push_bit (8 - n) (drop_bit (8 - n) a)) = push_bit (8 - n) (drop_bit (8 - n) (unat a))"
  proof -
    have "push_bit (8 - n) (drop_bit (8 - n) (unat a)) \<le> unat a"
      by (simp add: push_bit_eq_mult drop_bit_eq_div)
    from this unat_byte_less [of a] have "push_bit (8 - n) (drop_bit (8 - n) (unat a)) < 256"
      by (rule le_less_trans)
    moreover have "take_bit 8 (unat a) = unat a" by (simp add: take_bit_nat_eq_self_iff)
    ultimately show ?thesis
      by (simp add: unsigned_push_bit_eq unsigned_drop_bit_eq take_bit_nat_eq_self)
  qed
  ultimately show ?thesis
    using assms by (simp add: low_mask_byte push_bit_eq_mult drop_bit_eq_div [where ?'a = nat])
qed

lemma unat_low_mask: "n < 8 \<Longrightarrow> unat (mask (8 - n) :: byte) = 2 ^ (8 - n) - 1"
  by (drule byte_cases8, elim disjE; simp; code_simp)

lemma unat_high_byte_last:
  fixes a :: byte
  assumes "n < 8"
  shows "unat ((a AND NOT (drop_bit n 255)) OR NOT (NOT (drop_bit n 255))) =
    unat a div 2 ^ (8 - n) * 2 ^ (8 - n) + (2 ^ (8 - n) - 1)"
proof -
  have "(a AND NOT (mask (8 - n))) OR mask (8 - n) = (a AND NOT (mask (8 - n))) + mask (8 - n)"
    by (subst disjunctive_add) (auto simp: bit_simps)
  moreover have "unat ((a AND NOT (mask (8 - n))) + mask (8 - n)) =
      (unat (a AND NOT (mask (8 - n))) + unat (mask (8 - n) :: byte)) mod 256"
    by (simp add: unat_word_ariths)
  moreover have "unat (mask (8 - n) :: byte) = 2 ^ (8 - n) - 1"
    using assms by (rule unat_low_mask)
  moreover have "unat a div 2 ^ (8 - n) * 2 ^ (8 - n) + (2 ^ (8 - n) - 1) < 256"
  proof -
    have "unat a < 2 ^ n * 2 ^ (8 - n)" using unat_byte_less [of a] assms by (simp flip: power_add)
    then have "unat a div 2 ^ (8 - n) < 2 ^ n" by (rule less_mult_imp_div_less)
    then have "(unat a div 2 ^ (8 - n) + 1) * 2 ^ (8 - n) \<le> 2 ^ n * 2 ^ (8 - n)"
      by (intro mult_le_mono1) simp
    also have "(2 :: nat) ^ n * 2 ^ (8 - n) = 256" using assms by (simp flip: power_add)
    finally show ?thesis by (simp add: less_eq_Suc_le Suc_diff_le)
  qed
  ultimately show ?thesis
    using unat_high_byte [OF assms, of a] assms by (simp add: low_mask_byte)
qed

lemma add_pred_assoc: "0 < (p :: nat) \<Longrightarrow> x + (y + p - Suc 0) = x + y + p - Suc 0"
  by linarith

lemma block_end_arith:
  "0 < (p :: nat) \<Longrightarrow> 0 < j \<Longrightarrow> (d * j + j - Suc 0) * p + p - Suc 0 = d * j * p + p * j - Suc 0"
  by (cases j) (simp_all add: algebra_simps)

definition block_floor :: "byte list \<Rightarrow> nat \<Rightarrow> nat" where
  "block_floor a k = be_nat a div 2 ^ k * 2 ^ k"

lemma be_nat_mask_bytes:
  assumes "length as = l" "n \<le> 8 * l"
  shows "be_nat (mask_bytes as (cidr_mask n l)) = block_floor as (8 * l - n)
    \<and> be_nat (map2 (\<lambda>b m. b OR NOT m) (mask_bytes as (cidr_mask n l)) (cidr_mask n l)) =
        block_floor as (8 * l - n) + (2 ^ (8 * l - n) - 1)"
  using assms
proof (induction l arbitrary: as n)
  case 0
  then show ?case by (simp add: block_floor_def)
next
  case (Suc l)
  obtain a as' where as: "as = a # as'" "length as' = l"
    using Suc.prems(1) by (metis length_Suc_conv)
  have p: "(256 :: nat) ^ l = 2 ^ (8 * l)" by (simp add: power_mult)
  show ?case
  proof (cases "8 \<le> n")
    case True
    define k where "k = 8 * Suc l - n"
    have k: "k \<le> 8 * l" "8 * l - (n - 8) = k" "n - 8 \<le> 8 * l"
      using True Suc.prems(2) by (auto simp: k_def)
    have "(256 :: nat) ^ l = 2 ^ (8 * l - k) * 2 ^ k" using k(1) by (simp add: p flip: power_add)
    then have "block_floor as k = unat a * 256 ^ l + block_floor as' k"
      by (simp add: as block_floor_def distrib_right flip: mult.assoc)
    moreover have "a OR NOT 255 = a" for a :: byte by simp
    moreover have "8 + 8 * l - n = k" "0 < (2 :: nat) ^ k" by (simp_all add: k_def)
    ultimately show ?thesis
      using True as Suc.IH [OF as(2) k(3)] by (simp add: k(2) add_pred_assoc)
  next
    case False
    let ?j = "8 - n"
    define K where "K = 8 * Suc l - n"
    have K: "K = 8 * l + ?j" and e: "8 + 8 * l - n = K" using False by (simp_all add: K_def)
    have pj: "(2 :: nat) ^ K = 256 ^ l * 2 ^ ?j" unfolding K by (simp only: p power_add)
    have "be_nat as div (256 ^ l * 2 ^ ?j) = unat a div 2 ^ ?j"
      using be_nat_less [of as'] as by (simp add: div_mult2_eq)
    then have fl: "block_floor (a # as') K = unat a div 2 ^ ?j * 2 ^ ?j * 256 ^ l"
      by (simp add: block_floor_def pj as)
    have z: "be_nat (replicate m 0) = 0" and o: "be_nat (replicate m 255) = 256 ^ m - 1" for m
    proof -
      show "be_nat (replicate m 0) = 0" by (induction m) simp_all
      show "be_nat (replicate m 255) = 256 ^ m - 1"
      proof (induction m)
        case (Suc m)
        have "unat (255 :: byte) = 255" by simp
        then show ?case using Suc by simp
      qed simp
    qed
    have zs: "map2 (\<lambda>b m. b OR NOT m) (replicate l 0) (cidr_mask 0 l) = replicate l (255 :: byte)"
      by (induction l) simp_all
    show ?thesis
      using False as unat_high_byte [of n a] unat_high_byte_last [of n a]
      by (simp add: e fl mask_zero zs z o pj block_end_arith)
  qed
qed

lemma block_lo_floor: "block_lo a n = block_floor a (32 - n)"
  by (simp add: block_lo_def block_floor_def)

lemma v4net_first:
  "length a = 4 \<Longrightarrow> n \<le> 32 \<Longrightarrow> be_nat (net_ip (v4net a n)) = block_lo a n \<and> length (net_ip (v4net a n)) = 4"
  using be_nat_mask_bytes [of a 4 n] by (simp add: v4net_def block_lo_floor)

lemma v4net_last:
  assumes "length a = 4" "n < 32"
  obtains e where "lastAddress (v4net a n) = Some e" "length e = 4"
    "be_nat e = block_lo a n + (2 ^ (32 - n) - 1)"
  using be_nat_mask_bytes [of a 4 n] assms
  by (simp add: lastAddress_def v4net_def mask_size_cidr [of n 4, simplified] block_lo_floor)

lemma v4_strings_tl: "tl (v4_strings lo hi) = v4_strings (Suc lo) hi"
  by (cases "lo < hi") (simp_all add: v4_strings_def upt_conv_Cons)

lemma v4_strings_butlast: "butlast (v4_strings lo hi) = v4_strings lo (hi - 1)"
  by (cases hi) (simp_all add: v4_strings_def flip: map_butlast)

text \<open>
  The block of a prefix of at least one bit is walked completely: every address for a prefix of 31
  or 32 bits, every address but the first and the last for a shorter one.
\<close>

lemma enumerateCIDR_v4:
  assumes a: "length a = 4" and n: "1 \<le> n" "n \<le> 32"
  shows "enumerateCIDR (v4net a n) =
    Some (if n \<le> 30 then v4_strings (block_lo a n + 1) (block_lo a n + 2 ^ (32 - n) - 1)
          else v4_strings (block_lo a n) (block_lo a n + 2 ^ (32 - n)))"
proof -
  let ?N = "v4net a n" let ?lo = "block_lo a n"
  have first: "be_nat (net_ip ?N) = ?lo" "length (net_ip ?N) = 4"
    using v4net_first [OF a n(2)] by simp_all
  have size: "mask_size (net_mask ?N) = (n, 32)"
    using mask_size_cidr [of n 4] n(2) by (simp add: v4net_def)
  have start: "ip_mask (net_ip ?N) (net_mask ?N) = Some (net_ip ?N)"
    using a by (simp add: v4net_def ip_mask_def Let_def mask_mask)
  have loop: "enumerateCIDRLoop ?N (net_ip ?N) [] = Some (v4_strings ?lo (?lo + 2 ^ (32 - n)))"
    using enumerateCIDRLoop_all [OF a n first(2), of "[]"] first(1) by simp
  have bounds: "v4ReservedBounds ?N = (n \<le> 30, n \<le> 30)"
    by (auto simp: v4ReservedBounds_def size)
  consider "n = 32" | "n = 31" | "n \<le> 30" using n(2) by linarith
  then show ?thesis
  proof cases
    case 1
    then have "v4_strings ?lo (?lo + 2 ^ (32 - n)) = [ip_string (net_ip ?N)]"
      using v4_of_be_nat [OF first(2)] first(1) by (simp add: v4_strings_step)
    then show ?thesis using size unfolding enumerateCIDR_def by (simp add: 1)
  next
    case 2
    then show ?thesis using size start loop bounds unfolding enumerateCIDR_def by (simp add: 2)
  next
    case 3
    have "4 \<le> (2 :: nat) ^ (32 - n)" using 3 power_increasing [of 2 "32 - n" "2 :: nat"] by simp
    then have "v4_strings (?lo + 1) (?lo + 2 ^ (32 - n)) \<noteq> []" by (simp add: v4_strings_def)
    then show ?thesis using 3
      by (simp add: enumerateCIDR_def size start loop bounds v4_strings_tl v4_strings_butlast)
  qed
qed

text \<open>The block of prefix length zero contains every IPv4 address, so its walk never leaves it.\<close>

lemma enumerateCIDRLoop_forever:
  assumes a: "length a = 4" and ret: "enumerateCIDRLoop (v4net a 0) cur ips = Some r" and cur: "length cur = 4"
  shows False
proof -
  have "length cur = 4 \<longrightarrow> n = v4net a 0 \<longrightarrow> False"
    if "enumerateCIDRLoop n cur ips = Some r" for n cur ips r
  proof (rule enumerateCIDRLoop.raw_induct [where P = "\<lambda>n cur ips r. length cur = 4 \<longrightarrow> n = v4net a 0 \<longrightarrow> False", OF _ that])
    fix f n cur ips r
    assume IH: "\<And>n cur ips r. f n cur ips = Some r \<Longrightarrow> length cur = 4 \<longrightarrow> n = v4net a 0 \<longrightarrow> False"
      and eq: "(if net_contains n cur then f n (incIP cur) (ips @ [ip_string cur]) else Some ips) = Some r"
    show "length cur = 4 \<longrightarrow> n = v4net a 0 \<longrightarrow> False"
    proof (intro impI)
      assume len: "length cur = 4" and n: "n = v4net a 0"
      have "net_contains n cur"
        using v4net_contains_iff [OF a, of 0 cur cur] be_nat_less [of cur] be_nat_less [of a] len a
        by (simp add: n block_lo_def)
      then have "f n (incIP cur) (ips @ [ip_string cur]) = Some r" using eq by simp
      then show False using IH [of n "incIP cur"] len n by simp
    qed
  qed
  then show False using ret cur by blast
qed

lemma enumerateCIDR_slash0: "length a = 4 \<Longrightarrow> enumerateCIDR (v4net a 0) = None"
proof -
  assume a: "length a = 4"
  have size: "mask_size (net_mask (v4net a 0)) = (0, 32)"
    using mask_size_cidr [of 0 4] by (simp add: v4net_def)
  have start: "ip_mask (net_ip (v4net a 0)) (net_mask (v4net a 0)) = Some (net_ip (v4net a 0))"
    using a by (simp add: v4net_def ip_mask_def Let_def mask_mask)
  have "enumerateCIDRLoop (v4net a 0) (net_ip (v4net a 0)) [] = None"
    using enumerateCIDRLoop_forever [OF a] v4net_first [OF a, of 0] by fastforce
  then show ?thesis by (simp add: enumerateCIDR_def size start)
qed

lemma ParseCIDR_v4D:
  assumes "ParseCIDR s = Some (i, N)" "mask_size (net_mask N) = (k, 32)"
  obtains a where "length a = 4" "k \<le> 32" "N = v4net a k"
proof -
  obtain a n where a: "n \<le> 8 * length a" "net_mask N = cidr_mask n (length a)"
      "ip_mask (as16 a) (cidr_mask n (length a)) = Some (net_ip N)"
    using assms(1) that by (auto simp: ParseCIDR_def Let_def not_less split: option.splits prod.splits if_splits)
  then have "n = k" "length a = 4" using assms(2) mask_size_cidr [OF a(1)] by auto
  then show ?thesis using that [of a] a ip_mask_v4 [of a n] by (simp add: v4net_def)
qed

text \<open>The reserved IPv4 addresses, as intervals of numbers.\<close>

definition reserved4 :: "nat \<Rightarrow> bool" where
  "reserved4 v \<longleftrightarrow>
     v = 0 \<or> 2130706432 \<le> v \<and> v < 2147483648 \<or> 2851995648 \<le> v \<and> v < 2852061184 \<or> 3758096384 \<le> v"

lemma byte_nibble: "(b :: byte) AND 0xF0 = 0xE0 \<longleftrightarrow> unat b div 16 = 14"
proof -
  have n: "NOT (drop_bit 4 255) = (240 :: byte)" by code_simp
  show ?thesis using byte_and_high_eq [of 4 b "0xE0"] unfolding n by simp
qed

lemma reserved4_bytes:
  assumes "w < 256" "x < 256" "y < 256" "z < 256"
  shows "reserved4 (w * 16777216 + x * 65536 + y * 256 + z) \<longleftrightarrow>
    w = 0 \<and> x = 0 \<and> y = 0 \<and> z = 0 \<or> w = 127 \<or> w = 169 \<and> x = 254 \<or> 224 \<le> w"
proof -
  let ?v = "w * 16777216 + x * 65536 + y * 256 + z"
  have "2130706432 \<le> ?v \<and> ?v < 2147483648 \<longleftrightarrow> w = 127"
    using assms by (intro iffI) linarith+
  moreover have "2851995648 \<le> ?v \<and> ?v < 2852061184 \<longleftrightarrow> w * 256 + x = 43518"
    using assms by (intro iffI) linarith+
  moreover have "w * 256 + x = 43518 \<longleftrightarrow> w = 169 \<and> x = 254"
  proof
    assume h: "w * 256 + x = 43518"
    then have "w = 169" using assms(2) by linarith
    with h show "w = 169 \<and> x = 254" by simp
  qed simp
  moreover have "3758096384 \<le> ?v \<longleftrightarrow> 224 \<le> w"
    using assms by (intro iffI) linarith+
  ultimately show ?thesis unfolding reserved4_def by simp
qed

lemma four_zeros: "replicate 4 (0 :: byte) = [0, 0, 0, 0]"
  by (simp add: numeral_eq_Suc)

lemma reservedClass_v4:
  assumes "length a = 4"
  shows "reservedClass (Some a) = '''' \<longleftrightarrow> \<not> reserved4 (be_nat a)"
proof -
  obtain w x y z where a: "a = [w, x, y, z]" using assms by (rule length4E)
  have num: "be_nat a = unat w * 16777216 + unat x * 65536 + unat y * 256 + unat z" by (simp add: a)
  have zero: "IsUnspecified a \<longleftrightarrow> w = 0 \<and> x = 0 \<and> y = 0 \<and> z = 0"
    by (auto simp: IsUnspecified_def ip_equal_def a v4InV6Prefix_def four_zeros)
  have mc: "IsMulticast a \<longleftrightarrow> unat w div 16 = 14" by (simp add: IsMulticast_def a byte_nibble)
  have bc: "ip_equal a IPv4bcast \<Longrightarrow> 240 \<le> w"
    by (simp add: ip_equal_def a v4InV6Prefix_def)
  have nib: "224 \<le> unat w \<longleftrightarrow> unat w div 16 = 14 \<or> 240 \<le> w"
  proof -
    have "unat w < 256" by simp
    then show ?thesis by (simp add: word_le_nat_alt) linarith
  qed
  have lo: "IsLoopback a \<longleftrightarrow> w = 127" "IsLinkLocalUnicast a \<longleftrightarrow> w = 169 \<and> x = 254"
    by (simp_all add: IsLoopback_def IsLinkLocalUnicast_def a)
  have t4: "To4 a = Some a" "a ! 0 = w" by (simp_all add: a)
  have u: "unat w = 0 \<longleftrightarrow> w = 0" "unat x = 0 \<longleftrightarrow> x = 0" "unat y = 0 \<longleftrightarrow> y = 0" "unat z = 0 \<longleftrightarrow> z = 0"
    "unat w = 127 \<longleftrightarrow> w = 127" "unat w = 169 \<longleftrightarrow> w = 169" "unat x = 254 \<longleftrightarrow> x = 254"
    by (simp_all add: word_unat_eq_iff)
  show ?thesis
    unfolding num reserved4_bytes [OF unat_byte_less unat_byte_less unat_byte_less unat_byte_less] nib u
    using bc by (simp add: reservedClass_def t4 zero lo mc)
qed

text \<open>An interval of at most 65536 addresses cannot step over a reserved block.\<close>

lemma interval_unreserved:
  assumes "\<not> reserved4 lo" "\<not> reserved4 hi" "lo \<le> v" "v \<le> hi" "hi - lo + 1 \<le> 65536"
  shows "\<not> reserved4 v"
  using assms unfolding reserved4_def by linarith

text \<open>An aligned block of 2 ^ 17 addresses cannot either, because the link-local block is aligned.\<close>

lemma block17_unreserved:
  assumes "\<not> reserved4 (q * 131072)" "\<not> reserved4 (q * 131072 + 131071)"
    "q * 131072 \<le> v" "v \<le> q * 131072 + 131071"
  shows "\<not> reserved4 v"
proof -
  consider "q < 16256" | "16256 \<le> q" "q < 16384" | "16384 \<le> q" "q < 21759" | "21759 \<le> q" by linarith
  then show ?thesis using assms unfolding reserved4_def by cases linarith+
qed

abbreviation unreserved_list :: "string list \<Rightarrow> bool" where
  "unreserved_list ips \<equiv> \<exists>as. ips = map ip_string as \<and> list_all (\<lambda>a. reservedClass (Some a) = '''') as"

lemma unreserved_v4_strings:
  assumes "\<And>v. lo \<le> v \<Longrightarrow> v < hi \<Longrightarrow> \<not> reserved4 v" "hi \<le> 2 ^ 32"
  shows "unreserved_list (v4_strings lo hi)"
proof (intro exI conjI)
  show "v4_strings lo hi = map ip_string (map v4_of [lo..<hi])" by (simp add: v4_strings_def)
  show "list_all (\<lambda>a. reservedClass (Some a) = '''') (map v4_of [lo..<hi])"
    using assms by (auto simp: list_all_iff reservedClass_v4 be_nat_v4_of)
qed

lemma checkReserved_None:
  "checkReserved p (Some f) (Some l) = None \<longleftrightarrow> reservedClass (Some f) = '''' \<and> reservedClass (Some l) = ''''"
  by (simp add: checkReserved_def)

lemma enumerateRange_unreserved:
  assumes "length s = 4" "length e = 4" "be_nat s \<le> be_nat e" "checkReserved p (Some s) (Some e) = None"
    "enumerateRange s e = Some (Inr ips)"
  shows "unreserved_list ips"
proof -
  have ips: "ips = v4_strings (be_nat s) (Suc (be_nat e))" and size: "be_nat e - be_nat s + 1 \<le> 65536"
    using assms enumerateRange_eq [OF assms(1-3)] by (auto split: if_splits)
  have "\<not> reserved4 (be_nat s)" "\<not> reserved4 (be_nat e)"
    using assms by (simp_all add: checkReserved_None reservedClass_v4)
  then have "\<not> reserved4 v" if "be_nat s \<le> v" "v < Suc (be_nat e)" for v
    using interval_unreserved [of "be_nat s" "be_nat e" v] that size by simp
  then show ?thesis
    using unreserved_v4_strings [of "be_nat s" "Suc (be_nat e)"] be_nat_less [of e] assms(2) ips by simp
qed

lemma block_unreserved:
  assumes "length a = 4" "15 \<le> n" "n \<le> 32"
    "\<not> reserved4 (block_lo a n)" "\<not> reserved4 (block_lo a n + (2 ^ (32 - n) - 1))"
    "block_lo a n \<le> v" "v < block_lo a n + 2 ^ (32 - n)"
  shows "\<not> reserved4 v"
proof (cases "n = 15")
  case True
  then show ?thesis
    using assms block17_unreserved [of "be_nat a div 2 ^ 17" v] by (simp add: block_lo_def)
next
  case False
  then have "(2 :: nat) ^ (32 - n) \<le> 2 ^ 16" using assms(2) by (intro power_increasing) simp_all
  then show ?thesis
    using assms(4-7) interval_unreserved [of "block_lo a n" "block_lo a n + (2 ^ (32 - n) - 1)" v]
    by simp
qed

lemma enumerateCIDR_unreserved:
  assumes a: "length a = 4" and n: "15 \<le> n" "n \<le> 32"
    and chk: "checkReserved p (Some (net_ip (v4net a n))) (lastAddress (v4net a n)) = None"
    and ips: "enumerateCIDR (v4net a n) = Some ips"
  shows "unreserved_list ips"
proof -
  let ?N = "v4net a n"
  have f: "\<not> reserved4 (block_lo a n)"
    using chk v4net_first [OF a n(2)] by (auto simp: checkReserved_def reservedClass_v4 split: if_splits)
  have l: "\<not> reserved4 (block_lo a n + (2 ^ (32 - n) - 1))"
  proof (cases "n = 32")
    case True
    then show ?thesis using f by simp
  next
    case False
    then obtain e where "lastAddress ?N = Some e" "length e = 4" "be_nat e = block_lo a n + (2 ^ (32 - n) - 1)"
      using v4net_last [OF a, of n] n(2) by auto
    then show ?thesis using chk by (metis checkReserved_None reservedClass_v4)
  qed
  have res: "\<not> reserved4 v" if "block_lo a n \<le> v" "v < block_lo a n + 2 ^ (32 - n)" for v
    using block_unreserved [OF a n f l that] .
  have top: "block_lo a n + 2 ^ (32 - n) \<le> 2 ^ 32" using block_bound [OF a n(2)] .
  show ?thesis
  proof (cases "n \<le> 30")
    case True
    then have "ips = v4_strings (block_lo a n + 1) (block_lo a n + 2 ^ (32 - n) - 1)"
      using ips enumerateCIDR_v4 [OF a, of n] n by simp
    moreover have "unreserved_list (v4_strings (block_lo a n + 1) (block_lo a n + 2 ^ (32 - n) - 1))"
      using res top by (intro unreserved_v4_strings) simp_all
    ultimately show ?thesis by metis
  next
    case False
    then have "ips = v4_strings (block_lo a n) (block_lo a n + 2 ^ (32 - n))"
      using ips enumerateCIDR_v4 [OF a, of n] n by simp
    moreover have "unreserved_list (v4_strings (block_lo a n) (block_lo a n + 2 ^ (32 - n)))"
      using res top by (intro unreserved_v4_strings) simp_all
    ultimately show ?thesis by metis
  qed
qed

text \<open>Every block of the specification is an IPv4 block of prefix length at least 15.\<close>

definition long_prefix :: "string \<Rightarrow> bool" where
  "long_prefix t =
     (case ParseCIDR t of
        None \<Rightarrow> True
      | Some (_, n) \<Rightarrow> (case mask_size (net_mask n) of (ones, bits) \<Rightarrow> bits = 32 \<and> 15 \<le> ones))"

lemma expandSingle_unreserved:
  assumes "expandSingle t False = Some (Inr ips)" "long_prefix t"
  shows "unreserved_list ips"
proof (cases "ParseCIDR t")
  case (Some p)
  obtain i N where p: "p = (i, N)" by fastforce
  obtain k where k: "mask_size (net_mask N) = (k, 32)" "15 \<le> k"
    using assms(2) Some p by (auto simp: long_prefix_def split: prod.splits)
  obtain a where "length a = 4" "k \<le> 32" "N = v4net a k" using ParseCIDR_v4D [OF Some [unfolded p] k(1)] .
  then show ?thesis
    using enumerateCIDR_unreserved [of a k t ips] assms(1) Some p k(2)
    by (auto simp: expandSingle_def split: option.splits)
next
  case None
  show ?thesis
  proof (cases "ParseIP t")
    case (Some ip)
    then have "ips = map ip_string [ip]" "list_all (\<lambda>a. reservedClass (Some a) = '''') [ip]"
      using assms(1) None by (auto simp: expandSingle_def split: if_splits)
    then show ?thesis by blast
  next
    case noip: None
    then obtain s e where b: "rangeBounds t = Inr (s, e)" "checkReserved t (Some s) (Some e) = None"
        "enumerateRange s e = Some (Inr ips)"
      using assms(1) None by (auto simp: expandSingle_def split: if_splits sum.splits option.splits)
    then show ?thesis using rangeBounds_ordered [OF b(1)] enumerateRange_unreserved by blast
  qed
qed

lemma unreserved_list_append:
  "unreserved_list xs \<Longrightarrow> unreserved_list ys \<Longrightarrow> unreserved_list (xs @ ys)"
  by (metis list_all_append map_append)

lemma expandParts_unreserved:
  assumes "expandParts ps False acc = Some (Inr ips)" "list_all (\<lambda>p. long_prefix (trim_space p)) ps" "unreserved_list acc"
  shows "unreserved_list ips"
  using assms
proof (induction ps False acc rule: expandParts.induct)
  case (2 p ps acc)
  show ?case
  proof (cases "trim_space p = []")
    case True
    then show ?thesis using 2 by simp
  next
    case False
    then obtain xs where xs: "expandSingle (trim_space p) False = Some (Inr xs)"
        "expandParts ps False (acc @ xs) = Some (Inr ips)"
      using 2(3) by (auto split: option.splits sum.splits)
    then have "unreserved_list (acc @ xs)"
      using 2(4,5) expandSingle_unreserved unreserved_list_append by simp
    then show ?thesis using 2(2) [OF refl False xs(1) refl xs(2)] 2(4) by simp
  qed
qed simp

lemma expandParts_comma_free: "CHR '','' \<notin> set t \<Longrightarrow> split_on (CHR '','') t = [t]"
  by (rule split_on_no_sep)

lemma ExpandTargets_parts:
  assumes "ExpandTargetsFor t r = Some (Inr ips)"
  shows "expandParts (split_on (CHR '','') (trim_space t)) r [] = Some (Inr ips)"
  using assms by (auto simp: ExpandTargetsFor_def Let_def split_on_no_sep trim_space_idem split: if_splits option.splits sum.splits)

text \<open>Validation of a part fails exactly with the error its expansion reports first.\<close>

lemma validatePart_expandSingle:
  "validatePart t r = Some e \<Longrightarrow> expandSingle t r = Some (Inl e)"
  by (auto simp: validatePart_def expandSingle_def split: option.splits sum.splits if_splits prod.splits)

lemma enumerateRange_errors:
  assumes "rangeBounds t = Inr (s, e)" "enumerateRange s e = Some (Inl err)"
  shows "\<exists>n. err = ErrTargetRangeTooLarge n"
proof -
  have "length s = 4" "length e = 4" "be_nat s \<le> be_nat e" using rangeBounds_ordered [OF assms(1)] by simp_all
  then show ?thesis using assms(2) by (auto simp: enumerateRange_eq split: if_splits)
qed

lemma expandSingle_validatePart:
  assumes "expandSingle t r = Some (Inl e)"
  shows "validatePart t r = Some e \<or> (\<exists>n. e = ErrTargetRangeTooLarge n)"
  using assms enumerateRange_errors
  by (fastforce simp: validatePart_def expandSingle_def split: option.splits sum.splits if_splits prod.splits)

lemma expandParts_validateParts:
  "expandParts ps r acc = Some (Inr ips) \<Longrightarrow> validateParts ps r = None"
proof (induction ps r acc rule: expandParts.induct)
  case (2 p ps r acc)
  then show ?case
    using validatePart_expandSingle [of "trim_space p" r]
    by (cases "validatePart (trim_space p) r") (auto simp: Let_def split: if_splits option.splits sum.splits)
qed simp

lemma expandParts_error:
  "expandParts ps r acc = Some (Inl e) \<Longrightarrow> validateParts ps r = None \<Longrightarrow> \<exists>n. e = ErrTargetRangeTooLarge n"
proof (induction ps r acc rule: expandParts.induct)
  case (2 p ps r acc)
  then show ?case
    using expandSingle_validatePart [of "trim_space p" r e]
    by (auto simp: Let_def split: if_splits option.splits sum.splits)
qed simp

lemma partitionLoop_filter:
  "partitionLoop n ss (ins, outs) =
    (ins @ filter (\<lambda>s. contains_opt n (ParseIP s)) ss, outs @ filter (\<lambda>s. \<not> contains_opt n (ParseIP s)) ss)"
  by (induction ss arbitrary: ins outs) simp_all

lemma trim_space_no_space: "(\<And>c. c \<in> set s \<Longrightarrow> \<not> is_space c) \<Longrightarrow> trim_space s = s"
  by (cases "s = []") (simp add: trim_space_def, intro trim_space_ident, simp_all)

lemma digit_no_space: "is_digit c \<Longrightarrow> \<not> is_space c"
  by (auto simp: is_digit_def is_space_def)

lemma trim_v4_string: "length b = 4 \<Longrightarrow> trim_space (ip_string b) = ip_string b"
proof -
  assume "length b = 4"
  then obtain w x y z where b: "b = [w, x, y, z]" by (rule length4E)
  have "\<not> is_space (CHR ''.'')" by code_simp
  then show ?thesis
    by (intro trim_space_no_space) (auto simp: b ip_string_def v4_string4 dest: string_of_nat_digits digit_no_space)
qed

subsection \<open>What the package promises\<close>

text \<open>
  C4. A range whose endpoints are in ascending order expands to the printed form of every number of the
  interval, in ascending order and without repetition, if it holds at most 65536 addresses; a longer
  one is refused with its exact size.  The loop returns in both cases.
\<close>

theorem enumerateRange_exact:
  assumes "length s = 4" "length e = 4" "be_nat s \<le> be_nat e"
  shows "enumerateRange s e =
    (if 65536 < be_nat e - be_nat s + 1
     then Some (Inl (ErrTargetRangeTooLarge (int (be_nat e - be_nat s) + 1)))
     else Some (Inr (map (\<lambda>v. ip_string (v4_of v)) [be_nat s..<be_nat e + 1])))"
  using enumerateRange_eq [OF assms] by (simp add: v4_strings_def)

theorem enumerateRange_exact_witness:
  "enumerateRange [10, 0, 0, 254] [10, 0, 1, 1] =
     Some (Inr [''10.0.0.254'', ''10.0.0.255'', ''10.0.1.0'', ''10.0.1.1''])
   \<and> enumerateRange [10, 0, 0, 0] [10, 1, 0, 0] = Some (Inl (ErrTargetRangeTooLarge 65537))"
proof
  have v: "map (\<lambda>v. ip_string (v4_of v)) [be_nat [10, 0, 0, 254]..<be_nat [10, 0, 1, 1] + 1] =
      [''10.0.0.254'', ''10.0.0.255'', ''10.0.1.0'', ''10.0.1.1'']"
    by (simp add: upt_rec_numeral v4_of_def, code_simp)
  show "enumerateRange [10, 0, 0, 254] [10, 0, 1, 1] =
     Some (Inr [''10.0.0.254'', ''10.0.0.255'', ''10.0.1.0'', ''10.0.1.1''])"
    using enumerateRange_exact [of "[10, 0, 0, 254]" "[10, 0, 1, 1]"] unfolding v by simp
  show "enumerateRange [10, 0, 0, 0] [10, 1, 0, 0] = Some (Inl (ErrTargetRangeTooLarge 65537))"
    using enumerateRange_exact [of "[10, 0, 0, 0]" "[10, 1, 0, 0]"] by simp
qed

text \<open>
  C5. An IPv4 block with a prefix of 1 to 30 bits expands to all its addresses in ascending order but
  the first (network) and the last (broadcast); with 31 or 32 bits nothing is dropped.  The prefix
  of 0 bits is excluded: its walk does not end, which is a property of its own.
\<close>

theorem enumerateCIDR_hosts:
  assumes "length a = 4" "1 \<le> n" "n \<le> 32"
  shows "enumerateCIDR (v4net a n) =
    Some (map (\<lambda>v. ip_string (v4_of v))
      (let lo = be_nat a div 2 ^ (32 - n) * 2 ^ (32 - n); hi = lo + 2 ^ (32 - n)
       in if n \<le> 30 then [lo + 1..<hi - 1] else [lo..<hi]))"
  using enumerateCIDR_v4 [OF assms] by (simp add: v4_strings_def block_lo_def Let_def)

theorem enumerateCIDR_hosts_witness:
  "enumerateCIDR (v4net [192, 168, 1, 6] 30) = Some [''192.168.1.5'', ''192.168.1.6'']
   \<and> enumerateCIDR (v4net [192, 168, 1, 6] 31) = Some [''192.168.1.6'', ''192.168.1.7'']"
proof
  have v: "map (\<lambda>v. ip_string (v4_of v))
      (let lo = be_nat [192, 168, 1, 6] div 2 ^ (32 - 30) * 2 ^ (32 - 30); hi = lo + 2 ^ (32 - 30)
       in if (30 :: nat) \<le> 30 then [lo + 1..<hi - 1] else [lo..<hi]) = [''192.168.1.5'', ''192.168.1.6'']"
    "map (\<lambda>v. ip_string (v4_of v))
      (let lo = be_nat [192, 168, 1, 6] div 2 ^ (32 - 31) * 2 ^ (32 - 31); hi = lo + 2 ^ (32 - 31)
       in if (31 :: nat) \<le> 30 then [lo + 1..<hi - 1] else [lo..<hi]) = [''192.168.1.6'', ''192.168.1.7'']"
    by code_simp+
  show "enumerateCIDR (v4net [192, 168, 1, 6] 30) = Some [''192.168.1.5'', ''192.168.1.6'']"
    using enumerateCIDR_hosts [of "[192, 168, 1, 6]" 30] unfolding v by simp
  show "enumerateCIDR (v4net [192, 168, 1, 6] 31) = Some [''192.168.1.6'', ''192.168.1.7'']"
    using enumerateCIDR_hosts [of "[192, 168, 1, 6]" 31] unfolding v by simp
qed

text \<open>
  C1. Where reserved space is not allowed, no address that a scan would visit is reserved, provided
  every block of the specification is an IPv4 block of at least 15 bits: checking the two endpoints
  is enough there, because of the cap on ranges and the alignment of blocks.
\<close>

theorem ExpandTargets_unreserved:
  assumes "ExpandTargets t = Some (Inr ips)"
    "list_all (\<lambda>p. long_prefix (trim_space p)) (split_on (CHR '','') (trim_space t))"
  shows "\<exists>as. ips = map ip_string as \<and> list_all (\<lambda>a. reservedClass (Some a) = '''') as"
proof -
  have e: "list_all (\<lambda>a. reservedClass (Some a) = '''') []" "[] = map ip_string []" by simp_all
  show ?thesis
    by (rule expandParts_unreserved
          [OF ExpandTargets_parts [OF assms(1) [unfolded ExpandTargets_def]] assms(2)]) (use e in blast)
qed

theorem ExpandTargets_unreserved_witness:
  "\<exists>as. [''10.1.2.3'', ''192.168.0.9''] = map ip_string as \<and> list_all (\<lambda>a. reservedClass (Some a) = '''') as"
proof (rule ExpandTargets_unreserved)
  show "ExpandTargets ''10.1.2.3, 192.168.0.9'' = Some (Inr [''10.1.2.3'', ''192.168.0.9''])"
    by code_simp
  show "list_all (\<lambda>p. long_prefix (trim_space p)) (split_on (CHR '','') (trim_space ''10.1.2.3, 192.168.0.9''))"
    by code_simp
qed

text \<open>
  C7. The endpoint check is not enough for a shorter prefix: \<^verbatim>\<open>169.252.0.0/14\<close> passes validation, and
  its expansion visits link-local addresses.
\<close>

theorem reserved_inside_accepted_block:
  "ValidateTargets ''169.252.0.0/14'' = None
   \<and> (\<exists>ips. ExpandTargets ''169.252.0.0/14'' = Some (Inr ips) \<and> ''169.254.0.1'' \<in> set ips)
   \<and> reservedClass (ParseIP ''169.254.0.1'') = ''link-local unicast''"
proof (intro conjI)
  have p: "ParseCIDR ''169.252.0.0/14'' = Some (as16 [169, 252, 0, 0], v4net [169, 252, 0, 0] 14)" by code_simp
  have c: "checkReserved ''169.252.0.0/14'' (Some (net_ip (v4net [169, 252, 0, 0] 14)))
      (lastAddress (v4net [169, 252, 0, 0] 14)) = None" by code_simp
  have t: "trim_space ''169.252.0.0/14'' = ''169.252.0.0/14''" by code_simp
  show "ValidateTargets ''169.252.0.0/14'' = None" by code_simp
  show "reservedClass (ParseIP ''169.254.0.1'') = ''link-local unicast''" by code_simp
  let ?ips = "v4_strings (block_lo [169, 252, 0, 0] 14 + 1) (block_lo [169, 252, 0, 0] 14 + 2 ^ 18 - 1)"
  have "enumerateCIDR (v4net [169, 252, 0, 0] 14) = Some ?ips"
    using enumerateCIDR_v4 [of "[169, 252, 0, 0]" 14] by simp
  then have "ExpandTargets ''169.252.0.0/14'' = Some (Inr ?ips)"
    by (simp add: ExpandTargets_def ExpandTargetsFor_def t expandSingle_def p c)
  moreover have "''169.254.0.1'' \<in> set ?ips"
  proof -
    have "''169.254.0.1'' = ip_string (v4_of 2851995649)"
      by (simp add: v4_of_def, code_simp)
    moreover have "block_lo [169, 252, 0, 0] 14 = 2851864576" by (simp add: block_lo_def)
    ultimately show ?thesis unfolding v4_strings_def set_map set_upt
      by (intro image_eqI [where x = 2851995649]) simp_all
  qed
  ultimately show "\<exists>ips. ExpandTargets ''169.252.0.0/14'' = Some (Inr ips) \<and> ''169.254.0.1'' \<in> set ips"
    by blast
qed

text \<open>
  C8. With reserved space allowed, the block of all IPv4 addresses passes validation, but its
  expansion never returns: the address wraps around inside the block.
\<close>

theorem ExpandTargets_slash0_diverges:
  "ValidateTargetsFor ''0.0.0.0/0'' True = None \<and> ExpandTargetsFor ''0.0.0.0/0'' True = None"
proof
  have p: "ParseCIDR ''0.0.0.0/0'' = Some (as16 [0, 0, 0, 0], v4net [0, 0, 0, 0] 0)" by code_simp
  have t: "trim_space ''0.0.0.0/0'' = ''0.0.0.0/0''" by code_simp
  show "ValidateTargetsFor ''0.0.0.0/0'' True = None" by code_simp
  show "ExpandTargetsFor ''0.0.0.0/0'' True = None"
    using enumerateCIDR_slash0 [of "[0, 0, 0, 0]"] by (simp add: ExpandTargetsFor_def t expandSingle_def p)
qed

text \<open>
  Partitioning splits the expansion along the boundary of the network and nothing else: both
  halves are the addresses of the expansion in their order, each in exactly one half; an error or a
  divergence of the expansion is passed on.
\<close>

theorem PartitionTargets_exact:
  "PartitionTargets t (Some n) =
    map_option (map_sum id (\<lambda>ips. (filter (\<lambda>s. contains_opt n (ParseIP s)) ips,
                                     filter (\<lambda>s. \<not> contains_opt n (ParseIP s)) ips)))
      (ExpandTargets t)"
  by (simp add: PartitionTargets_def partitionLoop_filter split: option.split sum.split)

text \<open>
  Membership in an IPv4 network is membership in the interval of numbers its prefix denotes,
  also when the address is read from its printed form with white space around it.
\<close>

theorem ContainsIP_interval:
  assumes "length a = 4" "n \<le> 32" "length b = 4"
  shows "ContainsIP (Some (v4net a n)) (ip_string b) \<longleftrightarrow>
    be_nat b div 2 ^ (32 - n) = be_nat a div 2 ^ (32 - n)"
proof -
  have "ParseIP (ip_string b) = Some (as16 b)"
    using ParseIP_ip_string [of b b] assms(3) by (simp add: as16_def)
  then show ?thesis
    using v4net_contains [OF assms(1,2), of "as16 b" b] assms(3)
    by (simp add: ContainsIP_def trim_v4_string as16_def)
qed

theorem ContainsIP_interval_witness:
  "ContainsIP (Some (v4net [10, 0, 0, 0] 8)) (ip_string [10, 9, 8, 7])
   \<and> \<not> ContainsIP (Some (v4net [10, 0, 0, 0] 8)) (ip_string [11, 0, 0, 0])"
  using ContainsIP_interval [of "[10, 0, 0, 0]" 8 "[10, 9, 8, 7]"]
    ContainsIP_interval [of "[10, 0, 0, 0]" 8 "[11, 0, 0, 0]"] by simp

text \<open>
  C6. Validation and expansion agree.  A specification that expands has passed validation; one that
  passes validation can only fail to expand because a range is too long or because no part of the
  list is non-empty.
\<close>

theorem ValidateTargets_agrees:
  "(ExpandTargetsFor t r = Some (Inr ips) \<longrightarrow> ValidateTargetsFor t r = None) \<and>
   (ValidateTargetsFor t r = None \<and> ExpandTargetsFor t r = Some (Inl e) \<longrightarrow>
      e = ErrNoValidTargets \<or> (\<exists>n. e = ErrTargetRangeTooLarge n))"
proof (intro conjI impI)
  assume a: "ExpandTargetsFor t r = Some (Inr ips)"
  then have "trim_space t \<noteq> []" by (auto simp: ExpandTargetsFor_def)
  then show "ValidateTargetsFor t r = None"
    using expandParts_validateParts [OF ExpandTargets_parts [OF a]] by (simp add: ValidateTargetsFor_def)
next
  assume a: "ValidateTargetsFor t r = None \<and> ExpandTargetsFor t r = Some (Inl e)"
  then have v: "trim_space t \<noteq> []" "validateParts (split_on (CHR '','') (trim_space t)) r = None"
    by (auto simp: ValidateTargetsFor_def Let_def split: if_splits)
  show "e = ErrNoValidTargets \<or> (\<exists>n. e = ErrTargetRangeTooLarge n)"
  proof (cases "CHR '','' \<in> set (trim_space t)")
    case True
    then show ?thesis
      using a v expandParts_error [of "split_on (CHR '','') (trim_space t)" r "[]" e]
      by (auto simp: ExpandTargetsFor_def split: option.splits sum.splits if_splits)
  next
    case False
    then have "validatePart (trim_space t) r = None" "expandSingle (trim_space t) r = Some (Inl e)"
      using a v by (auto simp: ExpandTargetsFor_def split_on_no_sep split: option.splits if_splits)
    then show ?thesis using expandSingle_validatePart by fastforce
  qed
qed

theorem ValidateTargets_agrees_witness:
  "ValidateTargetsFor ''10.1.2.3, ,192.168.0.9'' False = None
   \<and> ExpandTargetsFor ''10.1.2.3, ,192.168.0.9'' False = Some (Inr [''10.1.2.3'', ''192.168.0.9''])"
proof
  show e: "ExpandTargetsFor ''10.1.2.3, ,192.168.0.9'' False =
      Some (Inr [''10.1.2.3'', ''192.168.0.9''])" by code_simp
  show "ValidateTargetsFor ''10.1.2.3, ,192.168.0.9'' False = None"
    using ValidateTargets_agrees [of "''10.1.2.3, ,192.168.0.9''" False] e by blast
qed

subsection \<open>Expansion returns\<close>

text \<open>A walk that only meets addresses whose first byte is not 255 does not wrap around.\<close>

lemma be_nat_first: "ip \<noteq> [] \<Longrightarrow> ip ! 0 \<noteq> (0xFF :: byte) \<Longrightarrow> be_nat ip + 1 < 256 ^ length ip"
proof (cases ip)
  case (Cons b bs)
  assume "ip ! 0 \<noteq> 0xFF"
  then have "b \<noteq> 0xFF" using Cons by simp
  then have "unat b \<le> 254" using unat_byte_less [of b] by unat_arith
  then have "unat b * 256 ^ length bs \<le> 254 * 256 ^ length bs" by simp
  moreover have "be_nat bs < 256 ^ length bs" by (rule be_nat_less)
  moreover have "(1 :: nat) \<le> 256 ^ length bs" by simp
  ultimately have "unat b * 256 ^ length bs + be_nat bs + 1 < 256 * 256 ^ length bs" by linarith
  then show ?thesis using Cons by simp
qed simp

lemma enumerateCIDRLoop_returns:
  assumes "\<And>x. length x = l \<Longrightarrow> net_contains n x \<Longrightarrow> x ! 0 \<noteq> 0xFF" "0 < l"
  shows "length ip = l \<Longrightarrow> \<exists>r. enumerateCIDRLoop n ip ips = Some r"
proof (induction "256 ^ l - be_nat ip" arbitrary: ip ips rule: less_induct)
  case less
  show ?case
  proof (cases "net_contains n ip")
    case True
    then have "ip ! 0 \<noteq> 0xFF" using assms(1) less.prems by blast
    then have "be_nat ip + 1 < 256 ^ l" using be_nat_first [of ip] less.prems assms(2) by auto
    then have "256 ^ l - be_nat (incIP ip) < 256 ^ l - be_nat ip" using be_nat_incIP [of ip] less.prems by simp
    then show ?thesis using less.hyps [of "incIP ip"] less.prems True by (subst enumerateCIDRLoop.simps) simp
  qed (subst enumerateCIDRLoop.simps, simp)
qed

lemma byte_full:
  assumes "(a :: byte) AND m = b AND m" "b = 0xFF"
  shows "a OR NOT m = 0xFF"
proof -
  have ff: "(0xFF :: byte) = - 1" by simp
  have "a AND m = m" using assms unfolding ff by simp
  then have "NOT m OR (a AND m) = - 1" by simp
  then show ?thesis unfolding ff by (simp add: bit.disj_conj_distrib or.commute)
qed

lemma mask_bytes_nth: "length a = length m \<Longrightarrow> 0 < length m \<Longrightarrow> mask_bytes a m ! 0 = a ! 0 AND m ! 0"
  by (simp add: mask_bytes_def)

lemma parseIPv4Fields_length: "length fs \<le> 3 \<Longrightarrow> parseIPv4Fields sep v dig fs s = Some r \<Longrightarrow> length r = 4"
  by (induction sep v dig fs s rule: parseIPv4Fields.induct) (auto simp: Let_def split: if_splits)

lemma parseIPv6Loop_length: "length bs + 2 * k \<le> 16 \<Longrightarrow> parseIPv6Loop k bs ell s = Some (r, e, rest) \<Longrightarrow> length r \<le> 16"
proof (induction k bs ell s rule: parseIPv6Loop.induct)
  case (2 k bs ell s)
  then show ?case
    by (auto simp: Let_def split: option.splits prod.splits if_splits list.splits dest: parseIPv4Fields_length [of "[]", simplified])
qed simp

lemma parseIPv6_length: "parseIPv6 s = Some a \<Longrightarrow> length a = 16"
proof -
  assume a: "parseIPv6 s = Some a"
  have "length bs \<le> 16" if "parseIPv6Loop 8 [] ell body = Some (bs, e, rest)" for ell body bs e rest
    using parseIPv6Loop_length [OF _ that] by simp
  then show ?thesis using a unfolding parseIPv6_def Let_def
    by (auto split: if_splits option.splits prod.splits) (meson le_antisym not_le)+
qed

lemma parseAddr_length: "parseAddr s = Some a \<Longrightarrow> length a = 4 \<or> length a = 16"
  using parseIPv6_length [of s a] parseIPv4Fields_length [of "[]"]
  by (auto simp: parseAddr_def parseIPv4_def split: list.splits if_splits)

lemma ParseCIDR_net:
  assumes "ParseCIDR s = Some (i, n)"
  obtains l ones where "l = 4 \<or> l = 16" "ones \<le> 8 * l" "length (net_ip n) = l" "net_mask n = cidr_mask ones l"
    "ip_mask (net_ip n) (net_mask n) = Some (net_ip n)"
proof -
  obtain a k where a: "k \<le> 8 * length a" "net_mask n = cidr_mask k (length a)" "length a = 4 \<or> length a = 16"
      "ip_mask (as16 a) (cidr_mask k (length a)) = Some (net_ip n)"
    using assms parseAddr_length by (auto simp: ParseCIDR_def Let_def not_less split: option.splits prod.splits if_splits)
  have nip: "net_ip n = mask_bytes a (cidr_mask k (length a))"
    using a(3,4) ip_mask_v4 [of a k] by (auto simp: as16_def ip_mask_def)
  have "ip_mask (mask_bytes a m) m = Some (mask_bytes a m)" if "length m = length a" for m
    using that a(3) by (auto simp: ip_mask_def Let_def mask_mask)
  then show ?thesis using that [of "length a" k] a nip by simp
qed

lemma To4_first: "length x = 16 \<Longrightarrow> To4 x \<noteq> None \<Longrightarrow> x ! 0 = 0"
proof -
  assume "length x = 16" "To4 x \<noteq> None"
  then have "take 12 x = v4InV6Prefix" by (auto simp: To4_def split: if_splits)
  then have "take 12 x ! 0 = v4InV6Prefix ! 0" by simp
  then show ?thesis by (simp add: v4InV6Prefix_def nth_append)
qed

text \<open>No address of an accepted block starts with the byte 255, so the walk over it ends.\<close>

lemma enumerateCIDR_returns:
  assumes "ParseCIDR s = Some (i, n)" "checkReserved s (Some (net_ip n)) (lastAddress n) = None"
  shows "\<exists>r. enumerateCIDR n = Some r"
proof -
  obtain l ones where n: "l = 4 \<or> l = 16" "ones \<le> 8 * l" "length (net_ip n) = l" "net_mask n = cidr_mask ones l"
    "ip_mask (net_ip n) (net_mask n) = Some (net_ip n)" using ParseCIDR_net [OF assms(1)] by blast
  have ms: "mask_size (net_mask n) = (ones, 8 * l)" using n(2,4) by (simp add: mask_size_cidr)
  show ?thesis
  proof (cases "ones = 8 * l")
    case True
    then show ?thesis using ms by (simp add: enumerateCIDR_def)
  next
    case False
    let ?last = "map2 (\<lambda>b m. b OR NOT m) (net_ip n) (net_mask n)"
    have "lastAddress n = Some ?last" using ms False n(2) by (simp add: lastAddress_def)
    then have cls: "reservedClass (Some ?last) = ''''" using assms(2) by (simp add: checkReserved_def split: if_splits)
    have len: "length ?last = l" "length (net_mask n) = l" using n by simp_all
    have first: "?last ! 0 = net_ip n ! 0 OR NOT (net_mask n ! 0)" using n(1,3) len(2) by auto
    have "x ! 0 \<noteq> 0xFF" if x: "length x = l" "net_contains n x" for x
    proof
      assume ff: "x ! 0 = 0xFF"
      show False
      proof (cases "To4 (net_ip n)")
        case None
        then have l: "l = 16" using n(1,3) by auto
        have "networkNumberAndMask n = Some (net_ip n, net_mask n)" using None l n(3) len by (simp add: networkNumberAndMask_def Let_def)
        then have "To4 x = None" "mask_bytes (net_ip n) (net_mask n) = mask_bytes x (net_mask n)"
          using x n(3) l by (auto simp: net_contains_def Let_def split: option.splits dest: To4_length)
        then have "net_ip n ! 0 AND net_mask n ! 0 = x ! 0 AND net_mask n ! 0"
          using mask_bytes_nth [of "net_ip n" "net_mask n"] mask_bytes_nth [of x "net_mask n"] n(3) x(1) l len by simp
        then have "?last ! 0 = 0xFF" using byte_full ff first by simp
        moreover from this have "To4 ?last = None" using To4_first [of ?last] len(1) l by fastforce
        ultimately show False using cls len(1) l by (simp add: reservedClass_def IsMulticast_def split: if_splits)
      next
        case (Some v4)
        show False
        proof (cases "l = 4")
          case True
          then have nip: "v4 = net_ip n" using Some n(3) by simp
          have "networkNumberAndMask n = Some (net_ip n, net_mask n)" using True n(3) len by (simp add: networkNumberAndMask_def Let_def)
          then have "mask_bytes (net_ip n) (net_mask n) = mask_bytes x (net_mask n)" using x True by (simp add: net_contains_def)
          then have "net_ip n ! 0 AND net_mask n ! 0 = x ! 0 AND net_mask n ! 0"
            using mask_bytes_nth [of "net_ip n" "net_mask n"] mask_bytes_nth [of x "net_mask n"] n(3) x(1) True len by simp
          then have "?last ! 0 = 0xFF" using byte_full ff first by simp
          then show False using cls len(1) True by (simp add: reservedClass_def word_le_nat_alt split: if_splits)
        next
          case False
          then have l: "l = 16" using n(1) by simp
          obtain nn m where nm: "networkNumberAndMask n = Some (nn, m)" "length nn = 4"
            using Some l n(3) len To4_length [OF Some] by (simp add: networkNumberAndMask_def Let_def)
          then have "To4 x \<noteq> None" using x l by (auto simp: net_contains_def Let_def split: option.splits)
          then have "x ! 0 = 0" using To4_first x(1) l by blast
          then show False using ff by simp
        qed
      qed
    qed
    then have "\<exists>r. enumerateCIDRLoop n (net_ip n) [] = Some r" by (rule enumerateCIDRLoop_returns) (use n(1,3) in auto)
    then obtain r where "enumerateCIDRLoop n (net_ip n) [] = Some r" ..
    then show ?thesis using ms n(5) by (auto simp: enumerateCIDR_def Let_def split: prod.splits)
  qed
qed

lemma expandSingle_returns: "\<exists>r. expandSingle t False = Some r"
proof (cases "ParseCIDR t")
  case (Some p)
  then obtain i n where p: "ParseCIDR t = Some (i, n)" by (cases p) auto
  show ?thesis using enumerateCIDR_returns [OF p] by (auto simp: expandSingle_def p split: option.splits)
next
  case None
  have "\<exists>r. enumerateRange s e = Some r" if "rangeBounds t = Inr (s, e)" for s e
    using enumerateRange_eq rangeBounds_ordered [OF that] by blast
  then show ?thesis using None by (fastforce simp: expandSingle_def split: option.splits sum.splits if_splits)
qed

lemma expandParts_returns: "\<exists>r. expandParts ps False ips = Some r"
proof (induction ps arbitrary: ips)
  case (Cons p ps)
  obtain r where "expandSingle (trim_space p) False = Some r" using expandSingle_returns by blast
  then show ?case using Cons.IH by (cases r) (auto simp: Let_def)
qed simp

lemma expansion_returns: "\<exists>r. ExpandTargets t = Some r"
proof -
  obtain r where r: "expandParts (split_on (CHR '','') (trim_space t)) False [] = Some r" using expandParts_returns by blast
  then show ?thesis using expandSingle_returns [of "trim_space t"]
    by (cases r) (auto simp: ExpandTargets_def ExpandTargetsFor_def Let_def)
qed

text \<open>
  C29.  Expanding a target specification returns for every text, blocks of IPv6 addresses included, as
  long as reserved targets are refused, and so does partitioning it along a network: an accepted block
  never ends at the last address of its family, so that its walk leaves it instead of wrapping around.
\<close>

theorem ExpandTargets_returns: "ExpandTargets t \<noteq> None \<and> PartitionTargets t network \<noteq> None"
  using expansion_returns [of t] by (auto simp: PartitionTargets_def split: option.splits sum.splits)

end
