(* ===== verification/Cooldown.thy ===== *)
theory Cooldown
  imports Go_Lib
begin

section \<open>The contract of a cooldown gate\<close>

text \<open>
  Two components suppress repetitions with the same discipline: the change recorder
  (\<^verbatim>\<open>shouldEmit\<close> / \<^verbatim>\<open>markEmitted\<close>) and the notification rule engine (\<^verbatim>\<open>cooldownAllows\<close> /
  \<^verbatim>\<open>markFired\<close>).  Each keeps the instant of the last action per bucket, asks before it acts, acts,
  and records the instant of the action afterwards, under a second acquisition of its lock.

  This theory states that discipline once.  An attempt carries what was attempted, the clock reading
  of the check, the clock reading of the record, and whether the action in between succeeded: an
  action that fails is not recorded.
\<close>

record 'e attempt =
  att_ev :: 'e
  att_check :: gotime
  att_commit :: gotime
  att_ok :: bool

text \<open>One attempt, and a sequence of attempts; the result lists the attempts that acted.\<close>

definition gate_step ::
    "('s \<Rightarrow> 'e \<Rightarrow> gotime \<Rightarrow> bool) \<Rightarrow> ('s \<Rightarrow> 'e \<Rightarrow> gotime \<Rightarrow> 's) \<Rightarrow> 'e attempt \<Rightarrow> 's \<Rightarrow> 's \<times> 'e attempt list" where
  "gate_step allows mark a s =
     (if allows s (att_ev a) (att_check a) \<and> att_ok a then (mark s (att_ev a) (att_commit a), [a])
      else (s, []))"

fun gate_run ::
    "('s \<Rightarrow> 'e \<Rightarrow> gotime \<Rightarrow> bool) \<Rightarrow> ('s \<Rightarrow> 'e \<Rightarrow> gotime \<Rightarrow> 's) \<Rightarrow> 'e attempt list \<Rightarrow> 's \<Rightarrow> 's \<times> 'e attempt list" where
  "gate_run allows mark [] s = (s, [])"
| "gate_run allows mark (a # as) s =
     (let (s1, xs) = gate_step allows mark a s; (s2, ys) = gate_run allows mark as s1 in (s2, xs @ ys))"

lemma gate_run_Cons [simp]:
  "fst (gate_run allows mark (a # as) s) = fst (gate_run allows mark as (fst (gate_step allows mark a s)))"
  "snd (gate_run allows mark (a # as) s) =
    snd (gate_step allows mark a s) @ snd (gate_run allows mark as (fst (gate_step allows mark a s)))"
  by (simp_all add: split_beta Let_def)

declare gate_run.simps(2) [simp del]

text \<open>The clock does not go back, neither within an attempt nor from one attempt to the next.\<close>

fun clock_ok :: "gotime \<Rightarrow> 'e attempt list \<Rightarrow> bool" where
  "clock_ok t [] = True"
| "clock_ok t (a # as) = (t \<le> att_check a \<and> att_check a \<le> att_commit a \<and> clock_ok (att_commit a) as)"

lemma clock_ok_mono: "clock_ok t as \<Longrightarrow> t' \<le> t \<Longrightarrow> clock_ok t' as"
  by (cases as) auto

lemma clock_ok_later: "clock_ok t as \<Longrightarrow> a \<in> set as \<Longrightarrow> t \<le> att_check a \<and> t \<le> att_commit a"
  by (induction t as rule: clock_ok.induct) fastforce+

lemma clock_ok_order: "clock_ok t as \<Longrightarrow> a \<in> set as \<Longrightarrow> att_check a \<le> att_commit a"
  by (induction t as rule: clock_ok.induct) auto

lemma gate_run_sub: "set (snd (gate_run allows mark as s)) \<subseteq> set as"
proof (induction as arbitrary: s)
  case (Cons a as)
  then show ?case by (auto simp: gate_step_def split: if_splits)
qed simp

lemma sorted_wrt_buckets:
  assumes "\<And>k. sorted_wrt P (filter (\<lambda>x. f x = Some k) xs)"
  shows "sorted_wrt (\<lambda>a b. f a = f b \<and> f b \<noteq> None \<longrightarrow> P a b) xs"
  using assms
proof (induction xs)
  case (Cons x xs)
  have "sorted_wrt P (filter (\<lambda>x. f x = Some k) xs)" for k
    using Cons.prems [of k] by (auto split: if_splits)
  moreover have "P x y" if "y \<in> set xs" "f x = f y" "f y \<noteq> None" for y
    using Cons.prems [of "the (f y)"] that by auto
  ultimately show ?case using Cons.IH by auto
qed simp

locale cooldown_gate =
  fixes allows :: "'s \<Rightarrow> 'e \<Rightarrow> gotime \<Rightarrow> bool"
    and mark :: "'s \<Rightarrow> 'e \<Rightarrow> gotime \<Rightarrow> 's"
    and bucket :: "'e \<Rightarrow> 'k option"
    and window :: "'s \<Rightarrow> 'e \<Rightarrow> duration"
    and last_fire :: "'s \<Rightarrow> 'k \<rightharpoonup> gotime"
  assumes allows_bucket: "0 < window s e \<Longrightarrow> bucket e = Some k \<Longrightarrow>
      allows s e t \<longleftrightarrow> (case last_fire s k of None \<Rightarrow> True | Some l \<Rightarrow> window s e \<le> t - l)"
    and allows_free: "bucket e = None \<Longrightarrow> allows s e t"
    and mark_hit: "0 < window s e \<Longrightarrow> bucket e = Some k \<Longrightarrow> last_fire (mark s e t) k = Some t"
    and mark_frame: "bucket e \<noteq> Some k \<Longrightarrow> last_fire (mark s e t) k = last_fire s k"
    and window_mark: "window (mark s e t) e' = window s e'"
begin

lemma step_window: "window (fst (gate_step allows mark a s)) e = window s e"
  by (simp add: gate_step_def window_mark)

text \<open>
  What the remembered instant is worth: every attempt of the bucket that acts later respects its own
  window since that instant.
\<close>

lemma run_after_last:
  assumes "clock_ok t as" "\<And>a. a \<in> set as \<Longrightarrow> bucket (att_ev a) = Some k \<Longrightarrow> 0 < window s (att_ev a)"
    "last_fire s k = Some l" "l \<le> t" "b \<in> set (snd (gate_run allows mark as s))" "bucket (att_ev b) = Some k"
  shows "window s (att_ev b) \<le> att_check b - l"
  using assms
proof (induction as arbitrary: s t l)
  case (Cons a as)
  let ?s = "fst (gate_step allows mark a s)"
  have win: "window ?s e = window s e" for e by (rule step_window)
  have pos: "0 < window s (att_ev a)" if "bucket (att_ev a) = Some k" using Cons.prems(2) that by simp
  show ?case
  proof (cases "b \<in> set (snd (gate_step allows mark a s))")
    case True
    then have "b = a" "allows s (att_ev b) (att_check b)"
      by (auto simp: gate_step_def split: if_splits)
    then show ?thesis using Cons.prems(3,6) allows_bucket [OF pos, of k] by auto
  next
    case False
    then have b: "b \<in> set (snd (gate_run allows mark as ?s))"
      using Cons.prems(5) by simp
    obtain l' where l': "last_fire ?s k = Some l'" "l \<le> l'" "l' \<le> att_commit a"
    proof (cases "bucket (att_ev a) = Some k \<and> ?s \<noteq> s")
      case True
      then have "last_fire ?s k = Some (att_commit a)"
        using mark_hit [OF pos, of k] by (auto simp: gate_step_def split: if_splits)
      then show ?thesis using that [of "att_commit a"] Cons.prems(1,4) by simp
    next
      case False
      then have "last_fire ?s k = Some l"
        using mark_frame [of "att_ev a" k s "att_commit a"] Cons.prems(3) by (auto simp: gate_step_def split: if_splits)
      then show ?thesis using that [of l] Cons.prems(1,4) by simp
    qed
    have "window ?s (att_ev b) \<le> att_check b - l'"
      using Cons.prems(1,2,6) l' b by (intro Cons.IH [of "att_commit a"]) (auto simp: win)
    then show ?thesis using l'(2) win by simp
  qed
qed simp

text \<open>Safety: two actions of one bucket are at least the window of the second apart.\<close>

lemma run_spaced:
  assumes "clock_ok t as" "\<And>a. a \<in> set as \<Longrightarrow> bucket (att_ev a) = Some k \<Longrightarrow> 0 < window s (att_ev a)"
  shows "sorted_wrt (\<lambda>a b. window s (att_ev b) \<le> att_check b - att_commit a)
    (filter (\<lambda>a. bucket (att_ev a) = Some k) (snd (gate_run allows mark as s)))"
  using assms
proof (induction as arbitrary: s t)
  case (Cons a as)
  let ?s = "fst (gate_step allows mark a s)"
  let ?ys = "filter (\<lambda>a. bucket (att_ev a) = Some k) (snd (gate_run allows mark as ?s))"
  have win: "window ?s e = window s e" for e by (rule step_window)
  have later: "clock_ok (att_commit a) as" using Cons.prems(1) by simp
  have "sorted_wrt (\<lambda>a b. window ?s (att_ev b) \<le> att_check b - att_commit a) ?ys"
    using Cons.prems by (intro Cons.IH [of "att_commit a"]) (simp_all add: win)
  then have rest: "sorted_wrt (\<lambda>a b. window s (att_ev b) \<le> att_check b - att_commit a) ?ys" by (simp add: win)
  show ?case
  proof (cases "snd (gate_step allows mark a s) = [a] \<and> bucket (att_ev a) = Some k")
    case True
    then have "last_fire ?s k = Some (att_commit a)"
      using Cons.prems(2) mark_hit [of s "att_ev a" k] by (auto simp: gate_step_def split: if_splits)
    then have "window s (att_ev b) \<le> att_check b - att_commit a" if "b \<in> set ?ys" for b
      using run_after_last [OF later, of k ?s "att_commit a" b] Cons.prems(2) that by (simp add: win)
    then show ?thesis using True rest by simp
  next
    case False
    then show ?thesis using rest
      by (auto simp: gate_step_def split: if_splits)
  qed
qed simp

lemma run_spaced_all:
  assumes "clock_ok t as" "\<And>a. a \<in> set as \<Longrightarrow> bucket (att_ev a) \<noteq> None \<Longrightarrow> 0 < window s (att_ev a)"
  shows "sorted_wrt (\<lambda>a b. bucket (att_ev a) = bucket (att_ev b) \<and> bucket (att_ev b) \<noteq> None \<longrightarrow>
      window s (att_ev b) \<le> att_check b - att_commit a) (snd (gate_run allows mark as s))"
  using assms by (intro sorted_wrt_buckets run_spaced [OF assms(1)]) auto

text \<open>
  Nothing else is suppressed: an attempt that would succeed but does not act is one whose bucket
  acted less than its window before (or the remembered instant of the start state is that recent).
\<close>

lemma suppressed_reason:
  assumes "att_ok b" "snd (gate_step allows mark b s) = []" "\<And>k. bucket (att_ev b) = Some k \<Longrightarrow> 0 < window s (att_ev b)"
  obtains k l where "bucket (att_ev b) = Some k" "last_fire s k = Some l" "att_check b - l < window s (att_ev b)"
proof -
  have no: "\<not> allows s (att_ev b) (att_check b)" using assms(1,2) by (auto simp: gate_step_def split: if_splits)
  then obtain k where k: "bucket (att_ev b) = Some k" using allows_free by (cases "bucket (att_ev b)") auto
  then show ?thesis using no that allows_bucket [OF assms(3) [OF k] k] by (auto split: option.splits)
qed

end

end
