(* ===== verification/Db.thy ===== *)
theory Db
  imports Complex_Main Go_Lib
begin

section \<open>Database rows\<close>

text \<open>
  The row types of \<^verbatim>\<open>internal/db/models.go\<close> that more than one component reads or writes, with the
  columns the modelled code uses.  A nullable column is an \<open>option\<close>, a table is the list of its rows
  in the order of insertion.  Whether a statement succeeds is decided by the database, not by the
  code: an operation that runs one statement takes its outcome as an argument, and an operation that
  runs several of them is a program over a state that carries the outcomes of its statements.
\<close>

subsection \<open>Programs that run statements\<close>

text \<open>
  The errors of the sources: the sentinel errors by the name of their variable, formatted errors by
  their text, an error wrapped into a text that precedes it, the three ways a statement fails (no row, a violated constraint, and a failure of the
  database itself), and a panic, which unwinds its caller like an error.
\<close>

datatype go_error =
    Sentinel string
  | Errorf string
  | Wrapped string go_error
  | ErrNoRows
  | ErrConstraint
  | ErrDatabase
  | Panic string

type_synonym ('s, 'a) prog = "'s \<Rightarrow> (go_error + 'a) \<times> 's"

definition ret :: "'a \<Rightarrow> ('s, 'a) prog" where
  "ret x s = (Inr x, s)"

definition raise :: "go_error \<Rightarrow> ('s, 'a) prog" where
  "raise e s = (Inl e, s)"

definition seq :: "('s, 'a) prog \<Rightarrow> ('a \<Rightarrow> ('s, 'b) prog) \<Rightarrow> ('s, 'b) prog" where
  "seq m f s = (case m s of (Inl e, s') \<Rightarrow> (Inl e, s') | (Inr x, s') \<Rightarrow> f x s')"

text \<open>Running a program whose error the caller looks at, and one for each element of a list.\<close>

definition outcome :: "('s, 'a) prog \<Rightarrow> ('s, go_error + 'a) prog" where
  "outcome m s = (case m s of (r, s') \<Rightarrow> (Inr r, s'))"

definition get_state :: "('s \<Rightarrow> 'a) \<Rightarrow> ('s, 'a) prog" where
  "get_state f s = (Inr (f s), s)"

definition set_state :: "('s \<Rightarrow> 's) \<Rightarrow> ('s, unit) prog" where
  "set_state f s = (Inr (), f s)"

fun for_each :: "('a \<Rightarrow> ('s, 'b) prog) \<Rightarrow> 'a list \<Rightarrow> ('s, 'b list) prog" where
  "for_each f [] = ret []"
| "for_each f (x # xs) = seq (f x) (\<lambda>y. seq (for_each f xs) (\<lambda>ys. ret (y # ys)))"

text \<open>
  A statement.  The state carries the list of the failures to come: \<^term>\<open>True\<close> at its head makes the next
  statement fail, without an effect; when the list is used up statements succeed.
\<close>

record faults = db_faults :: "bool list"

definition stmt :: "('z faults_scheme, 'a) prog \<Rightarrow> ('z faults_scheme, 'a) prog" where
  "stmt m s =
     (case db_faults s of
        [] \<Rightarrow> m s
      | f # fs \<Rightarrow> if f then (Inl ErrDatabase, s\<lparr>db_faults := fs\<rparr>) else m (s\<lparr>db_faults := fs\<rparr>))"

lemmas prog_defs = ret_def raise_def seq_def outcome_def get_state_def set_state_def

text \<open>What a program keeps, by its parts.\<close>

definition keeps :: "('s \<Rightarrow> bool) \<Rightarrow> ('s, 'a) prog \<Rightarrow> bool" where
  "keeps P m \<longleftrightarrow> (\<forall>s. P s \<longrightarrow> P (snd (m s)))"

named_theorems keeps_intros \<open>programs keep what their parts keep\<close>

lemma keepsD: "keeps P m \<Longrightarrow> P s \<Longrightarrow> P (snd (m s))"
  by (simp add: keeps_def)

lemma keeps_ret [keeps_intros]: "keeps P (ret x)"
  by (simp add: keeps_def ret_def)

lemma keeps_raise [keeps_intros]: "keeps P (raise e)"
  by (simp add: keeps_def raise_def)

lemma keeps_get_state [keeps_intros]: "keeps P (get_state f)"
  by (simp add: keeps_def get_state_def)

lemma keeps_seq [keeps_intros]: "keeps P m \<Longrightarrow> (\<And>x. keeps P (f x)) \<Longrightarrow> keeps P (seq m f)"
  unfolding keeps_def seq_def by (auto split: prod.splits sum.splits)

lemma keeps_outcome [keeps_intros]: "keeps P m \<Longrightarrow> keeps P (outcome m)"
  unfolding keeps_def outcome_def by (auto split: prod.splits)

lemma keeps_for_each [keeps_intros]: "(\<And>x. keeps P (f x)) \<Longrightarrow> keeps P (for_each f xs)"
  by (induction xs) (simp_all add: keeps_intros)

lemma keeps_if [keeps_intros]: "(b \<Longrightarrow> keeps P m) \<Longrightarrow> (\<not> b \<Longrightarrow> keeps P n) \<Longrightarrow> keeps P (if b then m else n)"
  by simp

lemma keeps_option [keeps_intros]:
  "keeps P m \<Longrightarrow> (\<And>x. keeps P (f x)) \<Longrightarrow> keeps P (case r of None \<Rightarrow> m | Some x \<Rightarrow> f x)"
  by (cases r) simp_all

lemma keeps_sum [keeps_intros]:
  "(\<And>e. keeps P (m e)) \<Longrightarrow> (\<And>x. keeps P (f x)) \<Longrightarrow> keeps P (case r of Inl e \<Rightarrow> m e | Inr x \<Rightarrow> f x)"
  by (cases r) simp_all

lemma keeps_stmt [keeps_intros]:
  "keeps P m \<Longrightarrow> (\<And>s fs. P s \<Longrightarrow> P (s\<lparr>db_faults := fs\<rparr>)) \<Longrightarrow> keeps P (stmt m)"
  unfolding keeps_def stmt_def by (auto split: list.splits)

lemma keeps_run: "keeps P m \<Longrightarrow> P s \<Longrightarrow> m s = (r, s') \<Longrightarrow> P s'"
  using keepsD [of P m s] by simp

lemma seq_okD: "seq m f s = (Inr y, s') \<Longrightarrow> \<exists>x s1. m s = (Inr x, s1) \<and> f x s1 = (Inr y, s')"
  by (auto simp: seq_def split: prod.splits sum.splits)

lemma for_each_okD:
  "for_each f (x # xs) s = (Inr ys, s') \<Longrightarrow> \<exists>y s1 ys1. f x s = (Inr y, s1) \<and> for_each f xs s1 = (Inr ys1, s')"
  by (auto simp: ret_def dest!: seq_okD)

lemma keeps_for_each_in: "(\<And>x. x \<in> set xs \<Longrightarrow> keeps P (f x)) \<Longrightarrow> keeps P (for_each f xs)"
  by (induction xs) (auto intro!: keeps_intros)

text \<open>
  What a program guarantees of its result and of the state it leaves, from what it is started in; the
  rules follow its structure.
\<close>

definition hoare :: "('s \<Rightarrow> bool) \<Rightarrow> ('s, 'a) prog \<Rightarrow> (go_error + 'a \<Rightarrow> 's \<Rightarrow> bool) \<Rightarrow> bool" where
  "hoare P m Q \<longleftrightarrow> (\<forall>s. P s \<longrightarrow> Q (fst (m s)) (snd (m s)))"

lemma hoareD: "hoare P m Q \<Longrightarrow> P s \<Longrightarrow> Q (fst (m s)) (snd (m s))"
  by (simp add: hoare_def)

lemma hoare_ret: "(\<And>s. P s \<Longrightarrow> Q (Inr x) s) \<Longrightarrow> hoare P (ret x) Q"
  by (simp add: hoare_def ret_def)

lemma hoare_raise: "(\<And>s. P s \<Longrightarrow> Q (Inl e) s) \<Longrightarrow> hoare P (raise e) Q"
  by (simp add: hoare_def raise_def)

lemma hoare_seq:
  assumes "hoare P m (\<lambda>r s. case r of Inl e \<Rightarrow> Q (Inl e) s | Inr x \<Rightarrow> R x s)" "\<And>x. hoare (R x) (f x) Q"
  shows "hoare P (seq m f) Q"
  using assms unfolding hoare_def seq_def by (fastforce split: prod.splits sum.splits)

lemma hoare_outcome:
  "hoare P m (\<lambda>r. Q (Inr r)) \<Longrightarrow> hoare P (outcome m) Q"
  unfolding hoare_def outcome_def by (auto split: prod.splits)

lemma hoare_stmt:
  assumes "\<And>s fs. P s \<Longrightarrow> P (s\<lparr>db_faults := fs\<rparr>)" "\<And>s. P s \<Longrightarrow> Q (Inl ErrDatabase) s" "hoare P m Q"
  shows "hoare P (stmt m) Q"
  using assms unfolding hoare_def stmt_def by (auto split: list.splits)

lemma hoare_weaken: "hoare P' m Q' \<Longrightarrow> (\<And>s. P s \<Longrightarrow> P' s) \<Longrightarrow> (\<And>r s. Q' r s \<Longrightarrow> Q r s) \<Longrightarrow> hoare P m Q"
  by (simp add: hoare_def)

lemma hoare_conj: "hoare P m Q \<Longrightarrow> hoare P m R \<Longrightarrow> hoare P m (\<lambda>r s. Q r s \<and> R r s)"
  by (simp add: hoare_def)

lemma hoare_keeps: "keeps P m \<Longrightarrow> hoare P m (\<lambda>r. P)"
  by (simp add: hoare_def keeps_def)

lemma keeps_hoare: "hoare P m (\<lambda>r. P) \<Longrightarrow> keeps P m"
  by (simp add: hoare_def keeps_def)

subsection \<open>Rows\<close>

record ChangeLog =
  log_ID :: int
  log_AgentID :: "string option"
  log_NetworkID :: "int option"
  log_ChangeType :: string
  log_EntityType :: string
  log_EntityID :: "int option"
  log_BeforeData :: "string option"
  log_AfterData :: "string option"
  log_DetectedAt :: gotime

record Device =
  dev_ID :: int
  dev_DeviceUuid :: string
  dev_Name :: string
  dev_Type :: string
  dev_Brand :: string
  dev_Model :: string
  dev_Status :: string
  dev_IpAddress :: string
  dev_MacAddress :: string
  dev_OpenPorts :: string
  dev_DetectedServices :: string
  dev_PrometheusUrl :: string
  dev_NodeExporterUrl :: string
  dev_ScanAttributes :: string
  dev_NetworkID :: "int option"

record NotificationRule =
  rule_ID :: int
  rule_Name :: string
  rule_EventType :: string
  rule_ScopeType :: string
  rule_ScopeNetworkID :: "int option"
  rule_ScopeDeviceUuid :: string
  rule_ChannelID :: int
  rule_CooldownMinutes :: int
  rule_Enabled :: int
  rule_LastTriggeredAt :: "gotime option"

record NotificationChannel =
  chan_ID :: int
  chan_Type :: string
  chan_Config :: string
  chan_Enabled :: int

record Network =
  net_ID :: int
  net_Name :: string
  net_Cidr :: "string option"
  net_AgentID :: "string option"

record AgentStatus =
  as_AgentID :: string
  as_Version :: string
  as_GoVersion :: string
  as_Hostname :: string
  as_UptimeSeconds :: int
  as_ClockOffsetSeconds :: rat
  as_ScansTotal :: int
  as_FingerprintRev :: string
  as_SupportedModules :: string
  as_LastReportAt :: gotime

record AgentCommand =
  ac_ID :: int
  ac_AgentID :: string
  ac_Command :: string
  ac_Payload :: string
  ac_Status :: string
  ac_CreatedAt :: gotime
  ac_AcknowledgedAt :: "gotime option"
  ac_Result :: "string option"

text \<open>
  \<^verbatim>\<open>INSERT INTO change_log ... RETURNING\<close>: the identifier is the next of the table, which only grows.
\<close>

definition next_log_id :: "ChangeLog list \<Rightarrow> int" where
  "next_log_id rows = Max (insert 0 (set (map log_ID rows))) + 1"

definition CreateChangeLog :: "ChangeLog \<Rightarrow> ChangeLog list \<Rightarrow> ChangeLog \<times> ChangeLog list" where
  "CreateChangeLog params rows =
     (let row = params\<lparr>log_ID := next_log_id rows\<rparr> in (row, rows @ [row]))"

lemma next_log_id_fresh: "next_log_id rows \<notin> set (map log_ID rows)"
proof
  assume "next_log_id rows \<in> set (map log_ID rows)"
  then have "next_log_id rows \<le> Max (insert 0 (set (map log_ID rows)))" by (intro Max_ge) auto
  then show False by (simp add: next_log_id_def)
qed

lemma CreateChangeLog_distinct:
  "distinct (map log_ID rows) \<Longrightarrow> distinct (map log_ID (snd (CreateChangeLog p rows)))"
  using next_log_id_fresh [of rows] by (simp add: CreateChangeLog_def Let_def)

end
