(* ===== verification/Go_Json.thy ===== *)
theory Go_Json
  imports Go_Lib
begin

section \<open>Package encoding/json as the sources use it\<close>

text \<open>
  Decoding a text into a tree, and printing the values the sources marshal (objects with string and
  integer members, and raw members).  Text is a byte string.  The decoder follows the scanner of
  the Go library: its white space, its number grammar, its escapes (surrogate pairs included), the
  replacement of malformed UTF-8 by U+FFFD, and its limit of 10000 nested values.  A number keeps its
  literal, because that is what the sources store.

  The functions that walk a text take fuel; each call consumes at least one byte of the text, and
  they are started with one unit more than its length.
\<close>

datatype json =
    JNull
  | JBool bool
  | JNum string
  | JStr string
  | JArr "json list"
  | JObj "(string \<times> json) list"

subsection \<open>UTF-8\<close>

definition byte_chr :: "nat \<Rightarrow> char" where
  "byte_chr n = char_of n"

definition rune_error :: string where
  "rune_error = [byte_chr 0xEF, byte_chr 0xBF, byte_chr 0xBD]"

definition encode_rune :: "nat \<Rightarrow> string" where
  "encode_rune r =
     (if r < 0x80 then [byte_chr r]
      else if r < 0x800 then [byte_chr (0xC0 + r div 64), byte_chr (0x80 + r mod 64)]
      else if 0xD800 \<le> r \<and> r < 0xE000 then rune_error
      else if r < 0x10000 then
        [byte_chr (0xE0 + r div 4096), byte_chr (0x80 + r div 64 mod 64), byte_chr (0x80 + r mod 64)]
      else if r < 0x110000 then
        [byte_chr (0xF0 + r div 262144), byte_chr (0x80 + r div 4096 mod 64),
         byte_chr (0x80 + r div 64 mod 64), byte_chr (0x80 + r mod 64)]
      else rune_error)"

definition in_range :: "nat \<Rightarrow> nat \<Rightarrow> string \<Rightarrow> nat \<Rightarrow> bool" where
  "in_range lo hi s i \<longleftrightarrow> i < length s \<and> lo \<le> ord (s ! i) \<and> ord (s ! i) \<le> hi"

text \<open>The length of the well-formed sequence a text starts with, 0 if there is none.\<close>

definition utf8_len :: "string \<Rightarrow> nat" where
  "utf8_len s =
     (if s = [] then 0
      else let b = ord (hd s); cont = in_range 0x80 0xBF s in
        if b < 0x80 then 1
        else if b < 0xC2 then 0
        else if b < 0xE0 then (if cont 1 then 2 else 0)
        else if b < 0xF0 then
          (if in_range (if b = 0xE0 then 0xA0 else 0x80) (if b = 0xED then 0x9F else 0xBF) s 1 \<and> cont 2 then 3 else 0)
        else if b < 0xF5 then
          (if in_range (if b = 0xF0 then 0x90 else 0x80) (if b = 0xF4 then 0x8F else 0xBF) s 1 \<and> cont 2 \<and> cont 3
           then 4 else 0)
        else 0)"

subsection \<open>Strings\<close>

definition hex4 :: "string \<Rightarrow> nat option" where
  "hex4 s =
     (case s of
        a # b # c # d # _ \<Rightarrow>
          (case (hex_val a, hex_val b, hex_val c, hex_val d) of
             (Some w, Some x, Some y, Some z) \<Rightarrow> Some (((w * 16 + x) * 16 + y) * 16 + z)
           | _ \<Rightarrow> None)
      | _ \<Rightarrow> None)"

definition simple_escape :: "char \<Rightarrow> char option" where
  "simple_escape c =
     (if c = CHR 0x22 \<or> c = CHR 0x5C \<or> c = CHR ''/'' then Some c
      else if c = CHR ''b'' then Some (byte_chr 8)
      else if c = CHR ''f'' then Some (byte_chr 12)
      else if c = CHR ''n'' then Some (byte_chr 10)
      else if c = CHR ''r'' then Some (byte_chr 13)
      else if c = CHR ''t'' then Some (byte_chr 9)
      else None)"

text \<open>
  The rune an escape \<^verbatim>\<open>\u\<close> denotes and what follows it: a high surrogate takes the low one after it,
  any other surrogate is the replacement rune.
\<close>

definition unicode_escape :: "string \<Rightarrow> (string \<times> string) option" where
  "unicode_escape s =
     (case hex4 s of
        None \<Rightarrow> None
      | Some r \<Rightarrow>
          (let rest = drop 4 s in
           if 0xD800 \<le> r \<and> r < 0xDC00 then
             (case rest of
                c # d # s' \<Rightarrow>
                  (if c = CHR 0x5C \<and> d = CHR ''u'' then
                     (case hex4 s' of
                        None \<Rightarrow> None
                      | Some r2 \<Rightarrow>
                          if 0xDC00 \<le> r2 \<and> r2 < 0xE000
                          then Some (encode_rune ((r - 0xD800) * 1024 + (r2 - 0xDC00) + 0x10000), drop 4 s')
                          else Some (rune_error, rest))
                   else Some (rune_error, rest))
              | _ \<Rightarrow> Some (rune_error, rest))
           else Some (encode_rune r, rest)))"

text \<open>The rest of a string literal after its opening quote: its bytes and what follows.\<close>

fun jstring :: "nat \<Rightarrow> string \<Rightarrow> (string \<times> string) option" where
  "jstring 0 s = None"
| "jstring (Suc n) cs =
     (case cs of [] \<Rightarrow> None | c # s \<Rightarrow>
      if c = CHR 0x22 then Some ([], s)
      else if c = CHR 0x5C then
        (case s of
           [] \<Rightarrow> None
         | e # s' \<Rightarrow>
             (if e = CHR ''u'' then
                (case unicode_escape s' of
                   None \<Rightarrow> None
                 | Some (bs, rest) \<Rightarrow> map_option (map_prod ((@) bs) id) (jstring n rest))
              else (case simple_escape e of
                      None \<Rightarrow> None
                    | Some b \<Rightarrow> map_option (map_prod ((#) b) id) (jstring n s'))))
      else if ord c < 0x20 then None
      else if ord c < 0x80 then map_option (map_prod ((#) c) id) (jstring n s)
      else (let k = utf8_len (c # s) in
            if k = 0 then map_option (map_prod ((@) rune_error) id) (jstring n s)
            else map_option (map_prod ((@) (take k (c # s))) id) (jstring n (drop k (c # s)))))"

subsection \<open>Numbers\<close>

definition take_digits :: "string \<Rightarrow> string \<times> string" where
  "take_digits s = (takeWhile is_digit s, dropWhile is_digit s)"

text \<open>The longest prefix that is a number literal, and the rest.\<close>

definition jint_part :: "string \<Rightarrow> (string \<times> string) option" where
  "jint_part s =
     (case s of
        [] \<Rightarrow> None
      | c # s' \<Rightarrow> (if c = CHR ''0'' then Some ([c], s')
                    else if is_digit c then Some (take_digits s) else None))"

definition jfrac_part :: "string \<Rightarrow> (string \<times> string) option" where
  "jfrac_part s =
     (case s of
        c # s' \<Rightarrow> (if c = CHR ''.'' then
                      (case take_digits s' of (ds, r) \<Rightarrow> if ds = [] then None else Some (c # ds, r))
                    else Some ([], s))
      | [] \<Rightarrow> Some ([], []))"

definition jexp_part :: "string \<Rightarrow> (string \<times> string) option" where
  "jexp_part s =
     (case s of
        c # s' \<Rightarrow>
          (if c = CHR ''e'' \<or> c = CHR ''E'' then
             (let sg = (if s' \<noteq> [] \<and> (hd s' = CHR ''+'' \<or> hd s' = CHR ''-'') then [hd s'] else []);
                  (ds, r) = take_digits (drop (length sg) s')
              in if ds = [] then None else Some (c # sg @ ds, r))
           else Some ([], s))
      | [] \<Rightarrow> Some ([], []))"

definition jnumber :: "string \<Rightarrow> (string \<times> string) option" where
  "jnumber s =
     (let (neg, s0) = (if s \<noteq> [] \<and> hd s = CHR ''-'' then (''-'', tl s) else ([], s)) in
      case jint_part s0 of None \<Rightarrow> None | Some (i, s1) \<Rightarrow>
        (case jfrac_part s1 of None \<Rightarrow> None | Some (f, s2) \<Rightarrow>
           (case jexp_part s2 of None \<Rightarrow> None | Some (e, s3) \<Rightarrow> Some (neg @ i @ f @ e, s3))))"

subsection \<open>Values\<close>

definition is_json_space :: "char \<Rightarrow> bool" where
  "is_json_space c \<longleftrightarrow> ord c = 32 \<or> ord c = 9 \<or> ord c = 10 \<or> ord c = 13"

definition skip :: "string \<Rightarrow> string" where
  "skip s = dropWhile is_json_space s"

definition maxNestingDepth :: nat where
  "maxNestingDepth = 10000"

text \<open>
  A value, the elements of an array and the members of an object.  \<open>depth\<close> counts the arrays and
  objects around the value; members and elements are read after their opening bracket or a comma.
  A member keeps, besides its value, the text of the value.
\<close>

fun jvalue :: "nat \<Rightarrow> nat \<Rightarrow> string \<Rightarrow> (json \<times> string) option"
  and jelems :: "nat \<Rightarrow> nat \<Rightarrow> string \<Rightarrow> (json list \<times> string) option"
  and jmembers :: "nat \<Rightarrow> nat \<Rightarrow> string \<Rightarrow> ((string \<times> string \<times> json) list \<times> string) option" where
  "jvalue 0 depth s = None"
| "jvalue (Suc n) depth s =
     (case skip s of
        [] \<Rightarrow> None
      | c # s' \<Rightarrow>
          (if c = CHR 0x22 then map_option (map_prod JStr id) (jstring (Suc (length s')) s')
           else if c = CHR ''{'' then
             (if maxNestingDepth \<le> depth then None
              else case skip s' of
                     [] \<Rightarrow> None
                   | d # s2 \<Rightarrow> (if d = CHR ''}'' then Some (JObj [], s2)
                                 else map_option (map_prod (\<lambda>ms. JObj (map (map_prod id snd) ms)) id)
                                        (jmembers n (Suc depth) s')))
           else if c = CHR ''['' then
             (if maxNestingDepth \<le> depth then None
              else case skip s' of
                     [] \<Rightarrow> None
                   | d # s2 \<Rightarrow> (if d = CHR '']'' then Some (JArr [], s2)
                                 else map_option (map_prod JArr id) (jelems n (Suc depth) s')))
           else if has_prefix (c # s') ''true'' then Some (JBool True, drop 4 (c # s'))
           else if has_prefix (c # s') ''false'' then Some (JBool False, drop 5 (c # s'))
           else if has_prefix (c # s') ''null'' then Some (JNull, drop 4 (c # s'))
           else map_option (map_prod JNum id) (jnumber (c # s'))))"
| "jelems 0 depth s = None"
| "jelems (Suc n) depth s =
     (case jvalue n depth s of
        None \<Rightarrow> None
      | Some (v, rest) \<Rightarrow>
          (case skip rest of
             [] \<Rightarrow> None
           | c # s' \<Rightarrow>
               (if c = CHR '']'' then Some ([v], s')
                else if c = CHR '','' then map_option (map_prod ((#) v) id) (jelems n depth s')
                else None)))"
| "jmembers 0 depth s = None"
| "jmembers (Suc n) depth s =
     (case skip s of
        [] \<Rightarrow> None
      | q # s1 \<Rightarrow>
          (if q \<noteq> CHR 0x22 then None
           else case jstring (Suc (length s1)) s1 of
                  None \<Rightarrow> None
                | Some (k, s2) \<Rightarrow>
                    (case skip s2 of
                       [] \<Rightarrow> None
                     | c # s3 \<Rightarrow>
                         (if c \<noteq> CHR '':'' then None
                          else case jvalue n depth s3 of
                                 None \<Rightarrow> None
                               | Some (v, rest) \<Rightarrow>
                                   (let raw = skip (take (length s3 - length rest) s3) in
                                    case skip rest of
                                      [] \<Rightarrow> None
                                    | d # s4 \<Rightarrow>
                                        (if d = CHR ''}'' then Some ([(k, raw, v)], s4)
                                         else if d = CHR '','' then
                                           map_option (map_prod ((#) (k, raw, v)) id) (jmembers n depth s4)
                                         else None))))))"

definition json_parse :: "string \<Rightarrow> json option" where
  "json_parse s =
     (case jvalue (Suc (length s)) 0 s of
        None \<Rightarrow> None
      | Some (v, rest) \<Rightarrow> if skip rest = [] then Some v else None)"

text \<open>The members of a text that is an object, with the texts of their values.\<close>

definition json_members :: "string \<Rightarrow> (string \<times> string \<times> json) list option" where
  "json_members s =
     (case skip s of
        [] \<Rightarrow> None
      | c # s' \<Rightarrow>
          (if c \<noteq> CHR ''{'' then None
           else case skip s' of
                  [] \<Rightarrow> None
                | d # s2 \<Rightarrow>
                    (if d = CHR ''}'' then (if skip s2 = [] then Some [] else None)
                     else case jmembers (length s) 1 s' of
                            None \<Rightarrow> None
                          | Some (ms, rest) \<Rightarrow> if skip rest = [] then Some ms else None)))"

subsection \<open>Printing\<close>

definition hex2 :: "nat \<Rightarrow> string" where
  "hex2 b = map (\<lambda>d. char_of (if d < 10 then 48 + d else 87 + d)) [b div 16, b mod 16]"

definition quote_byte :: "char \<Rightarrow> string" where
  "quote_byte c =
     (if c = CHR 0x22 \<or> c = CHR 0x5C then [CHR 0x5C, c]
      else if ord c = 8 then [CHR 0x5C, CHR ''b'']
      else if ord c = 12 then [CHR 0x5C, CHR ''f'']
      else if ord c = 10 then [CHR 0x5C, CHR ''n'']
      else if ord c = 13 then [CHR 0x5C, CHR ''r'']
      else if ord c = 9 then [CHR 0x5C, CHR ''t'']
      else if ord c < 32 \<or> c = CHR ''<'' \<or> c = CHR ''>'' \<or> c = CHR ''&'' then CHR 0x5C # ''u00'' @ hex2 (ord c)
      else [c])"

definition line_separator :: "string \<Rightarrow> string option" where
  "line_separator s =
     (if take 3 s = [byte_chr 0xE2, byte_chr 0x80, byte_chr 0xA8] then Some (CHR 0x5C # ''u2028'')
      else if take 3 s = [byte_chr 0xE2, byte_chr 0x80, byte_chr 0xA9] then Some (CHR 0x5C # ''u2029'')
      else None)"

fun quote_bytes :: "nat \<Rightarrow> string \<Rightarrow> string" where
  "quote_bytes 0 s = []"
| "quote_bytes (Suc n) cs =
     (case cs of [] \<Rightarrow> [] | c # s \<Rightarrow>
      if ord c < 0x80 then quote_byte c @ quote_bytes n s
      else let k = utf8_len (c # s) in
           if k = 0 then CHR 0x5C # ''ufffd'' @ quote_bytes n s
           else (case line_separator (c # s) of
                   Some e \<Rightarrow> e @ quote_bytes n (drop 3 (c # s))
                 | None \<Rightarrow> take k (c # s) @ quote_bytes n (drop k (c # s))))"

definition json_quote :: "string \<Rightarrow> string" where
  "json_quote s = CHR 0x22 # quote_bytes (Suc (length s)) s @ [CHR 0x22]"

text \<open>
  \<^verbatim>\<open>json.Compact\<close> with HTML escaping, as \<^verbatim>\<open>Marshal\<close> applies it to a raw member: white space outside of
  strings goes, and the three HTML characters and the two line separators are escaped everywhere.
\<close>

fun compact_bytes :: "nat \<Rightarrow> bool \<Rightarrow> string \<Rightarrow> string" where
  "compact_bytes 0 in_str s = []"
| "compact_bytes (Suc n) in_str cs =
     (case cs of [] \<Rightarrow> [] | c # s \<Rightarrow>
      if c = CHR ''<'' \<or> c = CHR ''>'' \<or> c = CHR ''&'' then
        (CHR 0x5C # ''u00'' @ hex2 (ord c)) @ compact_bytes n in_str s
      else case line_separator (c # s) of
             Some e \<Rightarrow> e @ compact_bytes n in_str (drop 3 (c # s))
           | None \<Rightarrow>
               (if in_str then
                  (if c = CHR 0x5C \<and> s \<noteq> [] then c # hd s # compact_bytes n True (tl s)
                   else c # compact_bytes n (c \<noteq> CHR 0x22) s)
                else if is_json_space c then compact_bytes n False s
                else c # compact_bytes n (c = CHR 0x22) s))"

definition json_compact :: "string \<Rightarrow> string" where
  "json_compact s = compact_bytes (Suc (length s)) False s"

text \<open>Objects are printed with their keys in ascending order of bytes; a later duplicate has replaced an earlier one.\<close>

fun str_less :: "string \<Rightarrow> string \<Rightarrow> bool" where
  "str_less s [] = False"
| "str_less [] (c # t) = True"
| "str_less (a # s) (b # t) = (ord a < ord b \<or> ord a = ord b \<and> str_less s t)"

fun insert_key :: "string \<Rightarrow> 'v \<Rightarrow> (string \<times> 'v) list \<Rightarrow> (string \<times> 'v) list" where
  "insert_key k v [] = [(k, v)]"
| "insert_key k v ((k', v') # kvs) =
     (if k = k' then (k, v) # kvs
      else if str_less k k' then (k, v) # (k', v') # kvs
      else (k', v') # insert_key k v kvs)"

definition sorted_map :: "(string \<times> 'v) list \<Rightarrow> (string \<times> 'v) list" where
  "sorted_map kvs = foldl (\<lambda>m (k, v). insert_key k v m) [] kvs"

fun join_with :: "string \<Rightarrow> string list \<Rightarrow> string" where
  "join_with sep [] = []"
| "join_with sep [x] = x"
| "join_with sep (x # y # xs) = x @ sep @ join_with sep (y # xs)"

definition print_object :: "('v \<Rightarrow> string) \<Rightarrow> (string \<times> 'v) list \<Rightarrow> string" where
  "print_object p kvs =
     ''{'' @ join_with '','' (map (\<lambda>(k, v). json_quote k @ '':'' @ p v) (sorted_map kvs)) @ ''}''"

text \<open>
  The values of the sources' \<^verbatim>\<open>map[string]any\<close> literals and of the fields of their marshalled structs.  A
  map is printed in the order of its keys, a struct in the order of its fields.
\<close>

datatype jany = AStr string | AInt int | ABool bool | AStrs "string list" | AInts "int list"

definition print_any :: "jany \<Rightarrow> string" where
  "print_any v =
     (case v of
        AStr s \<Rightarrow> json_quote s
      | AInt i \<Rightarrow> itoa i
      | ABool b \<Rightarrow> (if b then ''true'' else ''false'')
      | AStrs ss \<Rightarrow> ''['' @ join_with '','' (map json_quote ss) @ '']''
      | AInts ns \<Rightarrow> ''['' @ join_with '','' (map itoa ns) @ '']'')"

definition marshal_map :: "(string \<times> jany) list \<Rightarrow> string" where
  "marshal_map kvs = print_object print_any kvs"

definition print_member :: "string \<times> jany \<Rightarrow> string" where
  "print_member kv = json_quote (fst kv) @ '':'' @ print_any (snd kv)"

definition marshal_struct :: "(string \<times> jany) list \<Rightarrow> string" where
  "marshal_struct kvs = ''{'' @ join_with '','' (map print_member kvs) @ ''}''"

subsection \<open>Decoding into a struct of strings\<close>

text \<open>
  Field names match exactly or up to case; besides the ASCII letters the two non-ASCII runes that
  fold to \<^verbatim>\<open>S\<close> and \<^verbatim>\<open>K\<close> do.
\<close>

definition lower_char :: "char \<Rightarrow> char" where
  "lower_char c = (if 65 \<le> ord c \<and> ord c \<le> 90 then byte_chr (ord c + 32) else c)"

fun fold_name :: "string \<Rightarrow> string" where
  "fold_name [] = []"
| "fold_name (c # s) =
     (if ord c = 0xC5 \<and> s \<noteq> [] \<and> ord (hd s) = 0xBF then CHR ''s'' # fold_name (tl s)
      else if ord c = 0xE2 \<and> 2 \<le> length s \<and> ord (s ! 0) = 0x84 \<and> ord (s ! 1) = 0xAA then CHR ''k'' # fold_name (drop 2 s)
      else lower_char c # fold_name s)"

definition field_of :: "string list \<Rightarrow> string \<Rightarrow> string option" where
  "field_of names k =
     (if k \<in> set names then Some k else find (\<lambda>n. fold_name n = fold_name k) names)"

text \<open>
  \<^verbatim>\<open>json.Unmarshal\<close> into a struct whose fields are strings: the fields the text sets, and \<open>None\<close> when
  it reports an error.  A \<^verbatim>\<open>null\<close> member leaves its field alone, a member of another type is an error.
\<close>

fun struct_fields :: "string list \<Rightarrow> (string \<times> json) list \<Rightarrow> (string \<rightharpoonup> string) \<Rightarrow> (string \<rightharpoonup> string) option" where
  "struct_fields names [] m = Some m"
| "struct_fields names ((k, v) # kvs) m =
     (case field_of names k of
        None \<Rightarrow> struct_fields names kvs m
      | Some n \<Rightarrow>
          (case v of
             JStr s \<Rightarrow> struct_fields names kvs (m(n \<mapsto> s))
           | JNull \<Rightarrow> struct_fields names kvs m
           | _ \<Rightarrow> None))"

definition unmarshal_strings :: "string list \<Rightarrow> string \<Rightarrow> (string \<rightharpoonup> string) option" where
  "unmarshal_strings names s =
     (case json_parse s of
        Some (JObj kvs) \<Rightarrow> struct_fields names kvs Map.empty
      | Some JNull \<Rightarrow> Some Map.empty
      | _ \<Rightarrow> None)"

subsection \<open>Printing and reading back\<close>

definition ascii :: "string \<Rightarrow> bool" where
  "ascii s \<longleftrightarrow> list_all (\<lambda>c. ord c < 0x80) s"

lemma ascii_simps [simp]: "ascii []" "ascii (c # s) \<longleftrightarrow> ord c < 0x80 \<and> ascii s" "ascii (s @ t) \<longleftrightarrow> ascii s \<and> ascii t"
  by (simp_all add: ascii_def)

lemma quote_bytes_ascii: "ascii s \<Longrightarrow> length s < n \<Longrightarrow> quote_bytes n s = concat (map quote_byte s)"
proof (induction s arbitrary: n)
  case Nil
  then show ?case by (cases n) simp_all
next
  case (Cons c s)
  then show ?case by (cases n) simp_all
qed

lemma hex_val_digit: "d < 16 \<Longrightarrow> hex_val (char_of (if d < 10 then 48 + d else 87 + d :: nat)) = Some d"
  by (auto simp: hex_val_def)

lemma hex4_hex2: "b < 256 \<Longrightarrow> hex4 (''00'' @ hex2 b @ t) = Some b"
proof -
  assume b: "b < 256"
  have "hex_val (CHR ''0'') = Some 0" by (simp add: hex_val_def)
  then show ?thesis using b hex_val_digit [of "b div 16"] hex_val_digit [of "b mod 16"]
    by (simp add: hex4_def hex2_def del: char_of_def of_char_mod_256 cong: if_cong)
qed

lemma jstring_quote_byte:
  assumes "ord c < 0x80"
  shows "jstring (Suc n) (quote_byte c @ t) = map_option (map_prod ((#) c) id) (jstring n t)"
proof -
  consider (esc) "c = CHR 0x22 \<or> c = CHR 0x5C \<or> ord c = 8 \<or> ord c = 12 \<or> ord c = 10 \<or> ord c = 13 \<or> ord c = 9"
    | (uni) "\<not> (c = CHR 0x22 \<or> c = CHR 0x5C \<or> ord c = 8 \<or> ord c = 12 \<or> ord c = 10 \<or> ord c = 13 \<or> ord c = 9)"
        "ord c < 32 \<or> c = CHR ''<'' \<or> c = CHR ''>'' \<or> c = CHR ''&''"
    | (plain) "\<not> (c = CHR 0x22 \<or> c = CHR 0x5C \<or> ord c = 8 \<or> ord c = 12 \<or> ord c = 10 \<or> ord c = 13 \<or> ord c = 9)"
        "\<not> (ord c < 32 \<or> c = CHR ''<'' \<or> c = CHR ''>'' \<or> c = CHR ''&'')"
    by blast
  then show ?thesis
  proof cases
    case esc
    have "ord c = 8 \<longleftrightarrow> c = CHR 0x08" "ord c = 12 \<longleftrightarrow> c = CHR 0x0C" "ord c = 10 \<longleftrightarrow> c = CHR 0x0A"
      "ord c = 13 \<longleftrightarrow> c = CHR 0x0D" "ord c = 9 \<longleftrightarrow> c = CHR 0x09"
      using of_char_eq_iff [of c "CHR 0x08", where ?'a = nat] of_char_eq_iff [of c "CHR 0x0C", where ?'a = nat]
        of_char_eq_iff [of c "CHR 0x0A", where ?'a = nat] of_char_eq_iff [of c "CHR 0x0D", where ?'a = nat]
        of_char_eq_iff [of c "CHR 0x09", where ?'a = nat] by simp_all
    with esc consider "c = CHR 0x22" | "c = CHR 0x5C" | "c = CHR 0x08" | "c = CHR 0x0C" | "c = CHR 0x0A"
      | "c = CHR 0x0D" | "c = CHR 0x09" by blast
    then show ?thesis by cases (simp_all add: quote_byte_def simple_escape_def byte_chr_def char_of_def bit_0)
  next
    case uni
    then have q: "quote_byte c = CHR 0x5C # CHR ''u'' # ''00'' @ hex2 (ord c)" by (simp add: quote_byte_def)
    have "unicode_escape (''00'' @ hex2 (ord c) @ t) = Some ([c], t)"
      using assms hex4_hex2 [of "ord c" t]
      by (simp add: unicode_escape_def encode_rune_def byte_chr_def hex2_def)
    moreover have "(@) [c] = (#) c" by (simp add: fun_eq_iff)
    ultimately show ?thesis unfolding q by simp
  next
    case plain
    then have "quote_byte c = [c]" by (simp add: quote_byte_def)
    then show ?thesis using assms plain by simp
  qed
qed

lemma jstring_quoted:
  "ascii s \<Longrightarrow> length s < n \<Longrightarrow> jstring n (concat (map quote_byte s) @ CHR 0x22 # rest) = Some (s, rest)"
proof (induction s arbitrary: n)
  case Nil
  then show ?case by (cases n) simp_all
next
  case (Cons c s)
  then obtain k where n: "n = Suc k" "length s < k" by (cases n) auto
  then show ?case using Cons jstring_quote_byte [of c k] by simp
qed

declare jstring.simps(2) [simp del] quote_bytes.simps(2) [simp del]

lemma length_quoted: "length s \<le> length (concat (map quote_byte s))"
proof (induction s)
  case (Cons c s)
  have "quote_byte c \<noteq> []" by (simp add: quote_byte_def)
  then have "1 \<le> length (quote_byte c)" by (cases "quote_byte c") auto
  then show ?case using Cons by simp
qed simp

lemma json_quote_ascii: "ascii s \<Longrightarrow> json_quote s = CHR 0x22 # concat (map quote_byte s) @ [CHR 0x22]"
  by (simp add: json_quote_def quote_bytes_ascii)

lemma skip_not_space [simp]: "\<not> is_json_space c \<Longrightarrow> skip (c # s) = c # s"
  by (simp add: skip_def)

lemma json_delims [simp]:
  "\<not> is_json_space (CHR 0x22)" "\<not> is_json_space (CHR ''{'')" "\<not> is_json_space (CHR ''}'')"
  "\<not> is_json_space (CHR '':'')" "\<not> is_json_space (CHR '','')" "\<not> is_json_space (CHR ''['')"
  "\<not> is_json_space (CHR '']'')" "\<not> is_json_space (CHR ''t'')" "\<not> is_json_space (CHR ''f'')"
  by (simp_all add: is_json_space_def)

lemma skip_Nil [simp]: "skip [] = []"
  by (simp add: skip_def)

text \<open>What ends a member or an element: a comma or a closing bracket.\<close>

abbreviation delim :: "char \<Rightarrow> bool" where
  "delim c \<equiv> c = CHR '','' \<or> c = CHR ''}'' \<or> c = CHR '']''"

lemma jvalue_string:
  "ascii s \<Longrightarrow> jvalue (Suc n) d (json_quote s @ rest) = Some (JStr s, rest)"
  using jstring_quoted [of s _ rest] length_quoted [of s] by (simp add: json_quote_ascii)

lemma delim_not_number: "delim c \<Longrightarrow> \<not> is_digit c \<and> c \<noteq> CHR ''.'' \<and> c \<noteq> CHR ''e'' \<and> c \<noteq> CHR ''E''"
  by (auto simp: is_digit_def)

lemma hd_string_of_nat: "0 < k \<Longrightarrow> hd (string_of_nat k) \<noteq> CHR ''0''"
proof (induction k rule: string_of_nat.induct)
  case (1 k)
  show ?case
  proof (cases "k < 10")
    case True
    have "char_of (48 + k) \<noteq> CHR ''0''"
    proof
      assume eq: "char_of (48 + k) = CHR ''0''"
      have "digit_val (char_of (48 + k)) = 0" unfolding eq by (simp add: digit_val_def)
      then show False using 1(2) digit_val_char_of [OF True] by simp
    qed
    then show ?thesis using True by (simp add: string_of_nat.simps [of k])
  next
    case False
    then show ?thesis using 1(1) by (simp add: string_of_nat.simps [of k])
  qed
qed

lemma take_digits_nat:
  assumes "\<not> is_digit c"
  shows "take_digits (string_of_nat k @ c # rest) = (string_of_nat k, c # rest)"
  unfolding take_digits_def using assms string_of_nat_digits [of _ k]
  by (simp add: takeWhile_append2 dropWhile_append2)

lemma jint_part_nat:
  assumes "\<not> is_digit c"
  shows "jint_part (string_of_nat k @ c # rest) = Some (string_of_nat k, c # rest)"
proof (cases "k = 0")
  case True
  have "string_of_nat 0 = ''0''" by (subst string_of_nat.simps) (simp add: char_of_def bit_0)
  then show ?thesis using True by (simp add: jint_part_def)
next
  case False
  obtain d ds where d: "string_of_nat k = d # ds" by (cases "string_of_nat k") simp_all
  have "is_digit d" "d \<noteq> CHR ''0''"
    using string_of_nat_digits [of d k] hd_string_of_nat [of k] False d by simp_all
  then show ?thesis using take_digits_nat [OF assms, of k rest] d by (simp add: jint_part_def)
qed

lemma minus_not_digit: "\<not> is_digit (CHR ''-'')"
  by (simp add: is_digit_def)

lemma hd_digit: "is_digit (hd (string_of_nat k @ s))"
  using string_of_nat_digits [of "hd (string_of_nat k)" k] by simp

lemma jnumber_itoa:
  assumes "delim c"
  shows "jnumber (itoa i @ c # rest) = Some (itoa i, c # rest)"
proof -
  have nd: "\<not> is_digit c" and fr: "jfrac_part (c # rest) = Some ([], c # rest)" and ex: "jexp_part (c # rest) = Some ([], c # rest)"
    using delim_not_number [OF assms] by (simp_all add: jfrac_part_def jexp_part_def)
  have "hd (string_of_nat k @ s) \<noteq> CHR ''-''" for k s using hd_digit [of k s] minus_not_digit by metis
  then show ?thesis
    using jint_part_nat [OF nd] fr ex by (simp add: jnumber_def itoa_def Let_def)
qed

lemma jvalue_int:
  assumes "delim c"
  shows "jvalue (Suc n) d (itoa i @ c # rest) = Some (JNum (itoa i), c # rest)"
proof -
  obtain x xs where x: "itoa i = x # xs" by (cases "itoa i") (auto simp: itoa_def split: if_splits)
  have "is_digit x \<or> x = CHR ''-''"
    using x string_of_nat_digits [of x "nat i"] by (auto simp: itoa_def split: if_splits)
  then have ne: "\<not> is_json_space x" "x \<noteq> CHR 0x22" "x \<noteq> CHR ''{''" "x \<noteq> CHR ''[''" "x \<noteq> CHR ''t''" "x \<noteq> CHR ''f''" "x \<noteq> CHR ''n''"
    by (auto simp: is_json_space_def is_digit_def)
  then show ?thesis using jnumber_itoa [OF assms, of i rest] x by (simp add: has_prefix_iff)
qed

text \<open>The elements of a printed array, for any printer whose output the decoder reads back.\<close>

lemma jelems_print:
  assumes "\<And>x n c rest. x \<in> set xs \<Longrightarrow> delim c \<Longrightarrow> jvalue (Suc n) d (p x @ c # rest) = Some (j x, c # rest)"
    "xs \<noteq> []" "length xs < n"
  shows "jelems n d (join_with '','' (map p xs) @ CHR '']'' # rest) = Some (map j xs, rest)"
  using assms
proof (induction xs arbitrary: n rule: induct_list012)
  case (2 x)
  then obtain m where "n = Suc (Suc m)" by (cases n; cases "n - 1") auto
  then show ?case using 2(1) [of x "CHR '']''" m rest] by (simp del: jvalue.simps)
next
  case (3 x y xs)
  then obtain m where n: "n = Suc (Suc m)" by (cases n; cases "n - 1") auto
  have "jelems (Suc m) d (join_with '','' (map p (y # xs)) @ CHR '']'' # rest) = Some (map j (y # xs), rest)"
    using 3(3,5) n by (intro 3(2)) simp_all
  then show ?case
    using n 3(3) [of x "CHR '',''" m "join_with '','' (map p (y # xs)) @ CHR '']'' # rest"]
    by (simp del: jvalue.simps jelems.simps add: jelems.simps(2) [of "Suc m"])
qed simp

lemma jvalue_array:
  assumes "\<And>x n c rest. x \<in> set xs \<Longrightarrow> delim c \<Longrightarrow> jvalue (Suc n) (Suc d) (p x @ c # rest) = Some (j x, c # rest)"
    "\<And>x. x \<in> set xs \<Longrightarrow> p x \<noteq> [] \<and> \<not> is_json_space (hd (p x)) \<and> hd (p x) \<noteq> CHR '']''"
    "Suc (length xs) < n" "d < maxNestingDepth"
  shows "jvalue n d (''['' @ (join_with '','' (map p xs) @ '']'') @ rest) = Some (JArr (map j xs), rest)"
proof -
  obtain m where n: "n = Suc m" "length xs < m" using assms(3) by (cases n) auto
  show ?thesis
  proof (cases "xs = []")
    case True
    then show ?thesis using n assms(4) by simp
  next
    case False
    then obtain x ys where x: "xs = x # ys" by (cases xs) auto
    then obtain a as where a: "p x = a # as" "\<not> is_json_space a" "a \<noteq> CHR '']''"
      using assms(2) [of x] by (cases "p x") auto
    have "\<exists>t. join_with '','' (map p xs) = a # t" unfolding x using a by (cases ys) simp_all
    then show ?thesis using n assms(4) a jelems_print [of xs "Suc d" p j, OF assms(1) False n(2), simplified]
      by (auto simp del: jelems.simps)
  qed
qed

definition any_json :: "jany \<Rightarrow> json" where
  "any_json v =
     (case v of
        AStr s \<Rightarrow> JStr s
      | AInt i \<Rightarrow> JNum (itoa i)
      | ABool b \<Rightarrow> JBool b
      | AStrs ss \<Rightarrow> JArr (map JStr ss)
      | AInts ns \<Rightarrow> JArr (map (\<lambda>i. JNum (itoa i)) ns))"

definition any_ascii :: "jany \<Rightarrow> bool" where
  "any_ascii v = (case v of AStr s \<Rightarrow> ascii s | AStrs ss \<Rightarrow> list_all ascii ss | _ \<Rightarrow> True)"

lemma itoa_head: "itoa i \<noteq> [] \<and> \<not> is_json_space (hd (itoa i)) \<and> hd (itoa i) \<noteq> CHR '']''"
  using string_of_nat_digits [of "hd (string_of_nat (nat i))" "nat i"]
  by (auto simp: itoa_def is_json_space_def is_digit_def)

lemma json_quote_head: "json_quote s \<noteq> [] \<and> \<not> is_json_space (hd (json_quote s)) \<and> hd (json_quote s) \<noteq> CHR '']''"
  by (simp add: json_quote_def)

lemma length_join: "\<forall>x \<in> set xs. p x \<noteq> [] \<Longrightarrow> length xs \<le> length (join_with '','' (map p xs))"
proof (induction xs rule: induct_list012)
  case (2 x)
  then show ?case by (cases "p x") auto
qed simp_all

lemma jvalue_any:
  assumes "any_ascii v" "delim c" "length (print_any v) \<le> n" "d < maxNestingDepth"
  shows "jvalue (Suc n) d (print_any v @ c # rest) = Some (any_json v, c # rest)"
proof (cases v)
  case (AStrs ss)
  have "length ss \<le> length (join_with '','' (map json_quote ss))" by (intro length_join) (simp add: json_quote_def)
  then show ?thesis
    using assms AStrs jvalue_array [where p = json_quote and j = JStr and xs = ss and n = "Suc n" and d = d and rest = "c # rest"]
      json_quote_head by (auto simp: print_any_def any_json_def any_ascii_def list_all_iff jvalue_string simp del: jvalue.simps)
next
  case (AInts ns)
  have "length ns \<le> length (join_with '','' (map itoa ns))" using itoa_head by (intro length_join) simp
  then show ?thesis
    using assms AInts itoa_head
      jvalue_array [where p = itoa and j = "\<lambda>i. JNum (itoa i)" and xs = ns and n = "Suc n" and d = d and rest = "c # rest"]
    by (auto simp: print_any_def any_json_def jvalue_int simp del: jvalue.simps)
next
  case (ABool b)
  then show ?thesis by (auto simp: print_any_def any_json_def has_prefix_def)
qed (use assms in \<open>auto simp: print_any_def any_json_def any_ascii_def jvalue_string jvalue_int simp del: jvalue.simps\<close>)

lemma print_any_no_space: "print_any v \<noteq> [] \<and> \<not> is_json_space (hd (print_any v))"
  using json_quote_head itoa_head by (cases v) (simp_all add: print_any_def)

lemma jmembers_step:
  assumes "ascii k" "any_ascii v" "c = CHR '','' \<or> c = CHR ''}''" "length (print_any v) \<le> n" "d < maxNestingDepth"
  shows "jmembers (Suc (Suc n)) d (print_member (k, v) @ c # rest) =
    (if c = CHR ''}'' then Some ([(k, print_any v, any_json v)], rest)
     else map_option (map_prod ((#) (k, print_any v, any_json v)) id) (jmembers (Suc n) d rest))"
proof -
  have key: "jstring (Suc (length (concat (map quote_byte k) @ CHR 0x22 # CHR '':'' # print_any v @ c # rest)))
      (concat (map quote_byte k) @ CHR 0x22 # CHR '':'' # print_any v @ c # rest) = Some (k, CHR '':'' # print_any v @ c # rest)"
    using length_quoted [of k] by (intro jstring_quoted assms) simp
  have c: "\<not> is_json_space c" "delim c" using assms(3) by (auto simp: is_json_space_def)
  have raw: "skip (print_any v) = print_any v"
    using print_any_no_space [of v] by (cases "print_any v") simp_all
  show ?thesis
    using key c raw assms jvalue_any [OF assms(2) c(2) assms(4,5), of rest]
    by (auto simp: print_member_def json_quote_ascii simp del: jvalue.simps)
qed

lemma jmembers_print:
  assumes "kvs \<noteq> []" "list_all (\<lambda>kv. ascii (fst kv) \<and> any_ascii (snd kv)) kvs"
    "Suc (length (join_with '','' (map print_member kvs))) < n" "d < maxNestingDepth"
  shows "jmembers n d (join_with '','' (map print_member kvs) @ ''}'' @ rest) =
    Some (map (\<lambda>(k, v). (k, print_any v, any_json v)) kvs, rest)"
  using assms
proof (induction kvs arbitrary: n rule: induct_list012)
  case (2 kv)
  then obtain m where "n = Suc (Suc m)" "length (print_any (snd kv)) \<le> m"
    by (cases n; cases "n - 1") (auto simp: print_member_def)
  then show ?case using 2 jmembers_step [of "fst kv" "snd kv" "CHR ''}''" m d rest] by (simp add: split_beta del: jmembers.simps)
next
  case (3 kv kv2 kvs)
  then obtain m where n: "n = Suc (Suc m)" "length (print_any (snd kv)) \<le> m"
    by (cases n; cases "n - 1") (auto simp: print_member_def)
  have "jmembers (Suc m) d (join_with '','' (map print_member (kv2 # kvs)) @ ''}'' @ rest) =
    Some (map (\<lambda>(k, v). (k, print_any v, any_json v)) (kv2 # kvs), rest)"
    using 3(3,4,5,6) n by (intro 3(2)) (simp_all add: print_member_def)
  then show ?case
    using 3(4,6) n jmembers_step [of "fst kv" "snd kv" "CHR '',''" m d "join_with '','' (map print_member (kv2 # kvs)) @ ''}'' @ rest"]
    by (simp add: split_beta del: jmembers.simps)
qed simp

lemma join_members_head: "\<exists>s. join_with '','' (map print_member (kv # kvs)) = CHR 0x22 # s"
  by (cases kvs) (simp_all add: print_member_def json_quote_def)

lemma print_member_fun: "print_member = (\<lambda>(k, v). json_quote k @ '':'' @ print_any v)"
  by (rule ext) (simp add: print_member_def split_beta)

lemma insert_key_set: "set (insert_key k v kvs) \<subseteq> insert (k, v) (set kvs)"
  by (induction kvs) (auto split: if_splits)

lemma sorted_map_set: "set (sorted_map kvs) \<subseteq> set kvs"
proof -
  have "set (foldl (\<lambda>m (k, v). insert_key k v m) m kvs) \<subseteq> set m \<union> set kvs" for m
  proof (induction kvs arbitrary: m)
    case (Cons kv kvs)
    then show ?case using insert_key_set [of "fst kv" "snd kv" m] by (fastforce simp: split_beta)
  qed simp
  from this [of "[]"] show ?thesis by (simp add: sorted_map_def)
qed

text \<open>
  What a marshalled struct reads back as: an object with its members in their order.  A marshalled map
  is the struct of its sorted members.
\<close>

lemma parse_marshal_struct:
  assumes "list_all (\<lambda>kv. ascii (fst kv) \<and> any_ascii (snd kv)) kvs"
  shows "json_parse (marshal_struct kvs) = Some (JObj (map (map_prod id any_json) kvs))"
proof -
  have shape: "marshal_struct kvs = CHR ''{'' # join_with '','' (map print_member kvs) @ ''}''"
    by (simp add: marshal_struct_def)
  show ?thesis
  proof (cases "kvs = []")
    case True
    then show ?thesis by (simp add: json_parse_def marshal_struct_def maxNestingDepth_def)
  next
    case False
    let ?body = "join_with '','' (map print_member kvs) @ ''}''"
    have head: "\<exists>s. ?body = CHR 0x22 # s"
    proof -
      obtain kv kvs' where "kvs = kv # kvs'" using False by (cases kvs) auto
      then show ?thesis using join_members_head [of kv kvs'] by auto
    qed
    have "jmembers (Suc (length ?body)) 1 ?body = Some (map (\<lambda>(k, v). (k, print_any v, any_json v)) kvs, [])"
      using jmembers_print [OF False assms, of "Suc (length ?body)" 1 "[]"] by (simp add: maxNestingDepth_def)
    then have "jvalue (Suc (length (marshal_struct kvs))) 0 (marshal_struct kvs) =
        Some (JObj (map (map_prod id any_json) kvs), [])"
      using head by (auto simp: shape maxNestingDepth_def split_beta' comp_def map_prod_def simp del: jmembers.simps)
    then show ?thesis by (simp add: json_parse_def del: jvalue.simps)
  qed
qed

lemma parse_marshal_map:
  assumes "list_all (\<lambda>kv. ascii (fst kv) \<and> any_ascii (snd kv)) kvs"
  shows "json_parse (marshal_map kvs) = Some (JObj (map (map_prod id any_json) (sorted_map kvs)))"
proof -
  have "marshal_map kvs = marshal_struct (sorted_map kvs)"
    by (simp add: marshal_map_def print_object_def marshal_struct_def print_member_fun)
  moreover have "list_all (\<lambda>kv. ascii (fst kv) \<and> any_ascii (snd kv)) (sorted_map kvs)"
    using assms sorted_map_set [of kvs] by (auto simp: list_all_iff)
  ultimately show ?thesis using parse_marshal_struct by simp
qed

text \<open>
  The string members of a marshalled map, read back into a struct.  Keys are pairwise different even
  up to case, so a field name meets only its own member.
\<close>

lemma insert_key_lookup: "map_of (insert_key k v kvs) x = (if x = k then Some v else map_of kvs x)"
  by (induction kvs) auto

lemma sorted_map_lookup: "map_of (sorted_map kvs) = map_of (rev kvs)"
proof -
  have "map_of (foldl (\<lambda>m (k, v). insert_key k v m) m kvs) x = (map_of m ++ map_of (rev kvs)) x" for m x
  proof (induction kvs arbitrary: m)
    case (Cons kv kvs)
    then show ?case by (cases kv) (auto simp: map_add_def insert_key_lookup split: option.splits)
  qed simp
  from this [of "[]"] show ?thesis by (auto simp: sorted_map_def fun_eq_iff)
qed

lemma insert_key_keys: "fst ` set (insert_key k v kvs) = insert k (fst ` set kvs)"
  by (induction k v kvs rule: insert_key.induct) (simp_all add: insert_commute)

lemma insert_key_distinct:
  "distinct (map fst kvs) \<Longrightarrow> k \<notin> fst ` set kvs \<Longrightarrow> distinct (map fst (insert_key k v kvs))"
proof (induction k v kvs rule: insert_key.induct)
  case (2 k v k' v' kvs)
  then show ?case using insert_key_keys [of k v kvs] by auto
qed simp

lemma sorted_map_distinct: "distinct (map fst kvs) \<Longrightarrow> distinct (map fst (sorted_map kvs))"
proof -
  have "distinct (map fst (foldl (\<lambda>m (k, v). insert_key k v m) m kvs))"
    if "distinct (map fst kvs)" "distinct (map fst m)" "fst ` set kvs \<inter> fst ` set m = {}" for m
    using that
  proof (induction kvs arbitrary: m)
    case (Cons kv kvs)
    have k: "fst kv \<notin> fst ` set m" using Cons.prems(3) by auto
    have "distinct (map fst (foldl (\<lambda>m (k, v). insert_key k v m) (insert_key (fst kv) (snd kv) m) kvs))"
      using Cons.prems insert_key_keys [of "fst kv" "snd kv" m] insert_key_distinct [OF Cons.prems(2) k]
      by (intro Cons.IH) auto
    then show ?case by (cases kv) simp
  qed simp
  then show "distinct (map fst kvs) \<Longrightarrow> ?thesis" by (simp add: sorted_map_def)
qed

lemma struct_fields_exact:
  assumes "distinct (map fst kvs)"
    "\<And>k v. (k, v) \<in> set kvs \<Longrightarrow> field_of names k = (if k \<in> set names then Some k else None)"
    "\<And>k v. (k, v) \<in> set kvs \<Longrightarrow> k \<in> set names \<Longrightarrow> \<exists>s. v = JStr s"
  shows "\<exists>m'. struct_fields names kvs m = Some m' \<and>
    (\<forall>n. m' n = (if n \<in> set names then
        (case map_of kvs n of Some (JStr s) \<Rightarrow> Some s | _ \<Rightarrow> m n) else m n))"
  using assms
proof (induction names kvs m rule: struct_fields.induct)
  case (2 names k v kvs m)
  have f: "field_of names k = (if k \<in> set names then Some k else None)" using 2(5) [of k v] by simp
  have rest: "distinct (map fst kvs)" "k \<notin> fst ` set kvs" using 2(4) by simp_all
  have later: "map_of kvs k = None" using rest(2) by (simp add: map_of_eq_None_iff)
  show ?case
  proof (cases "k \<in> set names")
    case True
    then obtain s where s: "v = JStr s" using 2(6) [of k v] by auto
    have g: "field_of names k = Some k" using f True by simp
    obtain m' where m': "struct_fields names kvs (m(k \<mapsto> s)) = Some m'"
      "\<And>n. m' n = (if n \<in> set names then (case map_of kvs n of Some (JStr t) \<Rightarrow> Some t | _ \<Rightarrow> (m(k \<mapsto> s)) n) else (m(k \<mapsto> s)) n)"
      using 2(3) [OF g s rest(1)] 2(5,6) by (metis list.set_intros(2))
    then show ?thesis using g s True later by (auto split: option.splits json.splits)
  next
    case False
    then have g: "field_of names k = None" using f by simp
    obtain m' where m': "struct_fields names kvs m = Some m'"
      "\<And>n. m' n = (if n \<in> set names then (case map_of kvs n of Some (JStr t) \<Rightarrow> Some t | _ \<Rightarrow> m n) else m n)"
      using 2(1) [OF g rest(1)] 2(5,6) by (metis list.set_intros(2))
    then show ?thesis using g False by (auto split: option.splits json.splits)
  qed
qed simp

lemma map_of_rev_distinct: "distinct (map fst kvs) \<Longrightarrow> map_of (rev kvs) = map_of kvs"
  by (subst map_of_inject_set) (simp_all flip: rev_map)

lemma unmarshal_marshal:
  assumes "list_all (\<lambda>kv. ascii (fst kv) \<and> any_ascii (snd kv)) kvs" "distinct (map fst kvs)"
    "list_all (\<lambda>kv. field_of names (fst kv) = (if fst kv \<in> set names then Some (fst kv) else None)) kvs"
    "list_all (\<lambda>kv. fst kv \<in> set names \<longrightarrow> (\<exists>s. snd kv = AStr s)) kvs"
  shows "\<exists>m. unmarshal_strings names (marshal_map kvs) = Some m \<and>
    (\<forall>n \<in> set names. m n = (case map_of kvs n of Some (AStr s) \<Rightarrow> Some s | _ \<Rightarrow> None))"
proof -
  let ?js = "map (map_prod id any_json) (sorted_map kvs)"
  have keys: "distinct (map fst ?js)" using sorted_map_distinct [OF assms(2)] by (simp add: comp_def)
  have sub: "set (sorted_map kvs) \<subseteq> set kvs" by (rule sorted_map_set)
  have f: "field_of names k = (if k \<in> set names then Some k else None)" if "(k, v) \<in> set ?js" for k v
    using that sub assms(3) by (fastforce simp: list_all_iff)
  have st: "\<exists>s. v = JStr s" if "(k, v) \<in> set ?js" "k \<in> set names" for k v
    using that sub assms(4) by (fastforce simp: list_all_iff any_json_def)
  have look: "map_of ?js n = map_option any_json (map_of kvs n)" for n
    using map_of_map [of any_json "sorted_map kvs"] assms(2)
    by (simp add: sorted_map_lookup map_of_rev_distinct map_prod_def id_def split_beta')
  have "\<exists>m'. struct_fields names ?js Map.empty = Some m' \<and>
    (\<forall>n. m' n = (if n \<in> set names then
        (case map_of ?js n of Some (JStr s) \<Rightarrow> Some s | _ \<Rightarrow> Map.empty n) else Map.empty n))"
    by (rule struct_fields_exact [OF keys]) (fact f, fact st)
  then obtain m where m: "struct_fields names ?js Map.empty = Some m"
    "\<And>n. m n = (if n \<in> set names then (case map_of ?js n of Some (JStr s) \<Rightarrow> Some s | _ \<Rightarrow> None) else None)"
    by auto
  have "m n = (case map_of kvs n of Some (AStr s) \<Rightarrow> Some s | _ \<Rightarrow> None)" if "n \<in> set names" for n
    unfolding m(2) look using that by (auto simp: any_json_def split: option.splits jany.splits)
  then show ?thesis using m(1) parse_marshal_map [OF assms(1)] by (simp add: unmarshal_strings_def)
qed

subsection \<open>The printed order of a map\<close>

lemma str_less_irrefl [simp]: "\<not> str_less s s"
  by (induction s) auto

lemma str_less_trans: "str_less a b \<Longrightarrow> str_less b c \<Longrightarrow> str_less a c"
proof (induction a b arbitrary: c rule: str_less.induct)
  case (3 a s b t)
  then show ?case by (cases c) auto
next
  case (2 c t)
  then show ?case by (cases c) (auto elim: str_less.elims)
qed simp

lemma str_less_total: "str_less a b \<or> a = b \<or> str_less b a"
proof (induction a b rule: str_less.induct)
  case (1 s)
  then show ?case by (cases s) auto
qed auto

lemma insert_key_sorted:
  assumes "sorted_wrt str_less (map fst kvs)"
  shows "sorted_wrt str_less (map fst (insert_key k v kvs))"
  using assms
proof (induction k v kvs rule: insert_key.induct)
  case (2 k v k' v' kvs)
  have "str_less k' x" if "x \<in> fst ` set (insert_key k v kvs)" "k \<noteq> k'" "\<not> str_less k k'" for x
    using that 2(2) insert_key_keys [of k v kvs] str_less_total [of k k'] by auto
  moreover have "str_less k x" if "str_less k k'" "x \<in> fst ` set kvs" for x
    using that 2(2) str_less_trans by auto
  ultimately show ?case using 2 by auto
qed simp

lemma sorted_map_sorted: "sorted_wrt str_less (map fst (sorted_map kvs))"
proof -
  have "sorted_wrt str_less (map fst (foldl (\<lambda>m (k, v). insert_key k v m) m kvs))"
    if "sorted_wrt str_less (map fst m)" for m
    using that by (induction kvs arbitrary: m) (auto simp: insert_key_sorted)
  then show ?thesis by (simp add: sorted_map_def)
qed

text \<open>A strictly sorted association list is determined by the map it denotes.\<close>

lemma sorted_assoc_unique:
  assumes "sorted_wrt str_less (map fst xs)" "sorted_wrt str_less (map fst ys)" "map_of xs = map_of ys"
  shows "xs = ys"
  using assms
proof (induction xs arbitrary: ys)
  case Nil
  then show ?case by (cases ys) (auto simp: fun_eq_iff split: if_splits)
next
  case (Cons x xs)
  obtain y ys' where ys: "ys = y # ys'"
    using Cons.prems(3) by (cases ys) (auto simp: fun_eq_iff split: if_splits)
  have in_ys: "fst x \<in> insert (fst y) (fst ` set ys')" and in_xs: "fst y \<in> insert (fst x) (fst ` set xs)"
    using Cons.prems(3) by (metis domIff dom_map_of_conv_image_fst list.simps(15) image_insert ys map_of_eq_None_iff insertI1 list.set(2))+
  have "fst x = fst y"
  proof (rule ccontr)
    assume ne: "fst x \<noteq> fst y"
    then have "str_less (fst y) (fst x)" "str_less (fst x) (fst y)"
      using in_xs in_ys Cons.prems(1,2) ys by auto
    then show False using str_less_trans str_less_irrefl by blast
  qed
  moreover have "snd x = snd y" using Cons.prems(3) ys calculation by (metis map_of_Cons_code(2) option.inject prod.collapse)
  moreover have "map_of xs = map_of ys'"
  proof
    fix k
    have nx: "map_of xs (fst x) = None" "map_of ys' (fst y) = None"
      using Cons.prems(1,2) ys str_less_irrefl by (fastforce simp: map_of_eq_None_iff)+
    show "map_of xs k = map_of ys' k"
      using fun_cong [OF Cons.prems(3), of k] nx ys calculation(1) by (cases "k = fst x") auto
  qed
  ultimately show ?case using Cons ys by (simp add: prod_eq_iff)
qed

lemma sorted_map_cong: "map_of (rev xs) = map_of (rev ys) \<Longrightarrow> sorted_map xs = sorted_map ys"
  by (intro sorted_assoc_unique sorted_map_sorted) (simp add: sorted_map_lookup)

end
