(* ===== verification/Change_Detect.thy ===== *)
theory Change_Detect
  imports Cooldown Db Go_Json
begin

section \<open>Package changedetect: diffing, recording and watching changes\<close>

text \<open>
  A model of \<^verbatim>\<open>internal/changedetect/recorder.go\<close>: the identity diff that gates a
  \<^verbatim>\<open>device_changed\<close> event, the recorder with its per-bucket cooldown that writes the change log, and
  the watcher that fans a written row out to bounded subscriber channels.

  The state of the center is a \<open>DBRecorder\<close>, the table \<^verbatim>\<open>change_log\<close> and the \<open>Watcher\<close>.  The
  snapshots an event carries have Go type \<^verbatim>\<open>any\<close>; the model leaves their type open and takes the
  encoder of package \<^verbatim>\<open>json\<close> for them as an argument.
\<close>

subsection \<open>Event vocabulary\<close>

definition ChangeTypeDeviceAdded :: string where "ChangeTypeDeviceAdded = ''device_added''"
definition ChangeTypeDeviceChanged :: string where "ChangeTypeDeviceChanged = ''device_changed''"
definition ChangeTypeDeviceLost :: string where "ChangeTypeDeviceLost = ''device_lost''"
definition ChangeTypeDeviceRecovered :: string where "ChangeTypeDeviceRecovered = ''device_recovered''"
definition ChangeTypeSpeaksWithNew :: string where "ChangeTypeSpeaksWithNew = ''speaks_with_new''"
definition ChangeTypeListenPortAdded :: string where "ChangeTypeListenPortAdded = ''listen_port_added''"
definition ChangeTypeDeviceConfigChanged :: string where "ChangeTypeDeviceConfigChanged = ''device_config_changed''"
definition ChangeTypeProbeFailed :: string where "ChangeTypeProbeFailed = ''probe_failed''"
definition ChangeTypeProbeRecovered :: string where "ChangeTypeProbeRecovered = ''probe_recovered''"
definition ChangeTypeAgentOffline :: string where "ChangeTypeAgentOffline = ''agent_offline''"
definition ChangeTypeAgentRecovered :: string where "ChangeTypeAgentRecovered = ''agent_recovered''"

lemmas change_type_defs =
  ChangeTypeDeviceAdded_def ChangeTypeDeviceChanged_def ChangeTypeDeviceLost_def
  ChangeTypeDeviceRecovered_def ChangeTypeSpeaksWithNew_def ChangeTypeListenPortAdded_def
  ChangeTypeDeviceConfigChanged_def ChangeTypeProbeFailed_def ChangeTypeProbeRecovered_def
  ChangeTypeAgentOffline_def ChangeTypeAgentRecovered_def

definition EntityTypeDevice :: string where "EntityTypeDevice = ''device''"
definition EntityTypeProbeTarget :: string where "EntityTypeProbeTarget = ''probe_target''"
definition EntityTypeAgent :: string where "EntityTypeAgent = ''agent''"

lemmas entity_type_defs = EntityTypeDevice_def EntityTypeProbeTarget_def EntityTypeAgent_def

record 'v ChangeEvent =
  ev_ChangeType :: string
  ev_EntityType :: string
  ev_Severity :: string
  ev_DeviceID :: int
  ev_NetworkID :: "int option"
  ev_AgentID :: string
  ev_Before :: "'v option"
  ev_After :: "'v option"

subsection \<open>The identity diff\<close>

record DeviceSnapshot =
  snap_Name :: string
  snap_Type :: string
  snap_Brand :: string
  snap_Model :: string
  snap_MacAddress :: string
  snap_IPAddress :: string
  snap_Status :: string
  snap_OpenPorts :: string
  snap_DetectedServices :: string
  snap_PrometheusURL :: string
  snap_NodeExporterURL :: string
  snap_ScanAttributes :: string

definition SnapshotFromDevice :: "Device \<Rightarrow> DeviceSnapshot" where
  "SnapshotFromDevice d =
     \<lparr>snap_Name = dev_Name d, snap_Type = dev_Type d, snap_Brand = dev_Brand d, snap_Model = dev_Model d,
      snap_MacAddress = dev_MacAddress d, snap_IPAddress = dev_IpAddress d, snap_Status = dev_Status d,
      snap_OpenPorts = dev_OpenPorts d, snap_DetectedServices = dev_DetectedServices d,
      snap_PrometheusURL = dev_PrometheusUrl d, snap_NodeExporterURL = dev_NodeExporterUrl d,
      snap_ScanAttributes = dev_ScanAttributes d\<rparr>"

definition identityFields :: "(string \<times> (DeviceSnapshot \<Rightarrow> string)) list" where
  "identityFields =
     [(''name'', snap_Name), (''type'', snap_Type), (''brand'', snap_Brand), (''model'', snap_Model),
      (''mac_address'', snap_MacAddress), (''ip_address'', snap_IPAddress)]"

text \<open>The loop of \<^verbatim>\<open>diffFields\<close> over the field list, filling the map \<^verbatim>\<open>changed\<close>.\<close>

fun diffLoop :: "'s \<Rightarrow> 's \<Rightarrow> (string \<times> ('s \<Rightarrow> string)) list \<Rightarrow> (string \<rightharpoonup> string \<times> string) \<Rightarrow>
    (string \<rightharpoonup> string \<times> string)" where
  "diffLoop before after [] changed = changed"
| "diffLoop before after ((n, get) # fs) changed =
     diffLoop before after fs
       (if get before \<noteq> get after then changed(n \<mapsto> (get before, get after)) else changed)"

text \<open>An empty map is returned as \<^verbatim>\<open>nil\<close>; with maps as partial functions both are \<open>Map.empty\<close>.\<close>

definition diffFields :: "'s \<Rightarrow> 's \<Rightarrow> (string \<times> ('s \<Rightarrow> string)) list \<Rightarrow> (string \<rightharpoonup> string \<times> string)" where
  "diffFields before after fs = diffLoop before after fs Map.empty"

definition DiffIdentity :: "DeviceSnapshot \<Rightarrow> DeviceSnapshot \<Rightarrow> (string \<rightharpoonup> string \<times> string)" where
  "DiffIdentity before after = diffFields before after identityFields"

text \<open>
  The scan attributes are compared after normalisation: a JSON object loses its volatile keys and is
  printed again with its keys in order, each member's text compacted; any other text stays as it is.
\<close>

definition volatileScanAttrKeys :: "string list" where
  "volatileScanAttrKeys =
     [''last_scanned_at'', ''last_scan_rtt_ms'', ''inferred_type'', ''inferred_type_source'',
      ''inferred_brand'', ''inferred_description'', ''inferred_location'', ''hostname'', ''os'']"

definition normalizeScanAttrs :: "string \<Rightarrow> string" where
  "normalizeScanAttrs s =
     (if s = '''' \<or> hd s \<noteq> CHR ''{'' then s
      else case json_members s of
             None \<Rightarrow> s
           | Some ms \<Rightarrow>
               print_object json_compact
                 (filter (\<lambda>(k, _). k \<notin> set volatileScanAttrKeys) (map (\<lambda>(k, raw, _). (k, raw)) ms)))"

definition classificationFields :: "(string \<times> (DeviceSnapshot \<Rightarrow> string)) list" where
  "classificationFields =
     [(''open_ports'', snap_OpenPorts), (''detected_services'', snap_DetectedServices),
      (''prometheus_url'', snap_PrometheusURL), (''node_exporter_url'', snap_NodeExporterURL),
      (''scan_attributes'', \<lambda>s. normalizeScanAttrs (snap_ScanAttributes s))]"

definition DiffClassification :: "DeviceSnapshot \<Rightarrow> DeviceSnapshot \<Rightarrow> (string \<rightharpoonup> string \<times> string)" where
  "DiffClassification before after = diffFields before after classificationFields"

text \<open>\<^verbatim>\<open>Diff\<close> copies the classification diff over the identity diff.\<close>

definition Diff :: "DeviceSnapshot \<Rightarrow> DeviceSnapshot \<Rightarrow> (string \<rightharpoonup> string \<times> string)" where
  "Diff before after =
     diffFields before after identityFields ++ diffFields before after classificationFields"

subsection \<open>The watcher\<close>

text \<open>
  Channels live in a store: the buffered rows and whether the channel is closed.  The key set of the
  subscriber map is a list without repetitions, in the order in which a \<^verbatim>\<open>range\<close> visits it.
\<close>

record channel =
  ch_buf :: "ChangeLog list"
  ch_closed :: bool

record Watcher =
  w_subscribers :: "nat list"
  w_chans :: "nat \<rightharpoonup> channel"
  w_next :: nat

definition NewWatcher :: Watcher where
  "NewWatcher = \<lparr>w_subscribers = [], w_chans = Map.empty, w_next = 0\<rparr>"

definition subscriberBuffer :: nat where
  "subscriberBuffer = 64"

definition Subscribe :: "Watcher \<Rightarrow> nat \<times> Watcher" where
  "Subscribe w =
     (w_next w,
      w\<lparr>w_subscribers := w_subscribers w @ [w_next w],
        w_chans := (w_chans w)(w_next w \<mapsto> \<lparr>ch_buf = [], ch_closed = False\<rparr>),
        w_next := Suc (w_next w)\<rparr>)"

definition Unsubscribe :: "nat \<Rightarrow> Watcher \<Rightarrow> Watcher" where
  "Unsubscribe c w =
     (if c \<in> set (w_subscribers w) then
        w\<lparr>w_subscribers := remove1 c (w_subscribers w),
          w_chans := (w_chans w)(c := map_option (ch_closed_update (\<lambda>_. True)) (w_chans w c))\<rparr>
      else w)"

text \<open>
  A non-blocking send: a full buffer drops the row, a \<^verbatim>\<open>nil\<close> channel never accepts one, and a closed
  channel makes the program panic, which is the outcome \<open>None\<close>.
\<close>

definition trySend :: "ChangeLog \<Rightarrow> channel option \<Rightarrow> channel option option" where
  "trySend row cho =
     (case cho of
        None \<Rightarrow> Some None
      | Some ch \<Rightarrow>
          (if ch_closed ch then None
           else if length (ch_buf ch) < subscriberBuffer then Some (Some (ch\<lparr>ch_buf := ch_buf ch @ [row]\<rparr>))
           else Some (Some ch)))"

fun pushLoop :: "ChangeLog \<Rightarrow> nat list \<Rightarrow> (nat \<rightharpoonup> channel) \<Rightarrow> (nat \<rightharpoonup> channel) option" where
  "pushLoop row [] cs = Some cs"
| "pushLoop row (c # subs) cs =
     (case trySend row (cs c) of None \<Rightarrow> None | Some ch \<Rightarrow> pushLoop row subs (cs(c := ch)))"

definition push :: "ChangeLog \<Rightarrow> Watcher \<Rightarrow> Watcher option" where
  "push row w = map_option (\<lambda>cs. w\<lparr>w_chans := cs\<rparr>) (pushLoop row (w_subscribers w) (w_chans w))"

text \<open>A receive by the holder of a channel: a row, or the end of a closed and drained channel.\<close>

datatype received = Row ChangeLog | Closed | Blocked

definition receive :: "nat \<Rightarrow> Watcher \<Rightarrow> received \<times> Watcher" where
  "receive c w =
     (case w_chans w c of
        None \<Rightarrow> (Blocked, w)
      | Some ch \<Rightarrow>
          (case ch_buf ch of
             r # rs \<Rightarrow> (Row r, w\<lparr>w_chans := (w_chans w)(c \<mapsto> ch\<lparr>ch_buf := rs\<rparr>)\<rparr>)
           | [] \<Rightarrow> (if ch_closed ch then Closed else Blocked, w)))"

subsection \<open>The recorder\<close>

type_synonym dedupKey = "int \<times> string"

record DBRecorder =
  rec_cooldown :: duration
  rec_lastEmitted :: "dedupKey \<rightharpoonup> gotime"

definition NewDBRecorder :: "duration \<Rightarrow> DBRecorder" where
  "NewDBRecorder cooldown = \<lparr>rec_cooldown = cooldown, rec_lastEmitted = Map.empty\<rparr>"

definition dedupKind :: "string \<Rightarrow> string" where
  "dedupKind changeType =
     (if changeType = ChangeTypeDeviceLost \<or> changeType = ChangeTypeDeviceRecovered then ''liveness''
      else if changeType = ChangeTypeDeviceChanged then ChangeTypeDeviceChanged
      else '''')"

definition shouldEmit :: "DBRecorder \<Rightarrow> int \<Rightarrow> string \<Rightarrow> gotime \<Rightarrow> bool" where
  "shouldEmit r deviceID changeType t =
     (if rec_cooldown r \<le> 0 then True
      else let kind = dedupKind changeType
           in if kind = '''' then True
              else case rec_lastEmitted r (deviceID, kind) of
                     Some lst \<Rightarrow> \<not> time_sub t lst < rec_cooldown r
                   | None \<Rightarrow> True)"

definition markEmitted :: "DBRecorder \<Rightarrow> int \<Rightarrow> string \<Rightarrow> gotime \<Rightarrow> DBRecorder" where
  "markEmitted r deviceID changeType now =
     (if rec_cooldown r \<le> 0 then r
      else let kind = dedupKind changeType
           in if kind = '''' then r
              else r\<lparr>rec_lastEmitted := (rec_lastEmitted r)((deviceID, kind) \<mapsto> now)\<rparr>)"

definition ptrString :: "string \<Rightarrow> string option" where
  "ptrString s = (if s = '''' then None else Some s)"

definition ptrInt64 :: "int \<Rightarrow> int option" where
  "ptrInt64 v = (if v = 0 then None else Some v)"

text \<open>A missing snapshot is NULL, and so is one that the encoder refuses: \<^verbatim>\<open>Record\<close> drops the error.\<close>

definition marshalSnapshot :: "('v \<Rightarrow> string option) \<Rightarrow> 'v option \<Rightarrow> string option" where
  "marshalSnapshot enc v = (case v of None \<Rightarrow> None | Some x \<Rightarrow> enc x)"

record center =
  ctr_recorder :: DBRecorder
  ctr_change_log :: "ChangeLog list"
  ctr_watcher :: "Watcher option"

text \<open>
  \<^verbatim>\<open>Record\<close>, given the clock reading \<open>t\<close> of the cooldown check, the instant \<open>now\<close> the row is stamped
  with, and whether the insert succeeds.
\<close>

definition eventRow :: "('v \<Rightarrow> string option) \<Rightarrow> 'v ChangeEvent \<Rightarrow> gotime \<Rightarrow> ChangeLog" where
  "eventRow enc ev now =
     \<lparr>log_ID = 0, log_AgentID = ptrString (ev_AgentID ev), log_NetworkID = ev_NetworkID ev,
      log_ChangeType = ev_ChangeType ev, log_EntityType = ev_EntityType ev,
      log_EntityID = ptrInt64 (ev_DeviceID ev), log_BeforeData = marshalSnapshot enc (ev_Before ev),
      log_AfterData = marshalSnapshot enc (ev_After ev), log_DetectedAt = now\<rparr>"

definition Record ::
    "('v \<Rightarrow> string option) \<Rightarrow> 'v ChangeEvent \<Rightarrow> gotime \<Rightarrow> gotime \<Rightarrow> bool \<Rightarrow> center \<Rightarrow> center option" where
  "Record enc ev t now ok c =
     (if \<not> shouldEmit (ctr_recorder c) (ev_DeviceID ev) (ev_ChangeType ev) t then Some c
      else if \<not> ok then Some c
      else
        (let (row, rows) = CreateChangeLog (eventRow enc ev now) (ctr_change_log c);
             c' = c\<lparr>ctr_change_log := rows,
                   ctr_recorder := markEmitted (ctr_recorder c) (ev_DeviceID ev) (ev_ChangeType ev) now\<rparr>
         in case ctr_watcher c' of
              None \<Rightarrow> Some c'
            | Some w \<Rightarrow> map_option (\<lambda>w'. c'\<lparr>ctr_watcher := Some w'\<rparr>) (push row w)))"

text \<open>A sequence of calls, with the clock readings and the outcome of the insert of each.\<close>

fun recordAll ::
    "('v \<Rightarrow> string option) \<Rightarrow> ('v ChangeEvent \<times> gotime \<times> gotime \<times> bool) list \<Rightarrow> center \<Rightarrow> center option" where
  "recordAll enc [] c = Some c"
| "recordAll enc ((ev, t, now, ok) # xs) c =
     (case Record enc ev t now ok c of None \<Rightarrow> None | Some c' \<Rightarrow> recordAll enc xs c')"

subsection \<open>The watcher never panics\<close>

text \<open>
  The transitions of a watcher.  A subscriber only ever hands back a channel it was given; the
  requests come in any order.
\<close>

inductive watcher_step :: "Watcher \<Rightarrow> Watcher \<Rightarrow> bool" where
  subscribe: "Subscribe w = (c, w') \<Longrightarrow> watcher_step w w'"
| unsubscribe: "watcher_step w (Unsubscribe c w)"
| pushed: "push row w = Some w' \<Longrightarrow> watcher_step w w'"
| received: "receive c w = (r, w') \<Longrightarrow> watcher_step w w'"

inductive watcher_reachable :: "Watcher \<Rightarrow> bool" where
  start: "watcher_reachable NewWatcher"
| step: "watcher_reachable w \<Longrightarrow> watcher_step w w' \<Longrightarrow> watcher_reachable w'"

definition watcher_inv :: "Watcher \<Rightarrow> bool" where
  "watcher_inv w \<longleftrightarrow>
     distinct (w_subscribers w) \<and> (\<forall>c ch. w_chans w c = Some ch \<longrightarrow> c < w_next w) \<and>
     (\<forall>c \<in> set (w_subscribers w). \<exists>ch. w_chans w c = Some ch \<and> \<not> ch_closed ch) \<and>
     (\<forall>c ch. w_chans w c = Some ch \<longrightarrow> length (ch_buf ch) \<le> subscriberBuffer \<and> (ch_closed ch \<or> c \<in> set (w_subscribers w)))"

text \<open>What the loop does to the store when every subscriber is open, whatever the order of visits.\<close>

definition sent :: "ChangeLog \<Rightarrow> channel \<Rightarrow> channel" where
  "sent row ch = ch\<lparr>ch_buf := take subscriberBuffer (ch_buf ch @ [row])\<rparr>"

lemma sent_simps [simp]:
  "ch_closed (sent row ch) = ch_closed ch" "length (ch_buf (sent row ch)) \<le> subscriberBuffer"
  by (simp_all add: sent_def)

lemma trySend_open:
  "\<not> ch_closed ch \<Longrightarrow> length (ch_buf ch) \<le> subscriberBuffer \<Longrightarrow> trySend row (Some ch) = Some (Some (sent row ch))"
  by (auto simp: trySend_def sent_def)

lemma pushLoop_open:
  assumes "distinct subs" "\<forall>c \<in> set subs. \<exists>ch. cs c = Some ch \<and> \<not> ch_closed ch \<and> length (ch_buf ch) \<le> subscriberBuffer"
  shows "pushLoop row subs cs = Some (\<lambda>c. if c \<in> set subs then map_option (sent row) (cs c) else cs c)"
  using assms
proof (induction subs arbitrary: cs)
  case (Cons c subs)
  then obtain ch where ch: "cs c = Some ch" "trySend row (cs c) = Some (Some (sent row ch))"
    using trySend_open by fastforce
  have "pushLoop row subs (cs(c \<mapsto> sent row ch)) =
      Some (\<lambda>x. if x \<in> set subs then map_option (sent row) ((cs(c \<mapsto> sent row ch)) x) else (cs(c \<mapsto> sent row ch)) x)"
    using Cons.prems by (intro Cons.IH) auto
  then show ?case using Cons.prems(1) ch by (auto simp: fun_eq_iff)
qed simp

lemma push_inv:
  assumes "watcher_inv w"
  shows "push row w = Some (w\<lparr>w_chans := \<lambda>c. if c \<in> set (w_subscribers w) then map_option (sent row) (w_chans w c) else w_chans w c\<rparr>)"
  using assms pushLoop_open [of "w_subscribers w" "w_chans w" row]
  by (fastforce simp: push_def watcher_inv_def)

lemma watcher_inv_new: "watcher_inv NewWatcher"
  by (simp add: watcher_inv_def NewWatcher_def)

lemma watcher_inv_Subscribe: "watcher_inv w \<Longrightarrow> watcher_inv (snd (Subscribe w))"
  unfolding watcher_inv_def Subscribe_def by (fastforce split: if_splits)

lemma watcher_inv_Unsubscribe: "watcher_inv w \<Longrightarrow> watcher_inv (Unsubscribe c w)"
  unfolding watcher_inv_def Unsubscribe_def by auto

lemma watcher_inv_push:
  assumes inv: "watcher_inv w" and pushed: "push row w = Some w'"
  shows "watcher_inv w'"
proof -
  have w': "w_subscribers w' = w_subscribers w" "w_next w' = w_next w"
    "w_chans w' c = (if c \<in> set (w_subscribers w) then map_option (sent row) (w_chans w c) else w_chans w c)" for c
    using push_inv [OF inv, of row] pushed by auto
  have old: "\<exists>old. w_chans w c = Some old \<and> ch_closed old = ch_closed ch \<and>
      (length (ch_buf old) \<le> subscriberBuffer \<longrightarrow> length (ch_buf ch) \<le> subscriberBuffer)"
    if "w_chans w' c = Some ch" for c ch
    using that w'(3) [of c] by (auto split: if_splits)
  have "\<exists>ch. w_chans w' c = Some ch \<and> \<not> ch_closed ch" if "c \<in> set (w_subscribers w)" for c
    using inv that w'(3) [of c] by (auto simp: watcher_inv_def)
  moreover have "c < w_next w \<and> length (ch_buf ch) \<le> subscriberBuffer \<and> (ch_closed ch \<or> c \<in> set (w_subscribers w))"
    if "w_chans w' c = Some ch" for c ch
    using old [OF that] inv unfolding watcher_inv_def by blast
  moreover have "distinct (w_subscribers w)" using inv by (simp add: watcher_inv_def)
  ultimately show ?thesis unfolding watcher_inv_def w'(1,2) by blast
qed

lemma watcher_inv_receive: "watcher_inv w \<Longrightarrow> receive c w = (r, w') \<Longrightarrow> watcher_inv w'"
  unfolding watcher_inv_def receive_def by (fastforce split: option.splits list.splits if_splits)

lemma watcher_step_inv: "watcher_step w w' \<Longrightarrow> watcher_inv w \<Longrightarrow> watcher_inv w'"
  by (induction rule: watcher_step.induct)
    (auto dest: watcher_inv_Subscribe watcher_inv_push watcher_inv_receive simp: watcher_inv_Unsubscribe)

lemma watcher_reachable_inv: "watcher_reachable w \<Longrightarrow> watcher_inv w"
  by (induction rule: watcher_reachable.induct) (auto intro: watcher_inv_new watcher_step_inv)

subsection \<open>The recorder as a cooldown gate\<close>

definition recAllows :: "DBRecorder \<Rightarrow> int \<times> string \<Rightarrow> gotime \<Rightarrow> bool" where
  "recAllows r e t = shouldEmit r (fst e) (snd e) t"

definition recMark :: "DBRecorder \<Rightarrow> int \<times> string \<Rightarrow> gotime \<Rightarrow> DBRecorder" where
  "recMark r e t = markEmitted r (fst e) (snd e) t"

definition recBucket :: "int \<times> string \<Rightarrow> dedupKey option" where
  "recBucket e = (if dedupKind (snd e) = '''' then None else Some (fst e, dedupKind (snd e)))"

text \<open>The window is the configured duration, an \<^verbatim>\<open>int64\<close>.\<close>

definition recWindow :: "DBRecorder \<Rightarrow> int \<times> string \<Rightarrow> duration" where
  "recWindow r e = (if in_i64 (rec_cooldown r) then rec_cooldown r else 0)"

interpretation recorder_gate: cooldown_gate recAllows recMark recBucket recWindow rec_lastEmitted
proof unfold_locales
  show "recAllows s e t \<longleftrightarrow> (case rec_lastEmitted s k of None \<Rightarrow> True | Some l \<Rightarrow> recWindow s e \<le> t - l)"
    if "0 < recWindow s e" "recBucket e = Some k" for s e k t
    using that time_sub_less [of "rec_cooldown s" t]
    by (auto simp: recAllows_def shouldEmit_def recWindow_def recBucket_def not_less Let_def
        split: if_splits option.splits)
qed (auto simp: recAllows_def recMark_def recBucket_def recWindow_def shouldEmit_def markEmitted_def Let_def
      split: if_splits)

definition eventAttempt :: "'v ChangeEvent \<times> gotime \<times> gotime \<times> bool \<Rightarrow> (int \<times> string) attempt" where
  "eventAttempt x =
     (case x of (ev, t, now, ok) \<Rightarrow>
        \<lparr>att_ev = (ev_DeviceID ev, ev_ChangeType ev), att_check = t, att_commit = now, att_ok = ok\<rparr>)"

definition rowOf :: "ChangeLog \<Rightarrow> (int \<times> string) attempt \<Rightarrow> bool" where
  "rowOf r a \<longleftrightarrow> log_EntityID r = ptrInt64 (fst (att_ev a)) \<and> log_ChangeType r = snd (att_ev a) \<and>
     log_DetectedAt r = att_commit a"

lemma Record_gate:
  assumes "Record enc ev t now ok c = Some c'"
  shows "ctr_recorder c' = fst (gate_step recAllows recMark (eventAttempt (ev, t, now, ok)) (ctr_recorder c))"
    and "\<exists>new. ctr_change_log c' = ctr_change_log c @ new \<and>
      list_all2 rowOf new (snd (gate_step recAllows recMark (eventAttempt (ev, t, now, ok)) (ctr_recorder c)))"
  using assms
  by (auto simp: Record_def gate_step_def eventAttempt_def recAllows_def recMark_def rowOf_def
      CreateChangeLog_def eventRow_def Let_def split: if_splits option.splits)

lemma recordAll_gate:
  assumes "recordAll enc xs c = Some c'"
  shows "ctr_recorder c' = fst (gate_run recAllows recMark (map eventAttempt xs) (ctr_recorder c)) \<and>
    (\<exists>new. ctr_change_log c' = ctr_change_log c @ new \<and>
      list_all2 rowOf new (snd (gate_run recAllows recMark (map eventAttempt xs) (ctr_recorder c))))"
  using assms
proof (induction enc xs c rule: recordAll.induct)
  case (2 enc ev t now ok xs c)
  then obtain c1 where c1: "Record enc ev t now ok c = Some c1" "recordAll enc xs c1 = Some c'"
    by (auto split: option.splits)
  obtain n1 where n1: "ctr_change_log c1 = ctr_change_log c @ n1"
      "list_all2 rowOf n1 (snd (gate_step recAllows recMark (eventAttempt (ev, t, now, ok)) (ctr_recorder c)))"
    using Record_gate(2) [OF c1(1)] by blast
  show ?case using 2(1) [OF c1] n1 Record_gate(1) [OF c1(1)]
    by (auto intro: list_all2_appendI)
qed simp

lemma ptrInt64_eq [simp]: "ptrInt64 a = ptrInt64 b \<longleftrightarrow> a = b"
  by (auto simp: ptrInt64_def)

definition eventsClock :: "('v ChangeEvent \<times> gotime \<times> gotime \<times> bool) list \<Rightarrow> gotime \<Rightarrow> bool" where
  "eventsClock xs t = clock_ok t (map eventAttempt xs)"

text \<open>
  C2. However often and in whatever order changes are reported, two rows that a recorder with a
  positive cooldown writes for the same device and the same bucket are at least the cooldown
  apart; failed inserts in between do not matter.
\<close>

theorem recorded_changes_spaced:
  assumes "recordAll enc xs c = Some c'" "0 < rec_cooldown (ctr_recorder c)" "in_i64 (rec_cooldown (ctr_recorder c))"
    "eventsClock xs t"
  shows "\<exists>new. ctr_change_log c' = ctr_change_log c @ new \<and>
    sorted_wrt (\<lambda>r s. log_EntityID r = log_EntityID s \<and> dedupKind (log_ChangeType r) = dedupKind (log_ChangeType s) \<and>
        dedupKind (log_ChangeType s) \<noteq> '''' \<longrightarrow>
      rec_cooldown (ctr_recorder c) \<le> log_DetectedAt s - log_DetectedAt r) new"
proof -
  let ?r = "ctr_recorder c"
  let ?run = "snd (gate_run recAllows recMark (map eventAttempt xs) ?r)"
  obtain new where new: "ctr_change_log c' = ctr_change_log c @ new" "list_all2 rowOf new ?run"
    using recordAll_gate [OF assms(1)] by blast
  have clk: "clock_ok t (map eventAttempt xs)" using assms(4) by (simp add: eventsClock_def)
  have win: "recWindow ?r e = rec_cooldown ?r" for e using assms(3) by (simp add: recWindow_def)
  have ordered: "att_check a \<le> att_commit a" if "a \<in> set ?run" for a
    using that gate_run_sub [of recAllows recMark "map eventAttempt xs" ?r] clk clock_ok_order by blast
  have "sorted_wrt (\<lambda>a b. recBucket (att_ev a) = recBucket (att_ev b) \<and> recBucket (att_ev b) \<noteq> None \<longrightarrow>
      rec_cooldown ?r \<le> att_check b - att_commit a) ?run"
    using recorder_gate.run_spaced_all [OF clk, of ?r] assms(2) by (simp add: win)
  then have "sorted_wrt (\<lambda>a b. recBucket (att_ev a) = recBucket (att_ev b) \<and> recBucket (att_ev b) \<noteq> None \<longrightarrow>
      rec_cooldown ?r \<le> att_commit b - att_commit a) ?run"
    by (rule sorted_wrt_mono_rel [rotated]) (use ordered in force)
  then have "sorted_wrt (\<lambda>r s. log_EntityID r = log_EntityID s \<and> dedupKind (log_ChangeType r) = dedupKind (log_ChangeType s) \<and>
        dedupKind (log_ChangeType s) \<noteq> '''' \<longrightarrow>
      rec_cooldown ?r \<le> log_DetectedAt s - log_DetectedAt r) new"
    by (rule list_all2_sorted_wrt [OF new(2)]) (auto simp: rowOf_def recBucket_def split: if_splits)
  then show ?thesis using new(1) by blast
qed

text \<open>A recorder of fifteen minutes that sees a device flap: lost, recovered after 5, lost after 16 minutes.\<close>

definition flapEvent :: "string \<Rightarrow> int \<Rightarrow> string ChangeEvent \<times> gotime \<times> gotime \<times> bool" where
  "flapEvent ct m =
     (\<lparr>ev_ChangeType = ct, ev_EntityType = EntityTypeDevice, ev_Severity = '''', ev_DeviceID = 7,
       ev_NetworkID = Some 1, ev_AgentID = '''', ev_Before = None, ev_After = Some ''{}''\<rparr>, m * minute, m * minute, True)"

definition flapCenter :: center where
  "flapCenter = \<lparr>ctr_recorder = NewDBRecorder (15 * minute), ctr_change_log = [], ctr_watcher = Some NewWatcher\<rparr>"

definition flapEvents :: "(string ChangeEvent \<times> gotime \<times> gotime \<times> bool) list" where
  "flapEvents = [flapEvent ChangeTypeDeviceLost 0, flapEvent ChangeTypeDeviceRecovered 5, flapEvent ChangeTypeDeviceLost 16]"

lemma flap_returns: "recordAll Some flapEvents flapCenter \<noteq> None"
  by code_simp

lemma flap_log: "map log_DetectedAt (ctr_change_log (the (recordAll Some flapEvents flapCenter))) = [0, 16 * minute]"
  by code_simp

theorem recorded_changes_spaced_witness:
  "15 * minute \<le> log_DetectedAt (ctr_change_log (the (recordAll Some flapEvents flapCenter)) ! 1)
    - log_DetectedAt (ctr_change_log (the (recordAll Some flapEvents flapCenter)) ! 0)"
proof -
  let ?c = "the (recordAll Some flapEvents flapCenter)"
  have run: "recordAll Some flapEvents flapCenter = Some ?c" using flap_returns by simp
  have pos: "0 < rec_cooldown (ctr_recorder flapCenter)" "in_i64 (rec_cooldown (ctr_recorder flapCenter))" by code_simp+
  have clk: "eventsClock flapEvents 0" by code_simp
  have two: "length (ctr_change_log ?c) = 2" using flap_log by (metis length_map length_Cons list.size(3) Suc_1 One_nat_def)
  have start: "ctr_change_log flapCenter = []" by code_simp
  obtain new where "ctr_change_log ?c = new"
    "sorted_wrt (\<lambda>r s. log_EntityID r = log_EntityID s \<and> dedupKind (log_ChangeType r) = dedupKind (log_ChangeType s) \<and>
        dedupKind (log_ChangeType s) \<noteq> '''' \<longrightarrow>
      rec_cooldown (ctr_recorder flapCenter) \<le> log_DetectedAt s - log_DetectedAt r) new"
    using recorded_changes_spaced [OF run pos clk] start by auto
  moreover have "log_EntityID (ctr_change_log ?c ! 0) = log_EntityID (ctr_change_log ?c ! 1) \<and>
      dedupKind (log_ChangeType (ctr_change_log ?c ! 0)) = dedupKind (log_ChangeType (ctr_change_log ?c ! 1)) \<and>
      dedupKind (log_ChangeType (ctr_change_log ?c ! 1)) \<noteq> ''''" by code_simp
  moreover have "rec_cooldown (ctr_recorder flapCenter) = 15 * minute" by code_simp
  ultimately show ?thesis using sorted_wrt_nth_less [of _ new 0 1] two by fastforce
qed

text \<open>
  C9. Losing and recovering share one bucket: once a \<^verbatim>\<open>device_lost\<close> row is written, a
  \<^verbatim>\<open>device_recovered\<close> (and a further \<^verbatim>\<open>device_lost\<close>) of the same device less than a cooldown later
  leaves no trace at all.
\<close>

theorem liveness_pair_suppressed:
  assumes "ev_ChangeType lost = ChangeTypeDeviceLost"
    "ev_ChangeType nxt = ChangeTypeDeviceRecovered \<or> ev_ChangeType nxt = ChangeTypeDeviceLost"
    "ev_DeviceID nxt = ev_DeviceID lost"
    "0 < rec_cooldown (ctr_recorder c)" "in_i64 (rec_cooldown (ctr_recorder c))"
    "shouldEmit (ctr_recorder c) (ev_DeviceID lost) (ev_ChangeType lost) t"
    "Record enc lost t now True c = Some c1" "t' - now < rec_cooldown (ctr_recorder c)"
  shows "Record enc nxt t' now' ok c1 = Some c1"
proof -
  have "ctr_recorder c1 = markEmitted (ctr_recorder c) (ev_DeviceID lost) (ev_ChangeType lost) now"
    using assms(6,7) by (auto simp: Record_def CreateChangeLog_def Let_def split: option.splits)
  then have r: "rec_cooldown (ctr_recorder c1) = rec_cooldown (ctr_recorder c)"
      "rec_lastEmitted (ctr_recorder c1) (ev_DeviceID lost, ''liveness'') = Some now"
    using assms(1,4) by (simp_all add: markEmitted_def dedupKind_def)
  have "dedupKind (ev_ChangeType nxt) = ''liveness''" using assms(2) by (auto simp: dedupKind_def)
  then have "\<not> shouldEmit (ctr_recorder c1) (ev_DeviceID nxt) (ev_ChangeType nxt) t'"
    using assms(3,4,5,8) r time_sub_less [of "rec_cooldown (ctr_recorder c)" t' now] by (simp add: shouldEmit_def)
  then show ?thesis by (simp add: Record_def)
qed

theorem liveness_pair_suppressed_witness:
  "ctr_change_log (the (recordAll Some (take 2 flapEvents) flapCenter)) =
   ctr_change_log (the (recordAll Some (take 1 flapEvents) flapCenter))"
proof -
  let ?lost = "fst (flapEvent ChangeTypeDeviceLost 0)" and ?recov = "fst (flapEvent ChangeTypeDeviceRecovered 5)"
  obtain c1 where c1: "Record Some ?lost 0 0 True flapCenter = Some c1"
    by (cases "Record Some ?lost 0 0 True flapCenter") (use flap_returns in \<open>auto simp: flapEvents_def flapEvent_def\<close>)
  have "Record Some ?recov (5 * minute) (5 * minute) True c1 = Some c1"
  proof (rule liveness_pair_suppressed [OF _ _ _ _ _ _ c1])
    show "in_i64 (rec_cooldown (ctr_recorder flapCenter))" by code_simp
    show "shouldEmit (ctr_recorder flapCenter) (ev_DeviceID ?lost) (ev_ChangeType ?lost) 0" by code_simp
    show "5 * minute - 0 < rec_cooldown (ctr_recorder flapCenter)" by code_simp
    show "0 < rec_cooldown (ctr_recorder flapCenter)" by code_simp
  qed (simp_all add: flapEvent_def)
  then show ?thesis using c1 by (simp add: flapEvents_def flapEvent_def numeral_2_eq_2)
qed

lemma diffLoop_notin: "f \<notin> fst ` set fs \<Longrightarrow> diffLoop b a fs m f = m f"
  by (induction b a fs m rule: diffLoop.induct) auto

lemma diffLoop_iff:
  assumes "distinct (map fst fs)" "\<And>f. f \<in> fst ` set fs \<Longrightarrow> m f = None"
  shows "diffLoop b a fs m f = Some v \<longleftrightarrow> m f = Some v \<or> (\<exists>get. (f, get) \<in> set fs \<and> get b \<noteq> get a \<and> v = (get b, get a))"
  using assms
proof (induction b a fs m rule: diffLoop.induct)
  case (2 b a n get fs m)
  show ?case
  proof (cases "f = n")
    case True
    then have "f \<notin> fst ` set fs" using 2(2) by simp
    then show ?thesis using True 2(2,3) by (auto simp: diffLoop_notin image_iff)
  next
    case False
    have "diffLoop b a fs (if get b \<noteq> get a then m(n \<mapsto> (get b, get a)) else m) f = Some v \<longleftrightarrow>
        (if get b \<noteq> get a then m(n \<mapsto> (get b, get a)) else m) f = Some v \<or>
        (\<exists>get. (f, get) \<in> set fs \<and> get b \<noteq> get a \<and> v = (get b, get a))"
      using 2(2,3) by (intro 2(1)) auto
    then show ?thesis using False by auto
  qed
qed simp

lemma distinct_identityFields: "distinct (map fst identityFields)"
  by (simp add: identityFields_def)

text \<open>The identity diff lists exactly the six identity fields whose texts differ, with both texts.\<close>

theorem DiffIdentity_exact:
  "DiffIdentity b a f = Some (old, new) \<longleftrightarrow>
    (\<exists>get. (f, get) \<in> {(''name'', snap_Name), (''type'', snap_Type), (''brand'', snap_Brand), (''model'', snap_Model),
      (''mac_address'', snap_MacAddress), (''ip_address'', snap_IPAddress)} \<and> old = get b \<and> new = get a \<and> old \<noteq> new)"
proof -
  have "DiffIdentity b a f = Some (old, new) \<longleftrightarrow>
      (\<exists>get. (f, get) \<in> set identityFields \<and> get b \<noteq> get a \<and> (old, new) = (get b, get a))"
    unfolding DiffIdentity_def diffFields_def using diffLoop_iff [OF distinct_identityFields, of Map.empty b a f "(old, new)"]
    by simp
  moreover have "set identityFields = {(''name'', snap_Name), (''type'', snap_Type), (''brand'', snap_Brand),
      (''model'', snap_Model), (''mac_address'', snap_MacAddress), (''ip_address'', snap_IPAddress)}"
    by (simp only: identityFields_def list.set)
  ultimately show ?thesis by (metis prod.inject)
qed

fun pushAll :: "ChangeLog list \<Rightarrow> Watcher \<Rightarrow> Watcher option" where
  "pushAll [] w = Some w"
| "pushAll (r # rs) w = (case push r w of None \<Rightarrow> None | Some w' \<Rightarrow> pushAll rs w')"

lemma pushAll_inv:
  assumes "watcher_inv w"
  shows "\<exists>w'. pushAll rs w = Some w' \<and> w_subscribers w' = w_subscribers w \<and>
    (\<forall>c. w_chans w' c = (if c \<in> set (w_subscribers w)
        then map_option (\<lambda>ch. ch\<lparr>ch_buf := take subscriberBuffer (ch_buf ch @ rs)\<rparr>) (w_chans w c) else w_chans w c))"
  using assms
proof (induction rs arbitrary: w)
  case Nil
  have "map_option (\<lambda>ch. ch\<lparr>ch_buf := take subscriberBuffer (ch_buf ch)\<rparr>) (w_chans w c) = w_chans w c" for c
    using Nil by (cases "w_chans w c") (auto simp: watcher_inv_def)
  then show ?case by simp
next
  case (Cons r rs)
  obtain w1 where w1: "push r w = Some w1" "w_subscribers w1 = w_subscribers w"
    "\<And>c. w_chans w1 c = (if c \<in> set (w_subscribers w) then map_option (sent r) (w_chans w c) else w_chans w c)"
    using push_inv [OF Cons.prems, of r] by simp
  have "take subscriberBuffer (take subscriberBuffer (b @ [r]) @ rs) = take subscriberBuffer (b @ r # rs)" for b
    by (simp add: take_Cons' min_def split: nat_diff_split)
  then show ?case
    using Cons.IH [OF watcher_inv_push [OF Cons.prems w1(1)]] w1
    by (auto simp: sent_def option.map_comp comp_def)
qed

text \<open>
  C3. From any state the watcher can be in, pushing rows never panics; every subscriber's buffer
  becomes the first 64 of what it held followed by the rows, in order, and no other channel changes.
\<close>

theorem push_bounded_fifo:
  assumes "watcher_reachable w"
  shows "\<exists>w'. pushAll rs w = Some w' \<and> w_subscribers w' = w_subscribers w \<and>
    (\<forall>c. w_chans w' c = (if c \<in> set (w_subscribers w)
        then map_option (\<lambda>ch. ch\<lparr>ch_buf := take 64 (ch_buf ch @ rs)\<rparr>) (w_chans w c) else w_chans w c))"
  using pushAll_inv [OF watcher_reachable_inv [OF assms], of rs] unfolding subscriberBuffer_def .

theorem push_bounded_fifo_witness:
  "map_option (\<lambda>w. map_option ch_buf (w_chans w 0))
      (pushAll (ctr_change_log (the (recordAll Some flapEvents flapCenter))) (snd (Subscribe NewWatcher))) =
   Some (Some (ctr_change_log (the (recordAll Some flapEvents flapCenter))))"
proof -
  let ?rs = "ctr_change_log (the (recordAll Some flapEvents flapCenter))"
  have "watcher_reachable (snd (Subscribe NewWatcher))"
    by (rule watcher_reachable.step [OF watcher_reachable.start]) (rule watcher_step.subscribe [OF prod.collapse [symmetric]])
  from push_bounded_fifo [OF this, of ?rs] obtain w' where
    "pushAll ?rs (snd (Subscribe NewWatcher)) = Some w'" "map_option ch_buf (w_chans w' 0) = Some (take 64 ?rs)"
    by (auto simp: Subscribe_def NewWatcher_def)
  moreover have "length ?rs = 2" using flap_log by (metis length_map length_Cons list.size(3) Suc_1 One_nat_def)
  ultimately show ?thesis by simp
qed

text \<open>
  The volatile keys of the scan attributes, the order of the keys and repeated keys never show
  up as a difference: two objects whose last members agree on every other key normalise to the
  same text, so that the classification diff of otherwise equal snapshots is empty.
\<close>

theorem normalize_ignores_volatile:
  assumes "json_members s = Some ms" "json_members t = Some ns" "s \<noteq> []" "t \<noteq> []" "hd s = CHR ''{''" "hd t = CHR ''{''"
    "map_of (rev (filter (\<lambda>(k, _). k \<notin> set volatileScanAttrKeys) (map (\<lambda>(k, raw, _). (k, raw)) ms))) =
     map_of (rev (filter (\<lambda>(k, _). k \<notin> set volatileScanAttrKeys) (map (\<lambda>(k, raw, _). (k, raw)) ns)))"
  shows "normalizeScanAttrs s = normalizeScanAttrs t \<and>
    DiffClassification (b\<lparr>snap_ScanAttributes := s\<rparr>) (b\<lparr>snap_ScanAttributes := t\<rparr>) = Map.empty"
proof -
  have "normalizeScanAttrs s = normalizeScanAttrs t"
    using assms sorted_map_cong [OF assms(7)] by (simp add: normalizeScanAttrs_def print_object_def)
  then show ?thesis by (simp add: DiffClassification_def diffFields_def classificationFields_def)
qed

definition attrsOld :: string where
  "attrsOld = marshal_map [(''os'', AStr ''linux 5''), (''vendor'', AStr ''acme''), (''last_scan_rtt_ms'', AInt 12)]"

definition attrsNew :: string where
  "attrsNew = marshal_map [(''vendor'', AStr ''acme''), (''hostname'', AStr ''nas''), (''last_scan_rtt_ms'', AInt 7)]"

theorem normalize_ignores_volatile_witness:
  "attrsOld \<noteq> attrsNew \<and> normalizeScanAttrs attrsOld = normalizeScanAttrs attrsNew"
proof
  show "attrsOld \<noteq> attrsNew" by code_simp
  have "json_members attrsOld = Some (the (json_members attrsOld))" "json_members attrsNew = Some (the (json_members attrsNew))"
    by code_simp+
  moreover have "attrsOld \<noteq> []" "attrsNew \<noteq> []" "hd attrsOld = CHR ''{''" "hd attrsNew = CHR ''{''" by code_simp+
  moreover have "filter (\<lambda>(k, _). k \<notin> set volatileScanAttrKeys) (map (\<lambda>(k, raw, _). (k, raw)) (the (json_members attrsOld))) =
      filter (\<lambda>(k, _). k \<notin> set volatileScanAttrKeys) (map (\<lambda>(k, raw, _). (k, raw)) (the (json_members attrsNew)))"
    by code_simp
  ultimately show "normalizeScanAttrs attrsOld = normalizeScanAttrs attrsNew"
    using normalize_ignores_volatile [of attrsOld _ attrsNew] by metis
qed

end
