(* ===== verification/Go_Url.thy ===== *)
theory Go_Url
  imports Go_Net
begin

section \<open>Packages net and net/url: host and port, URLs\<close>

text \<open>
  \<^verbatim>\<open>net.SplitHostPort\<close>, \<^verbatim>\<open>net.JoinHostPort\<close> and the part of \<^verbatim>\<open>url.Parse\<close> the sources read: the scheme, the
  host with its port, and whether the text is refused.  The rules for hosts are those of Go 1.26: an
  IP literal in brackets starts the host and is an IPv6 address, and outside of brackets the first
  colon starts the port.
\<close>

subsection \<open>Searching a string\<close>

definition index_byte :: "char \<Rightarrow> string \<Rightarrow> nat option" where
  "index_byte c s = (let i = length (takeWhile (\<lambda>x. x \<noteq> c) s) in if i < length s then Some i else None)"

definition last_index_byte :: "char \<Rightarrow> string \<Rightarrow> nat option" where
  "last_index_byte c s = map_option (\<lambda>i. length s - Suc i) (index_byte c (rev s))"

fun contains_str :: "string \<Rightarrow> string \<Rightarrow> bool" where
  "contains_str [] sub = (sub = [])"
| "contains_str (c # s) sub = (has_prefix (c # s) sub \<or> contains_str s sub)"

fun index_str :: "string \<Rightarrow> string \<Rightarrow> nat option" where
  "index_str [] sub = (if sub = [] then Some 0 else None)"
| "index_str (c # s) sub = (if has_prefix (c # s) sub then Some 0 else map_option Suc (index_str s sub))"

subsection \<open>Host and port\<close>

definition addrErr :: "string \<Rightarrow> string \<Rightarrow> string" where
  "addrErr addr why = (if addr = [] then why else ''address '' @ addr @ '': '' @ why)"

definition in_ticks :: "char \<Rightarrow> string" where
  "in_ticks c = [CHR 0x27, c, CHR 0x27]"

text \<open>The two parts, or the text of the error.\<close>

definition split_host_port :: "string \<Rightarrow> string + string \<times> string" where
  "split_host_port hostport =
     (case last_index_byte (CHR '':'') hostport of
        None \<Rightarrow> Inl (addrErr hostport ''missing port in address'')
      | Some i \<Rightarrow>
          (let port = drop (Suc i) hostport in
           if hd hostport = CHR ''['' then
             (case index_byte (CHR '']'') hostport of
                None \<Rightarrow> Inl (addrErr hostport (''missing '' @ in_ticks (CHR '']'') @ '' in address''))
              | Some e \<Rightarrow>
                  (if Suc e = length hostport then Inl (addrErr hostport ''missing port in address'')
                   else if Suc e \<noteq> i then
                     Inl (addrErr hostport
                       (if hostport ! Suc e = CHR '':'' then ''too many colons in address'' else ''missing port in address''))
                   else if CHR ''['' \<in> set (drop 1 hostport) then Inl (addrErr hostport (''unexpected '' @ in_ticks (CHR ''['') @ '' in address''))
                   else if CHR '']'' \<in> set (drop (Suc e) hostport) then Inl (addrErr hostport (''unexpected '' @ in_ticks (CHR '']'') @ '' in address''))
                   else Inr (drop 1 (take e hostport), port)))
           else
             (let host = take i hostport in
              if CHR '':'' \<in> set host then Inl (addrErr hostport ''too many colons in address'')
              else if CHR ''['' \<in> set hostport then Inl (addrErr hostport (''unexpected '' @ in_ticks (CHR ''['') @ '' in address''))
              else if CHR '']'' \<in> set hostport then Inl (addrErr hostport (''unexpected '' @ in_ticks (CHR '']'') @ '' in address''))
              else Inr (host, port))))"

definition SplitHostPort :: "string \<Rightarrow> (string \<times> string) option" where
  "SplitHostPort hostport = (case split_host_port hostport of Inl _ \<Rightarrow> None | Inr hp \<Rightarrow> Some hp)"

definition JoinHostPort :: "string \<Rightarrow> string \<Rightarrow> string" where
  "JoinHostPort host port =
     (if CHR '':'' \<in> set host then ''['' @ host @ '']:'' @ port else host @ '':'' @ port)"

lemma index_byte_first: "c \<notin> set a \<Longrightarrow> index_byte c (a @ c # b) = Some (length a)"
proof -
  assume "c \<notin> set a"
  then have "takeWhile (\<lambda>x. x \<noteq> c) (a @ c # b) = a" by (induction a) auto
  then show ?thesis by (simp add: index_byte_def Let_def)
qed

lemma last_index_byte_last: "c \<notin> set b \<Longrightarrow> last_index_byte c (a @ c # b) = Some (length a)"
  using index_byte_first [of c "rev b" "rev a"] by (simp add: last_index_byte_def)

text \<open>A joined pair splits again, unless the host has brackets or the port has brackets or a colon.\<close>

lemma Split_Join:
  assumes "CHR ''['' \<notin> set (host @ port)" "CHR '']'' \<notin> set (host @ port)" "CHR '':'' \<notin> set port"
  shows "SplitHostPort (JoinHostPort host port) = Some (host, port)"
proof (cases "CHR '':'' \<in> set host")
  case True
  have l: "last_index_byte (CHR '':'') (''['' @ host @ '']:'' @ port) = Some (Suc (Suc (length host)))"
    using last_index_byte_last [of "CHR '':''" port "''['' @ host @ '']''"] assms by simp
  have r: "index_byte (CHR '']'') (''['' @ host @ '']:'' @ port) = Some (Suc (length host))"
    using index_byte_first [of "CHR '']''" "''['' @ host" "'':'' @ port"] assms by simp
  show ?thesis using True assms l r by (simp add: SplitHostPort_def split_host_port_def JoinHostPort_def Let_def)
next
  case False
  have l: "last_index_byte (CHR '':'') (host @ '':'' @ port) = Some (length host)"
    using last_index_byte_last [of "CHR '':''" port host] assms by simp
  have "hd (host @ CHR '':'' # port) \<noteq> CHR ''[''" using assms by (cases host) auto
  then show ?thesis using False assms l by (simp add: SplitHostPort_def split_host_port_def JoinHostPort_def Let_def)
qed

subsection \<open>URLs\<close>

text \<open>
  \<^verbatim>\<open>unescape\<close> in the modes the parser uses.  A host may escape only bytes that are not ASCII and the
  percent sign, a zone besides these the bytes a host may carry anyway, and in both an unescaped
  ASCII byte must be one a host may carry; elsewhere every byte may be escaped.
\<close>

datatype url_mode = UHost | UZone | UOther

definition host_byte :: "char \<Rightarrow> bool" where
  "host_byte c \<longleftrightarrow>
     is_digit c \<or> 97 \<le> ord c \<and> ord c \<le> 122 \<or> 65 \<le> ord c \<and> ord c \<le> 90 \<or>
     c \<in> set ''-_.~!$&()*+,;=:[]<>'' \<or> ord c = 34 \<or> ord c = 39"

fun unescape_url :: "url_mode \<Rightarrow> string \<Rightarrow> string option" where
  "unescape_url mode [] = Some []"
| "unescape_url mode (c # s) =
     (if c = CHR ''%'' then
        (case s of
           a # b # s' \<Rightarrow>
             (case (hex_val a, hex_val b) of
                (Some x, Some y) \<Rightarrow>
                  (let v = x * 16 + y in
                   if mode = UHost \<and> x < 8 \<and> \<not> (a = CHR ''2'' \<and> b = CHR ''5'') then None
                   else if mode = UZone \<and> \<not> (a = CHR ''2'' \<and> b = CHR ''5'') \<and> v \<noteq> 32 \<and> \<not> host_byte (char_of v) then None
                   else map_option ((#) (char_of v)) (unescape_url mode s'))
              | _ \<Rightarrow> None)
         | _ \<Rightarrow> None)
      else if (mode = UHost \<or> mode = UZone) \<and> ord c < 0x80 \<and> \<not> host_byte c then None
      else map_option ((#) c) (unescape_url mode s))"

definition validOptionalPort :: "string \<Rightarrow> bool" where
  "validOptionalPort port \<longleftrightarrow> port = [] \<or> hd port = CHR '':'' \<and> list_all is_digit (tl port)"

text \<open>An IPv6 address, its zone included, as \<^verbatim>\<open>netip.ParseAddr\<close> reads it.\<close>

definition is_ipv6_literal :: "string \<Rightarrow> bool" where
  "is_ipv6_literal s \<longleftrightarrow>
     (case dropWhile (\<lambda>c. c \<noteq> CHR ''.'' \<and> c \<noteq> CHR '':'' \<and> c \<noteq> CHR ''%'') s of
        [] \<Rightarrow> False
      | c # _ \<Rightarrow>
          c = CHR '':'' \<and>
          (case cut (CHR ''%'') s of
             None \<Rightarrow> parseIPv6 s \<noteq> None
           | Some (addr, zone) \<Rightarrow> zone \<noteq> [] \<and> parseIPv6 addr \<noteq> None))"

definition parseHost :: "string \<Rightarrow> string option" where
  "parseHost host =
     (case last_index_byte (CHR ''['') host of
        Some (Suc _) \<Rightarrow> None
      | Some 0 \<Rightarrow>
          (case last_index_byte (CHR '']'') host of
             None \<Rightarrow> None
           | Some e \<Rightarrow>
               (let colonPort = drop (Suc e) host; hostname = drop 1 (take e host) in
                if \<not> validOptionalPort colonPort then None
                else let un = (case index_str hostname ''%25'' of
                                 None \<Rightarrow> unescape_url UHost hostname
                               | Some z \<Rightarrow>
                                   (case (unescape_url UHost (take z hostname), unescape_url UZone (drop z hostname)) of
                                      (Some a, Some b) \<Rightarrow> Some (a @ b)
                                    | _ \<Rightarrow> None))
                     in case un of
                          None \<Rightarrow> None
                        | Some h \<Rightarrow> if is_ipv6_literal h then Some (''['' @ h @ '']'' @ colonPort) else None))
      | None \<Rightarrow>
          (case index_byte (CHR '':'') host of
             Some i \<Rightarrow> if validOptionalPort (drop i host) then unescape_url UHost host else None
           | None \<Rightarrow> unescape_url UHost host))"

definition validUserinfo :: "string \<Rightarrow> bool" where
  "validUserinfo s \<longleftrightarrow>
     list_all (\<lambda>c. is_digit c \<or> 97 \<le> ord c \<and> ord c \<le> 122 \<or> 65 \<le> ord c \<and> ord c \<le> 90 \<or>
       c \<in> set ''-._:~!$&()*+,;=%@'' \<or> ord c = 39) s"

definition parseAuthority :: "string \<Rightarrow> string option" where
  "parseAuthority authority =
     (case last_index_byte (CHR ''@'') authority of
        None \<Rightarrow> parseHost authority
      | Some i \<Rightarrow>
          (case parseHost (drop (Suc i) authority) of
             None \<Rightarrow> None
           | Some host \<Rightarrow>
               (let userinfo = take i authority in
                if \<not> validUserinfo userinfo \<or> unescape_url UOther userinfo = None then None else Some host)))"

fun scheme_end :: "nat \<Rightarrow> string \<Rightarrow> (nat option) option" where
  "scheme_end i [] = Some None"
| "scheme_end i (c # s) =
     (if 97 \<le> ord c \<and> ord c \<le> 122 \<or> 65 \<le> ord c \<and> ord c \<le> 90 then scheme_end (Suc i) s
      else if is_digit c \<or> c = CHR ''+'' \<or> c = CHR ''-'' \<or> c = CHR ''.'' then
        (if i = 0 then Some None else scheme_end (Suc i) s)
      else if c = CHR '':'' then (if i = 0 then None else Some (Some i))
      else Some None)"

definition to_lower :: "string \<Rightarrow> string" where
  "to_lower s = map (\<lambda>c. if 65 \<le> ord c \<and> ord c \<le> 90 then char_of (ord c + 32) else c) s"

text \<open>The scheme and the host of a URL; \<open>None\<close> when the text is not a URL.\<close>

record url = url_Scheme :: string  url_Host :: string

definition parse_rest :: "string \<Rightarrow> string \<Rightarrow> url option" where
  "parse_rest scheme rest0 =
     (let rest = takeWhile (\<lambda>c. c \<noteq> CHR ''?'') rest0 in
      if \<not> has_prefix rest ''/'' \<and> scheme \<noteq> [] then Some \<lparr>url_Scheme = scheme, url_Host = []\<rparr>
      else if \<not> has_prefix rest ''/'' \<and> CHR '':'' \<in> set (takeWhile (\<lambda>c. c \<noteq> CHR ''/'') rest) then None
      else if (scheme \<noteq> [] \<or> \<not> has_prefix rest ''///'') \<and> has_prefix rest ''//'' then
        (let authority = takeWhile (\<lambda>c. c \<noteq> CHR ''/'') (drop 2 rest);
             path = dropWhile (\<lambda>c. c \<noteq> CHR ''/'') (drop 2 rest)
         in case parseAuthority authority of
              None \<Rightarrow> None
            | Some host \<Rightarrow> if unescape_url UOther path = None then None
                            else Some \<lparr>url_Scheme = scheme, url_Host = host\<rparr>)
      else if unescape_url UOther rest = None then None
      else Some \<lparr>url_Scheme = scheme, url_Host = []\<rparr>)"

definition url_parse :: "string \<Rightarrow> url option" where
  "url_parse raw =
     (let u = takeWhile (\<lambda>c. c \<noteq> CHR ''#'') raw; frag = drop (Suc (length u)) raw in
      if list_ex (\<lambda>c. ord c < 32 \<or> ord c = 127) u then None
      else if u = ''*'' then (if unescape_url UOther frag = None then None else Some \<lparr>url_Scheme = [], url_Host = []\<rparr>)
      else case scheme_end 0 u of
             None \<Rightarrow> None
           | Some e \<Rightarrow>
               (let (scheme, rest) = (case e of None \<Rightarrow> ([], u) | Some i \<Rightarrow> (to_lower (take i u), drop (Suc i) u))
                in case parse_rest scheme rest of
                     None \<Rightarrow> None
                   | Some r \<Rightarrow> if unescape_url UOther frag = None then None else Some r))"

text \<open>\<^verbatim>\<open>splitHostPort\<close> of package url, for the methods \<^verbatim>\<open>Hostname\<close> and \<^verbatim>\<open>Port\<close>.\<close>

definition url_split :: "string \<Rightarrow> string \<times> string" where
  "url_split hostPort =
     (let (host, port) =
            (case last_index_byte (CHR '':'') hostPort of
               Some i \<Rightarrow> if validOptionalPort (drop i hostPort) then (take i hostPort, drop (Suc i) hostPort) else (hostPort, [])
             | None \<Rightarrow> (hostPort, []))
      in (if has_prefix host ''['' \<and> host \<noteq> [] \<and> last host = CHR '']'' then butlast (tl host) else host, port))"

definition url_Hostname :: "url \<Rightarrow> string" where
  "url_Hostname u = fst (url_split (url_Host u))"

definition url_Port :: "url \<Rightarrow> string" where
  "url_Port u = snd (url_split (url_Host u))"

end
