(* ===== verification/Probe_Domain.thy ===== *)
theory Probe_Domain
  imports Go_Url Go_Json Db
begin

section \<open>Synthetic probing: requests and their validation\<close>

text \<open>
  \<^verbatim>\<open>internal/domain/probe.go\<close>: the option block of a probe target, the create and update requests, and
  the validation of each.  A validator returns \<open>None\<close> when it accepts and \<open>Some e\<close> for the error it
  returns; optional fields are options.
\<close>

definition ValidProbeModules :: "string \<Rightarrow> bool" where
  "ValidProbeModules m \<longleftrightarrow> m \<in> set [''http'', ''tls'', ''tcp'', ''icmp'', ''dns'']"

definition ProbeIntervalMinSeconds :: int where "ProbeIntervalMinSeconds = 10"
definition ProbeIntervalMaxSeconds :: int where "ProbeIntervalMaxSeconds = 86400"
definition ProbeTimeoutMinSeconds :: int where "ProbeTimeoutMinSeconds = 1"
definition ProbeTimeoutMaxSeconds :: int where "ProbeTimeoutMaxSeconds = 60"

lemmas probe_bounds =
  ProbeIntervalMinSeconds_def ProbeIntervalMaxSeconds_def ProbeTimeoutMinSeconds_def ProbeTimeoutMaxSeconds_def

definition ProbeVantageCenter :: string where "ProbeVantageCenter = ''center''"
definition ProbeVantageAll :: string where "ProbeVantageAll = ''all''"
definition ProbeVantageAgentPrefix :: string where "ProbeVantageAgentPrefix = ''agent:''"

lemmas vantage_defs = ProbeVantageCenter_def ProbeVantageAll_def ProbeVantageAgentPrefix_def

definition NormalizeProbeVantage :: "string \<Rightarrow> go_error + string" where
  "NormalizeProbeVantage v0 =
     (let v = trim_space v0 in
      if v = [] then Inr ProbeVantageCenter
      else if v = ProbeVantageCenter \<or> v = ProbeVantageAll then Inr v
      else if has_prefix v ProbeVantageAgentPrefix then
        (let id = drop (length ProbeVantageAgentPrefix) v in
         if id = [] \<or> 100 < length id then Inl (Errorf ''vantage agent id must be 1-100 characters'')
         else Inr v)
      else Inl (Errorf ''vantage must be \"center\", \"all\", or \"agent:{agent_id}\"''))"

record ProbeOptions =
  po_Method :: string
  po_ExpectedStatus :: "int list"
  po_Keyword :: string
  po_KeywordMode :: string
  po_IgnoreTLSErrors :: bool
  po_Record :: string
  po_Resolver :: string
  po_ExpectedIPs :: "string list"
  po_Send :: string
  po_Expect :: string
  po_ExpectMode :: string

definition ProbeKeywordContains :: string where "ProbeKeywordContains = ''contains''"
definition ProbeKeywordNotContains :: string where "ProbeKeywordNotContains = ''not_contains''"
definition ProbeKeywordRegex :: string where "ProbeKeywordRegex = ''regex''"
definition ProbeRecordA :: string where "ProbeRecordA = ''A''"
definition ProbeRecordAAAA :: string where "ProbeRecordAAAA = ''AAAA''"
definition ProbeRecordCNAME :: string where "ProbeRecordCNAME = ''CNAME''"
definition ProbeRecordTXT :: string where "ProbeRecordTXT = ''TXT''"
definition ProbeSourceManual :: string where "ProbeSourceManual = ''manual''"
definition ProbeSourceAuto :: string where "ProbeSourceAuto = ''auto''"
definition ProbeSourceSystem :: string where "ProbeSourceSystem = ''system''"

lemmas probe_enums =
  ProbeKeywordContains_def ProbeKeywordNotContains_def ProbeKeywordRegex_def ProbeRecordA_def ProbeRecordAAAA_def
  ProbeRecordCNAME_def ProbeRecordTXT_def ProbeSourceManual_def ProbeSourceAuto_def ProbeSourceSystem_def

subsection \<open>Options\<close>

definition httpSet :: "ProbeOptions \<Rightarrow> bool" where
  "httpSet opts \<longleftrightarrow> po_Method opts \<noteq> [] \<or> po_ExpectedStatus opts \<noteq> [] \<or> po_Keyword opts \<noteq> [] \<or>
     po_KeywordMode opts \<noteq> [] \<or> po_IgnoreTLSErrors opts"

definition dnsSet :: "ProbeOptions \<Rightarrow> bool" where
  "dnsSet opts \<longleftrightarrow> po_Record opts \<noteq> [] \<or> po_Resolver opts \<noteq> [] \<or> po_ExpectedIPs opts \<noteq> []"

definition tcpSet :: "ProbeOptions \<Rightarrow> bool" where
  "tcpSet opts \<longleftrightarrow> po_Send opts \<noteq> [] \<or> po_Expect opts \<noteq> [] \<or> po_ExpectMode opts \<noteq> []"

definition matchMode :: "string \<Rightarrow> string \<Rightarrow> go_error option" where
  "matchMode field mode =
     (if mode = [] \<or> mode = ProbeKeywordContains \<or> mode = ProbeKeywordNotContains \<or> mode = ProbeKeywordRegex then None
      else Some (Errorf (field @ '' must be contains, not_contains, or regex'')))"

definition validate_http_options :: "ProbeOptions \<Rightarrow> go_error option" where
  "validate_http_options opts =
     (if \<not> (po_Method opts = [] \<or> po_Method opts = ''GET'' \<or> po_Method opts = ''HEAD'')
        then Some (Errorf ''method must be GET or HEAD'')
      else if 16 < length (po_ExpectedStatus opts) then Some (Errorf ''expected_status must hold at most 16 codes'')
      else if list_ex (\<lambda>c. c < 100 \<or> 599 < c) (po_ExpectedStatus opts)
        then Some (Errorf ''expected_status codes must be 100-599'')
      else if 256 < length (po_Keyword opts) then Some (Errorf ''keyword must be at most 256 characters'')
      else if po_Keyword opts = [] \<and> po_KeywordMode opts \<noteq> [] then Some (Errorf ''keyword_mode requires keyword'')
      else matchMode ''keyword_mode'' (po_KeywordMode opts))"

text \<open>The port of a resolver that splits as host and port; a bare host has none.\<close>

definition resolver_port_ok :: "string \<Rightarrow> bool" where
  "resolver_port_ok resolver =
     (case SplitHostPort resolver of
        None \<Rightarrow> True
      | Some (_, p) \<Rightarrow>
          p = [] \<or> (case atoi p of None \<Rightarrow> False | Some port \<Rightarrow> 1 \<le> port \<and> port \<le> 65535))"

definition validate_dns_options :: "ProbeOptions \<Rightarrow> go_error option" where
  "validate_dns_options opts =
     (if \<not> (po_Record opts = [] \<or> po_Record opts = ProbeRecordA \<or> po_Record opts = ProbeRecordAAAA \<or>
            po_Record opts = ProbeRecordCNAME \<or> po_Record opts = ProbeRecordTXT)
        then Some (Errorf ''record must be one of A, AAAA, CNAME, TXT'')
      else if po_Resolver opts \<noteq> [] \<and> (CHR ''/'' \<in> set (po_Resolver opts) \<or> trim_space (po_Resolver opts) = [])
        then Some (Errorf ''resolver must be a host or host:port'')
      else if po_Resolver opts \<noteq> [] \<and> \<not> resolver_port_ok (po_Resolver opts)
        then Some (Errorf ''resolver port must be 1-65535'')
      else if 8 < length (po_ExpectedIPs opts) then Some (Errorf ''expected_ips must hold at most 8 addresses'')
      else if list_ex (\<lambda>ip. ParseIP ip = None) (po_ExpectedIPs opts)
        then Some (Errorf ''expected_ips entries must be valid IP addresses'')
      else if po_ExpectedIPs opts \<noteq> [] \<and> po_Record opts \<noteq> [] \<and> po_Record opts \<noteq> ProbeRecordA \<and> po_Record opts \<noteq> ProbeRecordAAAA
        then Some (Errorf ''expected_ips applies to record A or AAAA only'')
      else None)"

definition validate_tcp_options :: "ProbeOptions \<Rightarrow> go_error option" where
  "validate_tcp_options opts =
     (if 256 < length (po_Send opts) then Some (Errorf ''send must be at most 256 characters'')
      else if 256 < length (po_Expect opts) then Some (Errorf ''expect must be at most 256 characters'')
      else if po_Expect opts = [] \<and> po_ExpectMode opts \<noteq> [] then Some (Errorf ''expect_mode requires expect'')
      else matchMode ''expect_mode'' (po_ExpectMode opts))"

definition ValidateProbeOptions :: "string \<Rightarrow> ProbeOptions option \<Rightarrow> go_error option" where
  "ValidateProbeOptions mdl popts =
     (case popts of
        None \<Rightarrow> None
      | Some opts \<Rightarrow>
          (if mdl = ''http'' then
             (if dnsSet opts \<or> tcpSet opts
                then Some (Errorf ''options contain dns/tcp fields that do not apply to the http module'')
              else validate_http_options opts)
           else if mdl = ''dns'' then
             (if httpSet opts \<or> tcpSet opts
                then Some (Errorf ''options contain http/tcp fields that do not apply to the dns module'')
              else validate_dns_options opts)
           else if mdl = ''tcp'' then
             (if httpSet opts \<or> dnsSet opts
                then Some (Errorf ''options contain http/dns fields that do not apply to the tcp module'')
              else validate_tcp_options opts)
           else if mdl = ''icmp'' \<or> mdl = ''tls'' then
             (if httpSet opts \<or> dnsSet opts \<or> tcpSet opts
                then Some (Errorf (''the '' @ mdl @ '' module takes no options''))
              else None)
           else Some (Errorf ''module must be one of http, tls, tcp, icmp, dns'')))"

subsection \<open>Targets\<close>

record ProbeTargetRequest =
  rq_Name :: string
  rq_Module :: string
  rq_Target :: string
  rq_IntervalSeconds :: int
  rq_TimeoutSeconds :: int
  rq_Enabled :: "bool option"
  rq_Notes :: string
  rq_Vantage :: string
  rq_Options :: "ProbeOptions option"
  rq_DeviceID :: "int option"

record UpdateProbeTargetRequest =
  up_Name :: "string option"
  up_Module :: "string option"
  up_Target :: "string option"
  up_IntervalSeconds :: "int option"
  up_TimeoutSeconds :: "int option"
  up_Enabled :: "bool option"
  up_Notes :: "string option"
  up_Vantage :: "string option"
  up_Options :: "ProbeOptions option"
  up_DeviceID :: "int option"

definition ValidateProbeTargetGrammar :: "string \<Rightarrow> string \<Rightarrow> go_error option" where
  "ValidateProbeTargetGrammar mdl target =
     (if mdl = ''http'' then
        (case url_parse target of
           None \<Rightarrow> Some (Errorf ''target must be an absolute URL (e.g. https://example.com/healthz)'')
         | Some u \<Rightarrow>
             (if url_Scheme u = [] \<or> url_Host u = []
                then Some (Errorf ''target must be an absolute URL (e.g. https://example.com/healthz)'')
              else if url_Scheme u \<noteq> ''http'' \<and> url_Scheme u \<noteq> ''https''
                then Some (Errorf ''target scheme must be http or https'')
              else if url_Port u \<noteq> [] \<and> atoi (url_Port u) = None then Some (Errorf ''target port is not numeric'')
              else None))
      else if mdl = ''tls'' \<or> mdl = ''tcp'' then
        (case SplitHostPort target of
           None \<Rightarrow> Some (Errorf ''target must be host:port (e.g. example.com:443)'')
         | Some (host, portStr) \<Rightarrow>
             (if host = [] \<or> portStr = [] then Some (Errorf ''target must be host:port (e.g. example.com:443)'')
              else case atoi portStr of
                     None \<Rightarrow> Some (Errorf ''target port must be 1-65535'')
                   | Some port \<Rightarrow> if port < 1 \<or> 65535 < port then Some (Errorf ''target port must be 1-65535'') else None))
      else if mdl = ''icmp'' \<or> mdl = ''dns'' then
        (if CHR ''/'' \<in> set target \<or> CHR '':'' \<in> set target
           then Some (Errorf ''target must be a bare host or IP (no port, no path)'')
         else if trim_space target = [] then Some (Errorf ''target is required'')
         else None)
      else Some (Errorf ''module must be one of http, tls, tcp, icmp, dns''))"

definition ValidateProbeTargetRequest :: "ProbeTargetRequest \<Rightarrow> go_error option" where
  "ValidateProbeTargetRequest req =
     (let name = trim_space (rq_Name req);
          interval = (if rq_IntervalSeconds req = 0 then 60 else rq_IntervalSeconds req);
          timeout = (if rq_TimeoutSeconds req = 0 then 10 else rq_TimeoutSeconds req)
      in if name = [] then Some (Errorf ''name is required'')
         else if 100 < length name then Some (Errorf ''name must be at most 100 characters'')
         else if \<not> ValidProbeModules (rq_Module req) then Some (Errorf ''module must be one of http, tls, tcp, icmp, dns'')
         else if trim_space (rq_Target req) = [] then Some (Errorf ''target is required'')
         else if interval < ProbeIntervalMinSeconds \<or> ProbeIntervalMaxSeconds < interval
           then Some (Errorf ''interval_seconds must be between 10 and 86400'')
         else if timeout < ProbeTimeoutMinSeconds \<or> ProbeTimeoutMaxSeconds < timeout
           then Some (Errorf ''timeout_seconds must be between 1 and 60'')
         else if interval \<le> timeout then Some (Errorf ''timeout_seconds must be smaller than interval_seconds'')
         else if 500 < length (rq_Notes req) then Some (Errorf ''notes must be at most 500 characters'')
         else case NormalizeProbeVantage (rq_Vantage req) of
                Inl e \<Rightarrow> Some e
              | Inr _ \<Rightarrow>
                  (case ValidateProbeOptions (rq_Module req) (rq_Options req) of
                     Some e \<Rightarrow> Some e
                   | None \<Rightarrow> ValidateProbeTargetGrammar (rq_Module req) (trim_space (rq_Target req))))"

subsection \<open>What validation guarantees\<close>

lemma vantage_trim: "trim_space ProbeVantageCenter = ProbeVantageCenter"
  by (simp add: trim_space_def ProbeVantageCenter_def is_space_def)

text \<open>A canonical vantage is its own canonical form.\<close>

lemma NormalizeProbeVantage_idem: "NormalizeProbeVantage v = Inr w \<Longrightarrow> NormalizeProbeVantage w = Inr w"
proof -
  assume w: "NormalizeProbeVantage v = Inr w"
  show ?thesis
  proof (cases "trim_space v = []")
    case True
    then show ?thesis using w vantage_trim by (simp add: NormalizeProbeVantage_def Let_def ProbeVantageCenter_def)
  next
    case False
    then have "w = trim_space v" using w unfolding NormalizeProbeVantage_def Let_def by (simp split: if_splits)
    moreover have "NormalizeProbeVantage (trim_space v) = NormalizeProbeVantage v"
      by (simp only: NormalizeProbeVantage_def trim_space_idem)
    ultimately show ?thesis using w by simp
  qed
qed

text \<open>A block that validates carries only fields of its own module.\<close>

lemma options_gating:
  assumes "ValidateProbeOptions mdl (Some opts) = None"
  shows "httpSet opts \<Longrightarrow> mdl = ''http''" "dnsSet opts \<Longrightarrow> mdl = ''dns''" "tcpSet opts \<Longrightarrow> mdl = ''tcp''"
  using assms by (auto simp: ValidateProbeOptions_def split: if_splits)

lemma request_bounds:
  assumes "ValidateProbeTargetRequest req = None"
  defines "interval \<equiv> if rq_IntervalSeconds req = 0 then 60 else rq_IntervalSeconds req"
    and "timeout \<equiv> if rq_TimeoutSeconds req = 0 then 10 else rq_TimeoutSeconds req"
  shows "10 \<le> interval \<and> interval \<le> 86400 \<and> 1 \<le> timeout \<and> timeout \<le> 60 \<and> timeout < interval"
  using assms by (auto simp: ValidateProbeTargetRequest_def Let_def probe_bounds split: if_splits)

lemma request_parts:
  assumes "ValidateProbeTargetRequest req = None"
  shows "ValidProbeModules (rq_Module req)" "trim_space (rq_Name req) \<noteq> []" "length (trim_space (rq_Name req)) \<le> 100"
    "ValidateProbeOptions (rq_Module req) (rq_Options req) = None"
    "ValidateProbeTargetGrammar (rq_Module req) (trim_space (rq_Target req)) = None"
    "\<exists>w. NormalizeProbeVantage (rq_Vantage req) = Inr w"
  using assms unfolding ValidateProbeTargetRequest_def Let_def
  by (simp_all split: if_splits sum.splits option.splits)

end
