(* ===== verification/Probe_Db.thy ===== *)
theory Probe_Db
  imports Complex_Main Probe_Domain
begin

section \<open>The tables of synthetic probing\<close>

text \<open>
  The statements of \<^verbatim>\<open>internal/db/probe_targets.sql.go\<close>, \<^verbatim>\<open>probe_results.sql.go\<close> and \<^verbatim>\<open>probe_tls_certs.sql.go\<close>
  over the tables of \<^verbatim>\<open>db/schema.sql\<close>: the \<^verbatim>\<open>UNIQUE\<close> and \<^verbatim>\<open>CHECK\<close> constraints are part of the statements that
  insert or update, and \<^verbatim>\<open>AUTOINCREMENT\<close> keys never come again.  A latency in milliseconds, a
  \<^verbatim>\<open>float64\<close>, is a rational number.
\<close>

record ProbeTarget =
  pt_ID :: int
  pt_Name :: string
  pt_Module :: string
  pt_Target :: string
  pt_IntervalSeconds :: int
  pt_TimeoutSeconds :: int
  pt_Enabled :: int
  pt_Notes :: string
  pt_LastRunAt :: string
  pt_LastStatus :: string
  pt_LastLatencyMs :: rat
  pt_LastError :: string
  pt_CreatedAt :: gotime
  pt_UpdatedAt :: gotime
  pt_Vantage :: string
  pt_Options :: string
  pt_DeviceID :: "int option"
  pt_Source :: string

record ProbeResult =
  pr_ID :: int
  pr_TargetID :: int
  pr_Status :: string
  pr_LatencyMs :: rat
  pr_StatusCode :: int
  pr_ErrorMessage :: string
  pr_TlsVersion :: string
  pr_CertNotAfter :: string
  pr_CertTrusted :: int
  pr_CheckedAt :: string
  pr_Vantage :: string

record ProbeTlsCert =
  pc_ID :: int
  pc_TargetID :: int
  pc_Port :: int
  pc_CertIndex :: int
  pc_SubjectCn :: string
  pc_SubjectOrg :: string
  pc_Subject :: string
  pc_IssuerCn :: string
  pc_IssuerOrg :: string
  pc_Issuer :: string
  pc_SanDns :: string
  pc_SanIp :: string
  pc_SanEmail :: string
  pc_Serial :: string
  pc_NotBefore :: string
  pc_NotAfter :: string
  pc_SigAlgorithm :: string
  pc_KeyAlgorithm :: string
  pc_KeyBits :: int
  pc_IsCa :: int
  pc_SelfSigned :: int
  pc_FingerprintSha256 :: string
  pc_Pem :: string
  pc_TlsVersion :: string
  pc_CipherSuite :: string
  pc_Trusted :: int
  pc_Error :: string

text \<open>The database as the probing code sees it; \<open>db_clock\<close> is what \<^verbatim>\<open>CURRENT_TIMESTAMP\<close> yields.\<close>

record probe_db = faults +
  db_targets :: "ProbeTarget list"
  db_target_seq :: int
  db_results :: "ProbeResult list"
  db_result_seq :: int
  db_certs :: "ProbeTlsCert list"
  db_cert_seq :: int
  db_devices :: "Device list"
  db_networks :: "Network list"
  db_agents :: "AgentStatus list"
  db_commands :: "AgentCommand list"
  db_command_seq :: int
  db_clock :: gotime

type_synonym 'a pprog = "(probe_db, 'a) prog"

subsection \<open>Constraints\<close>

definition target_check :: "ProbeTarget \<Rightarrow> bool" where
  "target_check t \<longleftrightarrow>
     ValidProbeModules (pt_Module t) \<and>
     10 \<le> pt_IntervalSeconds t \<and> pt_IntervalSeconds t \<le> 86400 \<and>
     1 \<le> pt_TimeoutSeconds t \<and> pt_TimeoutSeconds t \<le> 60 \<and>
     pt_LastStatus t \<in> set [[], ''success'', ''fail'', ''timeout''] \<and>
     pt_Source t \<in> set [''manual'', ''auto'', ''system'']"

definition result_check :: "ProbeResult \<Rightarrow> bool" where
  "result_check r \<longleftrightarrow>
     pr_Status r \<in> set [''success'', ''fail'', ''timeout''] \<and> pr_CertTrusted r \<in> set [- 1, 0, 1]"

definition target_by_id :: "probe_db \<Rightarrow> int \<Rightarrow> ProbeTarget option" where
  "target_by_id db i = find (\<lambda>t. pt_ID t = i) (db_targets db)"

text \<open>Writing a row back under its key, with both constraints.\<close>

definition put_target :: "ProbeTarget \<Rightarrow> ProbeTarget pprog" where
  "put_target t db =
     (if \<not> target_check t \<or> list_ex (\<lambda>u. pt_Name u = pt_Name t \<and> pt_ID u \<noteq> pt_ID t) (db_targets db)
      then (Inl ErrConstraint, db)
      else (Inr t, db\<lparr>db_targets := map (\<lambda>u. if pt_ID u = pt_ID t then t else u) (db_targets db)\<rparr>))"

subsection \<open>Targets\<close>

record CreateProbeTargetParams =
  cp_Name :: string
  cp_Module :: string
  cp_Target :: string
  cp_IntervalSeconds :: int
  cp_TimeoutSeconds :: int
  cp_Enabled :: int
  cp_Notes :: string
  cp_Vantage :: string
  cp_Options :: string
  cp_DeviceID :: "int option"
  cp_Source :: string

definition new_target :: "probe_db \<Rightarrow> CreateProbeTargetParams \<Rightarrow> ProbeTarget" where
  "new_target db arg =
     \<lparr>pt_ID = db_target_seq db + 1, pt_Name = cp_Name arg, pt_Module = cp_Module arg, pt_Target = cp_Target arg,
      pt_IntervalSeconds = cp_IntervalSeconds arg, pt_TimeoutSeconds = cp_TimeoutSeconds arg,
      pt_Enabled = cp_Enabled arg, pt_Notes = cp_Notes arg, pt_LastRunAt = [], pt_LastStatus = [],
      pt_LastLatencyMs = 0, pt_LastError = [], pt_CreatedAt = db_clock db, pt_UpdatedAt = db_clock db,
      pt_Vantage = cp_Vantage arg, pt_Options = cp_Options arg, pt_DeviceID = cp_DeviceID arg, pt_Source = cp_Source arg\<rparr>"

definition CreateProbeTarget :: "CreateProbeTargetParams \<Rightarrow> ProbeTarget pprog" where
  "CreateProbeTarget arg =
     stmt (\<lambda>db. let t = new_target db arg in
       if \<not> target_check t \<or> list_ex (\<lambda>u. pt_Name u = pt_Name t) (db_targets db) then (Inl ErrConstraint, db)
       else (Inr t, db\<lparr>db_targets := db_targets db @ [t], db_target_seq := pt_ID t\<rparr>))"

definition DeleteProbeTarget :: "int \<Rightarrow> int pprog" where
  "DeleteProbeTarget i =
     stmt (\<lambda>db. (Inr (int (length (filter (\<lambda>t. pt_ID t = i) (db_targets db)))),
                 db\<lparr>db_targets := filter (\<lambda>t. pt_ID t \<noteq> i) (db_targets db)\<rparr>))"

definition detach_row :: "gotime \<Rightarrow> ProbeTarget \<Rightarrow> ProbeTarget" where
  "detach_row now t =
     t\<lparr>pt_DeviceID := None, pt_Enabled := (if pt_Source t = ''auto'' then 0 else pt_Enabled t), pt_UpdatedAt := now\<rparr>"

definition DetachProbeTargetsFromDevice :: "int \<Rightarrow> int pprog" where
  "DetachProbeTargetsFromDevice d =
     stmt (\<lambda>db. (Inr (int (length (filter (\<lambda>t. pt_DeviceID t = Some d) (db_targets db)))),
       db\<lparr>db_targets := map (\<lambda>t. if pt_DeviceID t = Some d then detach_row (db_clock db) t else t) (db_targets db)\<rparr>))"

definition GetProbeTarget :: "int \<Rightarrow> ProbeTarget pprog" where
  "GetProbeTarget i =
     stmt (\<lambda>db. (case target_by_id db i of None \<Rightarrow> Inl ErrNoRows | Some t \<Rightarrow> Inr t, db))"

definition GetProbeTargetByName :: "string \<Rightarrow> ProbeTarget pprog" where
  "GetProbeTargetByName name =
     stmt (\<lambda>db. (case find (\<lambda>t. pt_Name t = name) (db_targets db) of None \<Rightarrow> Inl ErrNoRows | Some t \<Rightarrow> Inr t, db))"

definition ListEnabledProbeTargets :: "ProbeTarget list pprog" where
  "ListEnabledProbeTargets = stmt (get_state (\<lambda>db. filter (\<lambda>t. pt_Enabled t = 1) (db_targets db)))"

definition ListProbeTargets :: "ProbeTarget list pprog" where
  "ListProbeTargets = stmt (get_state (\<lambda>db. sort_by (\<lambda>a b. pt_ID a < pt_ID b) (db_targets db)))"

definition ListProbeTargetsByDevice :: "int \<Rightarrow> ProbeTarget list pprog" where
  "ListProbeTargetsByDevice d =
     stmt (get_state (\<lambda>db. sort_by (\<lambda>a b. pt_ID a < pt_ID b) (filter (\<lambda>t. pt_DeviceID t = Some d) (db_targets db))))"

text \<open>The pages of a result, with SQLite's reading of a negative limit or offset.\<close>

definition sql_page :: "int \<Rightarrow> int \<Rightarrow> 'a list \<Rightarrow> 'a list" where
  "sql_page limit offset rows =
     (let r = drop (nat offset) rows in if limit < 0 then r else take (nat limit) r)"

definition target_matches :: "string \<Rightarrow> ProbeTarget \<Rightarrow> bool" where
  "target_matches search t \<longleftrightarrow>
     search = [] \<or> contains_str (to_lower (pt_Name t)) (to_lower search) \<or>
     contains_str (to_lower (pt_Target t)) (to_lower search)"

definition ListProbeTargetsSearch :: "string \<Rightarrow> int \<Rightarrow> int \<Rightarrow> ProbeTarget list pprog" where
  "ListProbeTargetsSearch search limit offset =
     stmt (get_state (\<lambda>db. sql_page limit offset
       (sort_by (\<lambda>a b. pt_ID a < pt_ID b) (filter (target_matches search) (db_targets db)))))"

definition CountProbeTargetsSearch :: "string \<Rightarrow> int pprog" where
  "CountProbeTargetsSearch search =
     stmt (get_state (\<lambda>db. int (length (filter (target_matches search) (db_targets db)))))"

definition SetProbeTargetLastResult :: "string \<Rightarrow> string \<Rightarrow> rat \<Rightarrow> string \<Rightarrow> int \<Rightarrow> unit pprog" where
  "SetProbeTargetLastResult runAt status latency err i =
     stmt (\<lambda>db. case target_by_id db i of
        None \<Rightarrow> (Inr (), db)
      | Some t \<Rightarrow> seq (put_target (t\<lparr>pt_LastRunAt := runAt, pt_LastStatus := status, pt_LastLatencyMs := latency,
                    pt_LastError := err, pt_UpdatedAt := db_clock db\<rparr>)) (\<lambda>_. ret ()) db)"

definition ToggleProbeTargetEnabled :: "int \<Rightarrow> int \<Rightarrow> unit pprog" where
  "ToggleProbeTargetEnabled enabled i =
     stmt (\<lambda>db. case target_by_id db i of
        None \<Rightarrow> (Inr (), db)
      | Some t \<Rightarrow> seq (put_target (t\<lparr>pt_Enabled := enabled, pt_UpdatedAt := db_clock db\<rparr>)) (\<lambda>_. ret ()) db)"

record UpdateProbeTargetParams =
  ut_Name :: string
  ut_Module :: string
  ut_Target :: string
  ut_IntervalSeconds :: int
  ut_TimeoutSeconds :: int
  ut_Enabled :: int
  ut_Notes :: string
  ut_Vantage :: string
  ut_Options :: string
  ut_DeviceID :: "int option"
  ut_ID :: int

definition UpdateProbeTarget :: "UpdateProbeTargetParams \<Rightarrow> ProbeTarget pprog" where
  "UpdateProbeTarget arg =
     stmt (\<lambda>db. case target_by_id db (ut_ID arg) of
        None \<Rightarrow> (Inl ErrNoRows, db)
      | Some t \<Rightarrow>
          put_target (t\<lparr>pt_Name := ut_Name arg, pt_Module := ut_Module arg, pt_Target := ut_Target arg,
            pt_IntervalSeconds := ut_IntervalSeconds arg, pt_TimeoutSeconds := ut_TimeoutSeconds arg,
            pt_Enabled := ut_Enabled arg, pt_Notes := ut_Notes arg, pt_Vantage := ut_Vantage arg,
            pt_Options := ut_Options arg, pt_DeviceID := ut_DeviceID arg, pt_UpdatedAt := db_clock db\<rparr>) db)"

subsection \<open>Results\<close>

definition CreateProbeResult :: "ProbeResult \<Rightarrow> unit pprog" where
  "CreateProbeResult arg =
     stmt (\<lambda>db. let r = arg\<lparr>pr_ID := db_result_seq db + 1\<rparr> in
       if \<not> result_check r then (Inl ErrConstraint, db)
       else (Inr (), db\<lparr>db_results := db_results db @ [r], db_result_seq := pr_ID r\<rparr>))"

definition DeleteProbeResultsByTarget :: "int \<Rightarrow> int pprog" where
  "DeleteProbeResultsByTarget i =
     stmt (\<lambda>db. (Inr (int (length (filter (\<lambda>r. pr_TargetID r = i) (db_results db)))),
                 db\<lparr>db_results := filter (\<lambda>r. pr_TargetID r \<noteq> i) (db_results db)\<rparr>))"

definition result_matches :: "int \<Rightarrow> string \<Rightarrow> ProbeResult \<Rightarrow> bool" where
  "result_matches i vantage r \<longleftrightarrow> pr_TargetID r = i \<and> (vantage = [] \<or> pr_Vantage r = vantage)"

definition newer :: "ProbeResult \<Rightarrow> ProbeResult \<Rightarrow> bool" where
  "newer a b \<longleftrightarrow> str_less (pr_CheckedAt b) (pr_CheckedAt a) \<or> pr_CheckedAt a = pr_CheckedAt b \<and> pr_ID b < pr_ID a"

definition ListProbeResultsByTarget :: "int \<Rightarrow> string \<Rightarrow> int \<Rightarrow> int \<Rightarrow> ProbeResult list pprog" where
  "ListProbeResultsByTarget i vantage limit offset =
     stmt (get_state (\<lambda>db. sql_page limit offset (sort_by newer (filter (result_matches i vantage) (db_results db)))))"

definition CountProbeResultsByTarget :: "int \<Rightarrow> string \<Rightarrow> int pprog" where
  "CountProbeResultsByTarget i vantage =
     stmt (get_state (\<lambda>db. int (length (filter (result_matches i vantage) (db_results db)))))"

definition LatestProbeResultsPerVantage :: "int \<Rightarrow> ProbeResult list pprog" where
  "LatestProbeResultsPerVantage i =
     stmt (get_state (\<lambda>db. let rows = filter (\<lambda>r. pr_TargetID r = i) (db_results db) in
       sort_by (\<lambda>a b. str_less (pr_Vantage a) (pr_Vantage b))
         (filter (\<lambda>p. list_all (\<lambda>q. pr_Vantage q = pr_Vantage p \<longrightarrow> pr_ID q \<le> pr_ID p) rows) rows)))"

definition ListProbeResultsSince :: "string \<Rightarrow> ProbeResult list pprog" where
  "ListProbeResultsSince cutoff =
     stmt (get_state (\<lambda>db. sort_by (\<lambda>a b. newer b a) (filter (\<lambda>r. \<not> str_less (pr_CheckedAt r) cutoff) (db_results db))))"

subsection \<open>Certificates, devices, networks and agents\<close>

definition CreateProbeTLSCert :: "ProbeTlsCert \<Rightarrow> unit pprog" where
  "CreateProbeTLSCert arg =
     stmt (\<lambda>db. let c = arg\<lparr>pc_ID := db_cert_seq db + 1\<rparr> in
       (Inr (), db\<lparr>db_certs := db_certs db @ [c], db_cert_seq := pc_ID c\<rparr>))"

definition DeleteProbeTLSCertsByTarget :: "int \<Rightarrow> int pprog" where
  "DeleteProbeTLSCertsByTarget i =
     stmt (\<lambda>db. (Inr (int (length (filter (\<lambda>c. pc_TargetID c = i) (db_certs db)))),
                 db\<lparr>db_certs := filter (\<lambda>c. pc_TargetID c \<noteq> i) (db_certs db)\<rparr>))"

definition GetDevice :: "int \<Rightarrow> Device pprog" where
  "GetDevice i =
     stmt (\<lambda>db. (case find (\<lambda>d. dev_ID d = i) (db_devices db) of None \<Rightarrow> Inl ErrNoRows | Some d \<Rightarrow> Inr d, db))"

definition ListDevicesForProbeAutogen :: "Device list pprog" where
  "ListDevicesForProbeAutogen =
     stmt (get_state (\<lambda>db. sort_by (\<lambda>a b. dev_ID a < dev_ID b)
       (filter (\<lambda>d. dev_DetectedServices d \<noteq> ''[]'' \<and> dev_DetectedServices d \<noteq> []) (db_devices db))))"

definition ListNetworks :: "Network list pprog" where
  "ListNetworks = stmt (get_state (\<lambda>db. sort_by (\<lambda>a b. net_ID a < net_ID b) (db_networks db)))"

definition ListAgentStatus :: "AgentStatus list pprog" where
  "ListAgentStatus = stmt (get_state (\<lambda>db. sort_by (\<lambda>a b. as_LastReportAt a < as_LastReportAt b) (db_agents db)))"

subsection \<open>What the statements keep\<close>

text \<open>
  Keys are positive, unique and not above the sequence counter, names are unique, every row satisfies its checks.
\<close>

definition targets_ok :: "probe_db \<Rightarrow> bool" where
  "targets_ok db \<longleftrightarrow>
     distinct (map pt_ID (db_targets db)) \<and> distinct (map pt_Name (db_targets db)) \<and>
     0 \<le> db_target_seq db \<and>
     list_all (\<lambda>t. target_check t \<and> 0 < pt_ID t \<and> pt_ID t \<le> db_target_seq db) (db_targets db)"

definition results_ok :: "probe_db \<Rightarrow> bool" where
  "results_ok db \<longleftrightarrow>
     sorted_wrt (\<lambda>a b. pr_ID a < pr_ID b) (db_results db) \<and>
     list_all (\<lambda>r. result_check r \<and> pr_ID r \<le> db_result_seq db) (db_results db)"

definition certs_ok :: "probe_db \<Rightarrow> bool" where
  "certs_ok db \<longleftrightarrow>
     sorted_wrt (\<lambda>a b. pc_ID a < pc_ID b) (db_certs db) \<and> list_all (\<lambda>c. pc_ID c \<le> db_cert_seq db) (db_certs db)"

definition probe_inv :: "probe_db \<Rightarrow> bool" where
  "probe_inv db \<longleftrightarrow> targets_ok db \<and> results_ok db \<and> certs_ok db"

text \<open>A property that does not look at the failures to come is kept by every statement that only reads.\<close>

definition fault_free :: "(probe_db \<Rightarrow> bool) \<Rightarrow> bool" where
  "fault_free P \<longleftrightarrow> (\<forall>db fs. P db \<longrightarrow> P (db\<lparr>db_faults := fs\<rparr>))"

lemma keeps_pstmt: "fault_free P \<Longrightarrow> keeps P m \<Longrightarrow> keeps P (stmt m)"
  by (intro keeps_stmt) (simp_all add: fault_free_def)

lemma probe_inv_fault_free [keeps_intros]: "fault_free probe_inv"
  by (simp add: fault_free_def probe_inv_def targets_ok_def results_ok_def certs_ok_def)

lemma keeps_read: "keeps P (\<lambda>db. (f db, db))"
  by (simp add: keeps_def)

lemma keeps_reads [keeps_intros]:
  assumes "fault_free P"
  shows "keeps P (GetProbeTarget i)" "keeps P (GetProbeTargetByName n)" "keeps P ListEnabledProbeTargets"
    "keeps P ListProbeTargets" "keeps P (ListProbeTargetsByDevice d)" "keeps P (ListProbeTargetsSearch q l k)"
    "keeps P (CountProbeTargetsSearch q)" "keeps P (ListProbeResultsByTarget i v l k)"
    "keeps P (CountProbeResultsByTarget i v)" "keeps P (LatestProbeResultsPerVantage i)" "keeps P (ListProbeResultsSince c)"
    "keeps P (GetDevice i)" "keeps P ListDevicesForProbeAutogen" "keeps P ListNetworks" "keeps P ListAgentStatus"
  unfolding GetProbeTarget_def GetProbeTargetByName_def ListEnabledProbeTargets_def ListProbeTargets_def
    ListProbeTargetsByDevice_def ListProbeTargetsSearch_def CountProbeTargetsSearch_def ListProbeResultsByTarget_def
    CountProbeResultsByTarget_def LatestProbeResultsPerVantage_def ListProbeResultsSince_def GetDevice_def
    ListDevicesForProbeAutogen_def ListNetworks_def ListAgentStatus_def
  by (rule keeps_pstmt [OF assms keeps_read] keeps_pstmt [OF assms keeps_get_state])+

lemma put_target_map:
  assumes "distinct (map pt_ID ts)" "distinct (map pt_Name ts)"
    "\<And>u. u \<in> set ts \<Longrightarrow> pt_Name u = pt_Name t \<Longrightarrow> pt_ID u = pt_ID t"
  shows "distinct (map pt_Name (map (\<lambda>u. if pt_ID u = pt_ID t then t else u) ts))"
proof -
  let ?f = "\<lambda>u. if pt_ID u = pt_ID t then t else u"
  have "u = v" if "u \<in> set ts" "v \<in> set ts" "pt_Name (?f u) = pt_Name (?f v)" for u v
  proof -
    have "pt_ID u = pt_ID v \<or> pt_Name u = pt_Name v"
      using that assms(3) [of u] assms(3) [of v] by (simp split: if_splits)
    then show ?thesis using that(1,2) assms(1,2) by (auto simp: distinct_map inj_on_def)
  qed
  then show ?thesis using assms(1) by (auto simp: distinct_map inj_on_def)
qed

lemma map_put_ids: "map pt_ID (map (\<lambda>u. if pt_ID u = pt_ID t then t else u) ts) = map pt_ID ts"
  by (induction ts) auto

lemma put_target_targets_ok:
  assumes "targets_ok db" "pt_ID t \<in> pt_ID ` set (db_targets db)"
  shows "targets_ok (snd (put_target t db))"
proof (cases "\<not> target_check t \<or> list_ex (\<lambda>u. pt_Name u = pt_Name t \<and> pt_ID u \<noteq> pt_ID t) (db_targets db)")
  case False
  have "0 < pt_ID t \<and> pt_ID t \<le> db_target_seq db" using assms by (auto simp: targets_ok_def list_all_iff)
  moreover have "distinct (map pt_Name (map (\<lambda>u. if pt_ID u = pt_ID t then t else u) (db_targets db)))"
    using assms(1) False by (intro put_target_map) (auto simp: targets_ok_def list_ex_iff)
  ultimately show ?thesis using assms(1) False map_put_ids [of t "db_targets db"]
    by (auto simp: put_target_def targets_ok_def list_all_iff simp del: map_map)
qed (use assms in \<open>simp add: put_target_def\<close>)

lemma put_target_frame: "results_ok (snd (put_target t db)) = results_ok db" "certs_ok (snd (put_target t db)) = certs_ok db"
  by (simp_all add: put_target_def results_ok_def certs_ok_def)

lemma put_target_inv:
  "probe_inv db \<Longrightarrow> pt_ID t \<in> pt_ID ` set (db_targets db) \<Longrightarrow> probe_inv (snd (put_target t db))"
  using put_target_targets_ok put_target_frame by (simp add: probe_inv_def)

lemma target_by_id_SomeD: "target_by_id db i = Some t \<Longrightarrow> t \<in> set (db_targets db) \<and> pt_ID t = i"
  by (auto simp: target_by_id_def find_Some_iff)

lemma target_by_id_mem: "target_by_id db i = Some t \<Longrightarrow> i \<in> pt_ID ` set (db_targets db)"
  using target_by_id_SomeD by blast

lemma snd_seq_ret: "snd (seq m (\<lambda>x. ret y) s) = snd (m s)"
  by (auto simp: seq_def ret_def split: prod.splits sum.splits)

lemma keeps_put:
  "keeps probe_inv (\<lambda>db. case target_by_id db i of None \<Rightarrow> (r, db) | Some t \<Rightarrow> put_target (f db t) db)"
  if "\<And>db t. pt_ID (f db t) = pt_ID t"
  using put_target_inv target_by_id_SomeD that by (fastforce simp: keeps_def split: option.splits)

lemmas probe_ok_defs = probe_inv_def targets_ok_def results_ok_def certs_ok_def

lemma keeps_CreateProbeTarget [keeps_intros]: "keeps probe_inv (CreateProbeTarget arg)"
  unfolding CreateProbeTarget_def
  by (rule keeps_pstmt [OF probe_inv_fault_free])
    (auto simp: keeps_def Let_def probe_ok_defs new_target_def list_all_iff list_ex_iff)

lemma keeps_deletes [keeps_intros]:
  "keeps probe_inv (DeleteProbeTarget i)" "keeps probe_inv (DeleteProbeResultsByTarget i)"
  "keeps probe_inv (DeleteProbeTLSCertsByTarget i)"
  unfolding DeleteProbeTarget_def DeleteProbeResultsByTarget_def DeleteProbeTLSCertsByTarget_def
  by (rule keeps_pstmt [OF probe_inv_fault_free];
      auto simp: keeps_def probe_ok_defs list_all_iff distinct_map_filter intro: sorted_wrt_filter)+

lemma keeps_CreateProbeResult [keeps_intros]: "keeps probe_inv (CreateProbeResult arg)"
  unfolding CreateProbeResult_def
  by (rule keeps_pstmt [OF probe_inv_fault_free])
    (auto simp: keeps_def Let_def probe_ok_defs result_check_def list_all_iff sorted_wrt_append)

lemma keeps_CreateProbeTLSCert [keeps_intros]: "keeps probe_inv (CreateProbeTLSCert arg)"
  unfolding CreateProbeTLSCert_def
  by (rule keeps_pstmt [OF probe_inv_fault_free])
    (auto simp: keeps_def Let_def probe_ok_defs list_all_iff sorted_wrt_append)

lemma snd_case_seq_ret:
  "snd (case r of None \<Rightarrow> (Inr (), db) | Some t \<Rightarrow> seq (m t) (\<lambda>_. ret ()) db) =
   snd (case r of None \<Rightarrow> (Inl ErrNoRows, db) | Some t \<Rightarrow> m t db)"
  by (cases r) (simp_all add: snd_seq_ret)

lemma keeps_updates [keeps_intros]:
  "keeps probe_inv (UpdateProbeTarget arg)" "keeps probe_inv (ToggleProbeTargetEnabled e i)"
  "keeps probe_inv (SetProbeTargetLastResult a b c d i)"
proof -
  show "keeps probe_inv (UpdateProbeTarget arg)"
    unfolding UpdateProbeTarget_def by (intro keeps_pstmt probe_inv_fault_free keeps_put) simp
  have toggle: "keeps probe_inv (\<lambda>db. case target_by_id db i of None \<Rightarrow> (Inl ErrNoRows, db)
      | Some t \<Rightarrow> put_target (t\<lparr>pt_Enabled := e, pt_UpdatedAt := db_clock db\<rparr>) db)" by (rule keeps_put) simp
  then show "keeps probe_inv (ToggleProbeTargetEnabled e i)"
    unfolding ToggleProbeTargetEnabled_def by (intro keeps_pstmt probe_inv_fault_free) (simp add: keeps_def snd_case_seq_ret)
  have "keeps probe_inv (\<lambda>db. case target_by_id db i of None \<Rightarrow> (Inl ErrNoRows, db)
      | Some t \<Rightarrow> put_target (t\<lparr>pt_LastRunAt := a, pt_LastStatus := b, pt_LastLatencyMs := c, pt_LastError := d,
          pt_UpdatedAt := db_clock db\<rparr>) db)" by (rule keeps_put) simp
  then show "keeps probe_inv (SetProbeTargetLastResult a b c d i)"
    unfolding SetProbeTargetLastResult_def by (intro keeps_pstmt probe_inv_fault_free) (simp add: keeps_def snd_case_seq_ret)
qed

lemma detach_row_simps [simp]:
  "pt_ID (detach_row now t) = pt_ID t" "pt_Name (detach_row now t) = pt_Name t"
  "target_check (detach_row now t) = target_check t"
  by (simp_all add: detach_row_def target_check_def)

lemma keeps_Detach [keeps_intros]: "keeps probe_inv (DetachProbeTargetsFromDevice d)"
proof -
  have "map pt_ID (map (\<lambda>t. if c t then detach_row now t else t) ts) = map pt_ID ts"
    "map pt_Name (map (\<lambda>t. if c t then detach_row now t else t) ts) = map pt_Name ts"
    "list_all (\<lambda>t. target_check t \<and> 0 < pt_ID t \<and> pt_ID t \<le> k) (map (\<lambda>t. if c t then detach_row now t else t) ts) =
     list_all (\<lambda>t. target_check t \<and> 0 < pt_ID t \<and> pt_ID t \<le> k) ts" for now c k ts
    by (induction ts) auto
  then have "probe_inv (db\<lparr>db_targets := map (\<lambda>t. if c t then detach_row now t else t) (db_targets db)\<rparr>)" if "probe_inv db" for db c now
    using that by (simp add: probe_ok_defs del: map_map list.pred_map)
  then show ?thesis unfolding DetachProbeTargetsFromDevice_def
    by (intro keeps_pstmt probe_inv_fault_free) (simp add: keeps_def)
qed

subsection \<open>What a statement does\<close>

text \<open>It fails, or runs; either way it uses up at most one of the failures to come.\<close>

definition quiet :: "probe_db \<Rightarrow> probe_db \<Rightarrow> bool" where
  "quiet db db' \<longleftrightarrow> (\<exists>fs. db' = db\<lparr>db_faults := fs\<rparr>)"

lemma quiet_same [simp]: "quiet db db"
  by (auto simp: quiet_def intro: exI [of _ "db_faults db"])

lemma quiet_faults [simp]: "quiet db (db\<lparr>db_faults := fs\<rparr>)"
  by (auto simp: quiet_def)

lemma stmt_effect:
  "stmt m db = (r, db') \<Longrightarrow> r = Inl ErrDatabase \<and> quiet db db' \<or> (\<exists>fs. m (db\<lparr>db_faults := fs\<rparr>) = (r, db'))"
proof (cases "db_faults db")
  case Nil
  assume "stmt m db = (r, db')"
  then have "m db = (r, db')" using Nil by (simp add: stmt_def)
  moreover have "db\<lparr>db_faults := db_faults db\<rparr> = db" by simp
  ultimately show ?thesis by metis
qed (auto simp: stmt_def split: if_splits)

lemma read_effect: "stmt (get_state f) db = (r, db') \<Longrightarrow> quiet db db'"
  using stmt_effect [of "get_state f" db r db'] by (auto simp: get_state_def)

end
