(* ===== verification/Go_Time.thy ===== *)
theory Go_Time
  imports Go_Lib
begin

section \<open>Package time: instants in the RFC 3339 layout\<close>

text \<open>
  \<^verbatim>\<open>Format(time.RFC3339)\<close> of an instant in UTC and \<^verbatim>\<open>Parse(time.RFC3339, s)\<close>.  The calendar is the
  proleptic Gregorian one, counted in eras of 400 years that start on the first of March.
\<close>

definition civil :: "int \<Rightarrow> int \<times> int \<times> int" where
  "civil days =
     (let z = days + 719468; era = z div 146097; doe = z mod 146097;
          yoe = (doe - doe div 1460 + doe div 36524 - doe div 146096) div 365;
          doy = doe - (365 * yoe + yoe div 4 - yoe div 100);
          mp = (5 * doy + 2) div 153; d = doy - (153 * mp + 2) div 5 + 1;
          m = (if mp < 10 then mp + 3 else mp - 9)
      in (yoe + era * 400 + (if m \<le> 2 then 1 else 0), m, d))"

definition days_of :: "int \<Rightarrow> int \<Rightarrow> int \<Rightarrow> int" where
  "days_of y m d =
     (let y' = (if m \<le> 2 then y - 1 else y); era = y' div 400; yoe = y' mod 400;
          doy = (153 * (if 2 < m then m - 3 else m + 9) + 2) div 5 + d - 1;
          doe = yoe * 365 + yoe div 4 - yoe div 100 + doy
      in era * 146097 + doe - 719468)"

definition pad :: "nat \<Rightarrow> int \<Rightarrow> string" where
  "pad w n = (let s = string_of_nat (nat n) in replicate (w - length s) (CHR ''0'') @ s)"

definition format_rfc3339 :: "gotime \<Rightarrow> string" where
  "format_rfc3339 t =
     (let secs = t div 1000000000; (y, m, d) = civil (secs div 86400); tod = secs mod 86400
      in (if y < 0 then ''-'' @ pad 4 (- y) else pad 4 y) @ ''-'' @ pad 2 m @ ''-'' @ pad 2 d @ ''T'' @
         pad 2 (tod div 3600) @ '':'' @ pad 2 (tod div 60 mod 60) @ '':'' @ pad 2 (tod mod 60) @ ''Z'')"

text \<open>A field of exactly \<open>w\<close> digits, a literal byte, and the optional fraction of a second.\<close>

definition num_field :: "nat \<Rightarrow> string \<Rightarrow> (int \<times> string) option" where
  "num_field w s =
     (case digits_val (take w s) of
        Some n \<Rightarrow> if length s < w then None else Some (int n, drop w s)
      | None \<Rightarrow> None)"

definition lit_field :: "char \<Rightarrow> string \<Rightarrow> string option" where
  "lit_field c s = (case s of x # xs \<Rightarrow> if x = c then Some xs else None | [] \<Rightarrow> None)"

text \<open>The hour may have a single digit: the layout element \<^verbatim>\<open>15\<close> accepts one or two.\<close>

definition hour_field :: "string \<Rightarrow> (int \<times> string) option" where
  "hour_field s = (case num_field 2 s of Some r \<Rightarrow> Some r | None \<Rightarrow> num_field 1 s)"

definition frac_field :: "string \<Rightarrow> (int \<times> string) option" where
  "frac_field s =
     (case s of
        c # s' \<Rightarrow>
          (if (c = CHR ''.'' \<or> c = CHR '','') \<and> s' \<noteq> [] \<and> is_digit (hd s') then
             (let ds = takeWhile is_digit s'; nine = take 9 (ds @ replicate 9 (CHR ''0''))
              in map_option (\<lambda>n. (int n, dropWhile is_digit s')) (digits_val nine))
           else Some (0, s))
      | [] \<Rightarrow> Some (0, []))"

definition zone_field :: "string \<Rightarrow> int option" where
  "zone_field s =
     (if s = ''Z'' then Some 0
      else case s of
             c # s1 \<Rightarrow>
               (if c = CHR ''+'' \<or> c = CHR ''-'' then
                  (case num_field 2 s1 of None \<Rightarrow> None | Some (hh, s2) \<Rightarrow>
                   (case lit_field (CHR '':'') s2 of None \<Rightarrow> None | Some s3 \<Rightarrow>
                    (case num_field 2 s3 of None \<Rightarrow> None | Some (mm, s4) \<Rightarrow>
                       if s4 \<noteq> [] \<or> 24 < hh \<or> 60 < mm then None
                       else Some ((if c = CHR ''-'' then - 1 else 1) * (hh * 3600 + mm * 60)))))
                else None)
           | [] \<Rightarrow> None)"

definition is_leap :: "int \<Rightarrow> bool" where
  "is_leap y \<longleftrightarrow> y mod 4 = 0 \<and> (y mod 100 \<noteq> 0 \<or> y mod 400 = 0)"

definition days_in :: "int \<Rightarrow> int \<Rightarrow> int" where
  "days_in y m = (if m = 2 then (if is_leap y then 29 else 28) else if m = 4 \<or> m = 6 \<or> m = 9 \<or> m = 11 then 30 else 31)"

definition parse_rfc3339 :: "string \<Rightarrow> gotime option" where
  "parse_rfc3339 s =
     (case num_field 4 s of None \<Rightarrow> None | Some (y, s) \<Rightarrow>
      (case lit_field (CHR ''-'') s of None \<Rightarrow> None | Some s \<Rightarrow>
       (case num_field 2 s of None \<Rightarrow> None | Some (mo, s) \<Rightarrow>
        (case lit_field (CHR ''-'') s of None \<Rightarrow> None | Some s \<Rightarrow>
         (case num_field 2 s of None \<Rightarrow> None | Some (d, s) \<Rightarrow>
          (case lit_field (CHR ''T'') s of None \<Rightarrow> None | Some s \<Rightarrow>
           (case hour_field s of None \<Rightarrow> None | Some (h, s) \<Rightarrow>
            (case lit_field (CHR '':'') s of None \<Rightarrow> None | Some s \<Rightarrow>
             (case num_field 2 s of None \<Rightarrow> None | Some (mi, s) \<Rightarrow>
              (case lit_field (CHR '':'') s of None \<Rightarrow> None | Some s \<Rightarrow>
               (case num_field 2 s of None \<Rightarrow> None | Some (sec, s) \<Rightarrow>
                (case frac_field s of None \<Rightarrow> None | Some (ns, s) \<Rightarrow>
                 (case zone_field s of None \<Rightarrow> None | Some off \<Rightarrow>
                    if mo < 1 \<or> 12 < mo \<or> d < 1 \<or> days_in y mo < d \<or> 23 < h \<or> 59 < mi \<or> 59 < sec then None
                    else Some ((days_of y mo d * 86400 + h * 3600 + mi * 60 + sec - off) * 1000000000 + ns))))))))))))))"

end
