(* ===== verification/Liveness.thy ===== *)
theory Liveness
  imports Go_Lib
begin

section \<open>The contract of a liveness state machine\<close>

text \<open>
  The probe engine's transition detector and the agent sweeper are the same kind of machine.  Each
  holds, per key, whether the key is declared down; an observation of a key may declare a change, and
  keys that are gone are dropped from time to time.  This theory states what a machine of that kind
  promises, and proves once what its events then look like.
\<close>

datatype ('k, 'o) live_act = Observe 'k 'o | Keep "'k \<Rightarrow> bool"

text \<open>
  A step returns the declaration it makes, if any: \<^term>\<open>Some True\<close> that the key went down,
  \<^term>\<open>Some False\<close> that it recovered.  A run lists the declarations with their keys.
\<close>

definition live_step ::
    "('s \<Rightarrow> 'k \<Rightarrow> 'o \<Rightarrow> bool option \<times> 's) \<Rightarrow> ('s \<Rightarrow> ('k \<Rightarrow> bool) \<Rightarrow> 's) \<Rightarrow> ('k, 'o) live_act \<Rightarrow> 's \<Rightarrow> ('k \<times> bool) list \<times> 's" where
  "live_step step prune a s =
     (case a of
        Observe k ob \<Rightarrow> (case step s k ob of (None, s') \<Rightarrow> ([], s') | (Some b, s') \<Rightarrow> ([(k, b)], s'))
      | Keep P \<Rightarrow> ([], prune s P))"

fun live_run ::
    "('s \<Rightarrow> 'k \<Rightarrow> 'o \<Rightarrow> bool option \<times> 's) \<Rightarrow> ('s \<Rightarrow> ('k \<Rightarrow> bool) \<Rightarrow> 's) \<Rightarrow> ('k, 'o) live_act list \<Rightarrow> 's \<Rightarrow> ('k \<times> bool) list \<times> 's" where
  "live_run step prune [] s = ([], s)"
| "live_run step prune (a # as) s =
     (let (es, s1) = live_step step prune a s; (fs, s2) = live_run step prune as s1 in (es @ fs, s2))"

lemma live_run_Cons:
  "live_run step prune (a # as) s =
    (fst (live_step step prune a s) @ fst (live_run step prune as (snd (live_step step prune a s))),
     snd (live_run step prune as (snd (live_step step prune a s))))"
  by (simp add: split_beta Let_def)

lemma live_run_append:
  "live_run step prune (xs @ ys) s =
    (fst (live_run step prune xs s) @ fst (live_run step prune ys (snd (live_run step prune xs s))),
     snd (live_run step prune ys (snd (live_run step prune xs s))))"
  by (induction xs arbitrary: s) (simp_all add: split_beta Let_def)

declare live_run.simps(2) [simp del]

text \<open>The declarations about one key.\<close>

definition of_key :: "'k \<Rightarrow> ('k \<times> bool) list \<Rightarrow> bool list" where
  "of_key k es = map snd (filter (\<lambda>e. fst e = k) es)"

lemma of_key_simps [simp]: "of_key k [] = []" "of_key k (es @ fs) = of_key k es @ of_key k fs"
  "of_key k (e # es) = (if fst e = k then snd e # of_key k es else of_key k es)"
  by (simp_all add: of_key_def)

text \<open>A key that no pruning of a run drops.\<close>

definition never_dropped :: "'k \<Rightarrow> ('k, 'o) live_act list \<Rightarrow> bool" where
  "never_dropped k acts \<longleftrightarrow> (\<forall>P. Keep P \<in> set acts \<longrightarrow> P k)"

lemma never_dropped_simps [simp]:
  "never_dropped k []" "never_dropped k (Observe k' ob # acts) = never_dropped k acts"
  "never_dropped k (Keep P # acts) \<longleftrightarrow> P k \<and> never_dropped k acts"
  "never_dropped k (as @ bs) \<longleftrightarrow> never_dropped k as \<and> never_dropped k bs"
  by (auto simp: never_dropped_def)

lemma never_dropped_Cons: "never_dropped k (a # acts) \<Longrightarrow> never_dropped k acts"
  by (cases a) simp_all

locale liveness =
  fixes step :: "'s \<Rightarrow> 'k \<Rightarrow> 'o \<Rightarrow> bool option \<times> 's"
    and prune :: "'s \<Rightarrow> ('k \<Rightarrow> bool) \<Rightarrow> 's"
    and down :: "'s \<Rightarrow> 'k \<rightharpoonup> bool"
  assumes step_other: "k' \<noteq> k \<Longrightarrow> down (snd (step s k ob)) k' = down s k'"
    and step_declares: "fst (step s k ob) = Some b \<Longrightarrow> down s k \<noteq> Some b \<and> down (snd (step s k ob)) k = Some b"
    and step_silent: "fst (step s k ob) = None \<Longrightarrow> down s k = Some b \<Longrightarrow> down (snd (step s k ob)) k = Some b"
    and prune_keeps: "P k \<Longrightarrow> down (prune s P) k = down s k"
    and prune_drops: "\<not> P k \<Longrightarrow> down (prune s P) k = None"
begin

text \<open>A key that is never dropped is declared down and recovered in turns, starting from the state it is in.\<close>

lemma declarations_alternate:
  assumes "never_dropped k acts"
  shows "distinct_adj (of_key k (fst (live_run step prune acts s))) \<and>
    (\<forall>b bs. of_key k (fst (live_run step prune acts s)) = b # bs \<longrightarrow> down s k \<noteq> Some b)"
  using assms
proof (induction acts arbitrary: s)
  case (Cons a acts)
  let ?s = "snd (live_step step prune a s)"
  have IH: "distinct_adj (of_key k (fst (live_run step prune acts ?s)))"
    "\<And>b bs. of_key k (fst (live_run step prune acts ?s)) = b # bs \<Longrightarrow> down ?s k \<noteq> Some b"
    using Cons.IH [OF never_dropped_Cons [OF Cons.prems]] by auto
  show ?case
  proof (cases "of_key k (fst (live_step step prune a s))")
    case Nil
    have same: "down ?s k = Some b" if "down s k = Some b" for b
    proof (cases a)
      case (Observe k' ob)
      show ?thesis
      proof (cases "k' = k")
        case True
        then have "fst (step s k ob) = None" using Nil Observe by (auto simp: live_step_def split: prod.splits option.splits)
        then show ?thesis using that True Observe step_silent [of s k ob b]
          by (auto simp: live_step_def split: prod.splits option.splits)
      next
        case False
        then show ?thesis using that Observe step_other [of k k' s ob] by (auto simp: live_step_def split: prod.splits option.splits)
      qed
    next
      case (Keep P)
      then show ?thesis using that Cons.prems prune_keeps [of P k s] by (simp add: live_step_def)
    qed
    show ?thesis using IH Nil same by (auto simp: live_run_Cons)
  next
    case (Cons b bs)
    then obtain ob where a: "a = Observe k ob" "fst (step s k ob) = Some b" "bs = []" "?s = snd (step s k ob)"
      by (cases a) (auto simp: live_step_def split: prod.splits option.splits if_splits)
    have "down s k \<noteq> Some b" "down ?s k = Some b" using step_declares [OF a(2)] a(4) by simp_all
    then show ?thesis using IH Cons a(3)
      by (cases "of_key k (fst (live_run step prune acts ?s))") (auto simp: live_run_Cons)
  qed
qed simp

text \<open>The last declaration about a key is the state it is in, as long as the key is not dropped.\<close>

lemma last_declaration:
  assumes "never_dropped k acts" "of_key k (fst (live_run step prune acts s)) \<noteq> []"
  shows "down (snd (live_run step prune acts s)) k = Some (last (of_key k (fst (live_run step prune acts s))))"
  using assms
proof (induction acts rule: rev_induct)
  case (snoc a acts)
  let ?s = "snd (live_run step prune acts s)"
  let ?es = "fst (live_run step prune acts s)"
  have run: "live_run step prune (acts @ [a]) s = (?es @ fst (live_step step prune a ?s), snd (live_step step prune a ?s))"
    by (simp add: live_run_append live_run_Cons)
  have IH: "down ?s k = Some (last (of_key k ?es))" if "of_key k ?es \<noteq> []" using snoc that by simp
  show ?case
  proof (cases a)
    case (Keep P)
    then show ?thesis using snoc.prems IH prune_keeps [of P k ?s] unfolding run by (simp add: live_step_def)
  next
    case (Observe k' ob)
    show ?thesis
    proof (cases "k' = k")
      case False
      then show ?thesis using Observe snoc.prems(2) IH step_other [of k k' ?s ob] unfolding run
        by (auto simp: live_step_def split: prod.splits option.splits)
    next
      case True
      then show ?thesis
        using Observe snoc.prems(2) IH step_declares [of ?s k ob] step_silent [of ?s k ob] unfolding run
        by (cases "step ?s k ob"; cases "fst (step ?s k ob)") (auto simp: live_step_def)
    qed
  qed
qed simp

end

end
