(* ===== verification/Agent_Watch.thy ===== *)
theory Agent_Watch
  imports Change_Detect Probe_Db Go_Time Liveness
begin

section \<open>Package agentwatch: the liveness of the agents\<close>

text \<open>
  \<^verbatim>\<open>internal/service/agentwatch/sweeper.go\<close>.  A sweep lists the agents, declares the ones whose last report is
  older than the threshold offline and the ones that report again recovered, and forgets agents that
  are gone.  A sweep whose listing fails does nothing.  The recorder is an interface: the events a
  sweep hands to it are the sweep's output.
\<close>

definition sweepInterval :: duration where "sweepInterval = 30 * second"
definition defaultOfflineThreshold :: duration where "defaultOfflineThreshold = 10 * minute"

record Sweeper =
  sw_recorder :: bool
  sw_threshold :: duration
  sw_offline :: "string \<rightharpoonup> bool"

definition NewSweeper :: "bool \<Rightarrow> Sweeper" where
  "NewSweeper recorder = \<lparr>sw_recorder = recorder, sw_threshold = defaultOfflineThreshold, sw_offline = Map.empty\<rparr>"

definition WithOfflineThreshold :: "int \<Rightarrow> Sweeper \<Rightarrow> Sweeper" where
  "WithOfflineThreshold minutes s =
     (let m = (if minutes \<le> 0 then 10 else minutes) in s\<lparr>sw_threshold := i64 (m * minute)\<rparr>)"

type_synonym snapshot = "(string \<times> jany) list"

definition agent_stale :: "duration \<Rightarrow> gotime \<Rightarrow> AgentStatus \<Rightarrow> bool" where
  "agent_stale threshold now row \<longleftrightarrow> threshold < time_sub now (as_LastReportAt row)"

definition agent_event :: "bool \<Rightarrow> AgentStatus \<Rightarrow> snapshot ChangeEvent" where
  "agent_event stale row =
     \<lparr>ev_ChangeType = (if stale then ChangeTypeAgentOffline else ChangeTypeAgentRecovered),
      ev_EntityType = EntityTypeAgent, ev_Severity = [], ev_DeviceID = 0, ev_NetworkID = None,
      ev_AgentID = as_AgentID row, ev_Before = None,
      ev_After = Some [(''agent_id'', AStr (as_AgentID row)), (''hostname'', AStr (as_Hostname row)),
        (''version'', AStr (as_Version row)), (''last_report_at'', AStr (format_rfc3339 (as_LastReportAt row)))]\<rparr>"

text \<open>One row of the listing: the machine's step, and the event for the recorder if there is one.\<close>

definition offline_step :: "(string \<rightharpoonup> bool) \<Rightarrow> string \<Rightarrow> bool \<Rightarrow> bool option \<times> (string \<rightharpoonup> bool)" where
  "offline_step offline agent stale =
     (case offline agent of
        None \<Rightarrow> (None, offline(agent \<mapsto> stale))
      | Some prev \<Rightarrow> (if stale = prev then None else Some stale, offline(agent \<mapsto> stale)))"

definition sweep_row :: "gotime \<Rightarrow> AgentStatus \<Rightarrow> Sweeper \<Rightarrow> snapshot ChangeEvent list \<times> Sweeper" where
  "sweep_row now row s =
     (case offline_step (sw_offline s) (as_AgentID row) (agent_stale (sw_threshold s) now row) of
        (d, offline') \<Rightarrow>
          ((case d of None \<Rightarrow> [] | Some stale \<Rightarrow> if sw_recorder s then [agent_event stale row] else []),
           s\<lparr>sw_offline := offline'\<rparr>))"

fun sweep_rows :: "gotime \<Rightarrow> AgentStatus list \<Rightarrow> Sweeper \<Rightarrow> snapshot ChangeEvent list \<times> Sweeper" where
  "sweep_rows now [] s = ([], s)"
| "sweep_rows now (row # rows) s =
     (let (es, s1) = sweep_row now row s; (fs, s2) = sweep_rows now rows s1 in (es @ fs, s2))"

definition sweep :: "gotime \<Rightarrow> go_error + AgentStatus list \<Rightarrow> Sweeper \<Rightarrow> snapshot ChangeEvent list \<times> Sweeper" where
  "sweep now listing s =
     (case listing of
        Inl _ \<Rightarrow> ([], s)
      | Inr rows \<Rightarrow>
          (case sweep_rows now rows s of
             (es, s1) \<Rightarrow>
               (es, s1\<lparr>sw_offline := map_keep (\<lambda>a. a \<in> set (map as_AgentID rows)) (sw_offline s1)\<rparr>)))"

text \<open>The loop: one sweep after the other, each with its instant and what the listing gave.\<close>

fun sweeps :: "(gotime \<times> (go_error + AgentStatus list)) list \<Rightarrow> Sweeper \<Rightarrow> snapshot ChangeEvent list \<times> Sweeper" where
  "sweeps [] s = ([], s)"
| "sweeps ((now, listing) # xs) s =
     (let (es, s1) = sweep now listing s; (fs, s2) = sweeps xs s1 in (es @ fs, s2))"

subsection \<open>The sweeper is a liveness machine\<close>

interpretation agent_liveness: liveness offline_step "\<lambda>offline P. map_keep P offline" "\<lambda>offline. offline"
  by unfold_locales (auto simp: offline_step_def map_keep_def split: option.splits if_splits)

text \<open>What a sweep observes, and what its events declare.\<close>

definition row_acts :: "duration \<Rightarrow> gotime \<Rightarrow> AgentStatus list \<Rightarrow> (string, bool) live_act list" where
  "row_acts threshold now rows = map (\<lambda>r. Observe (as_AgentID r) (agent_stale threshold now r)) rows"

definition sweep_acts :: "duration \<Rightarrow> gotime \<times> (go_error + AgentStatus list) \<Rightarrow> (string, bool) live_act list" where
  "sweep_acts threshold x =
     (case snd x of
        Inl _ \<Rightarrow> []
      | Inr rows \<Rightarrow> row_acts threshold (fst x) rows @ [Keep (\<lambda>a. a \<in> set (map as_AgentID rows))])"

definition declares :: "'v ChangeEvent \<Rightarrow> string \<times> bool" where
  "declares e = (ev_AgentID e, ev_ChangeType e = ChangeTypeAgentOffline)"

lemma declares_agent_event [simp]: "declares (agent_event b row) = (as_AgentID row, b)"
  by (simp add: declares_def agent_event_def change_type_defs)

abbreviation agent_run where
  "agent_run \<equiv> live_run offline_step (\<lambda>offline P. map_keep P offline)"

lemma sweep_rows_run:
  assumes "sw_recorder s"
  shows "map declares (fst (sweep_rows now rows s)) = fst (agent_run (row_acts (sw_threshold s) now rows) (sw_offline s)) \<and>
    snd (sweep_rows now rows s) = s\<lparr>sw_offline := snd (agent_run (row_acts (sw_threshold s) now rows) (sw_offline s))\<rparr>"
  using assms
proof (induction rows arbitrary: s)
  case (Cons row rows)
  obtain d offline' where st: "offline_step (sw_offline s) (as_AgentID row) (agent_stale (sw_threshold s) now row) = (d, offline')"
    by fastforce
  let ?s = "s\<lparr>sw_offline := offline'\<rparr>"
  have row: "sweep_row now row s = (case d of None \<Rightarrow> [] | Some b \<Rightarrow> [agent_event b row], ?s)"
    using st Cons.prems by (simp add: sweep_row_def split: option.splits)
  have "map declares (fst (sweep_rows now rows ?s)) = fst (agent_run (row_acts (sw_threshold s) now rows) offline')"
    "snd (sweep_rows now rows ?s) = ?s\<lparr>sw_offline := snd (agent_run (row_acts (sw_threshold s) now rows) offline')\<rparr>"
    using Cons.IH [of ?s] Cons.prems by simp_all
  then show ?case using st row
    by (cases d) (simp_all add: row_acts_def live_run_Cons live_step_def split_beta Let_def)
qed (simp add: row_acts_def)

lemma sweep_run:
  assumes "sw_recorder s"
  shows "map declares (fst (sweep now listing s)) = fst (agent_run (sweep_acts (sw_threshold s) (now, listing)) (sw_offline s))"
    "snd (sweep now listing s) = s\<lparr>sw_offline := snd (agent_run (sweep_acts (sw_threshold s) (now, listing)) (sw_offline s))\<rparr>"
proof -
  have "map declares (fst (sweep now listing s)) = fst (agent_run (sweep_acts (sw_threshold s) (now, listing)) (sw_offline s)) \<and>
    snd (sweep now listing s) = s\<lparr>sw_offline := snd (agent_run (sweep_acts (sw_threshold s) (now, listing)) (sw_offline s))\<rparr>"
  proof (cases listing)
    case (Inr rows)
    obtain es s1 where "sweep_rows now rows s = (es, s1)" by fastforce
    then show ?thesis using Inr sweep_rows_run [OF assms, of now rows]
      by (simp add: sweep_def sweep_acts_def live_run_append live_run_Cons live_step_def)
  qed (simp add: sweep_def sweep_acts_def)
  then show "map declares (fst (sweep now listing s)) = fst (agent_run (sweep_acts (sw_threshold s) (now, listing)) (sw_offline s))"
    "snd (sweep now listing s) = s\<lparr>sw_offline := snd (agent_run (sweep_acts (sw_threshold s) (now, listing)) (sw_offline s))\<rparr>"
    by simp_all
qed

lemma sweeps_run:
  assumes "sw_recorder s"
  shows "map declares (fst (sweeps xs s)) = fst (agent_run (concat (map (sweep_acts (sw_threshold s)) xs)) (sw_offline s)) \<and>
    sw_offline (snd (sweeps xs s)) = snd (agent_run (concat (map (sweep_acts (sw_threshold s)) xs)) (sw_offline s))"
  using assms
proof (induction xs arbitrary: s)
  case (Cons x xs)
  obtain now listing where x: "x = (now, listing)" by fastforce
  let ?s = "snd (sweep now listing s)"
  have "sw_recorder ?s" "sw_threshold ?s = sw_threshold s"
    using sweep_run(2) [OF Cons.prems, of now listing] Cons.prems by simp_all
  then show ?case using Cons.IH [of ?s] sweep_run [OF Cons.prems, of now listing] x
    by (simp add: live_run_append split_beta Let_def)
qed simp

lemma sweep_acts_never_dropped:
  "list_all (\<lambda>x. case snd x of Inl _ \<Rightarrow> True | Inr rows \<Rightarrow> a \<in> set (map as_AgentID rows)) xs \<Longrightarrow>
   never_dropped a (concat (map (sweep_acts thr) xs))"
proof (induction xs)
  case (Cons x xs)
  have "never_dropped a (row_acts thr now rows)" for now rows by (induction rows) (simp_all add: row_acts_def)
  then show ?case using Cons by (auto simp: sweep_acts_def split: sum.splits)
qed simp

lemma of_key_declares:
  "of_key a (map declares es) = map (\<lambda>e. ev_ChangeType e = ChangeTypeAgentOffline) (filter (\<lambda>e. ev_AgentID e = a) es)"
  by (induction es) (auto simp: declares_def)

subsection \<open>Properties\<close>

text \<open>
  C15. Over any number of sweeps in which an agent stays registered, whatever sweeps fail to list the
  agents, the events about the agent alternate between offline and recovered, and the last one is the
  state the sweeper holds the agent in.
\<close>

theorem agent_events_alternate:
  assumes "sw_recorder s"
    "list_all (\<lambda>x. case snd x of Inl _ \<Rightarrow> True | Inr rows \<Rightarrow> a \<in> set (map as_AgentID rows)) xs"
  shows "let es = filter (\<lambda>e. ev_AgentID e = a) (fst (sweeps xs s)) in
    distinct_adj (map (\<lambda>e. ev_ChangeType e = ChangeTypeAgentOffline) es) \<and>
    (es \<noteq> [] \<longrightarrow> sw_offline (snd (sweeps xs s)) a = Some (ev_ChangeType (last es) = ChangeTypeAgentOffline))"
proof -
  let ?acts = "concat (map (sweep_acts (sw_threshold s)) xs)"
  let ?es = "filter (\<lambda>e. ev_AgentID e = a) (fst (sweeps xs s))"
  have run: "of_key a (fst (agent_run ?acts (sw_offline s))) = map (\<lambda>e. ev_ChangeType e = ChangeTypeAgentOffline) ?es"
    "sw_offline (snd (sweeps xs s)) = snd (agent_run ?acts (sw_offline s))"
    using sweeps_run [OF assms(1), of xs] of_key_declares [of a "fst (sweeps xs s)"] by simp_all
  have kept: "never_dropped a ?acts" using assms(2) by (rule sweep_acts_never_dropped)
  have "distinct_adj (map (\<lambda>e. ev_ChangeType e = ChangeTypeAgentOffline) ?es)"
    using agent_liveness.declarations_alternate [OF kept, of "sw_offline s"] run(1) by simp
  moreover have "sw_offline (snd (sweeps xs s)) a = Some (ev_ChangeType (last ?es) = ChangeTypeAgentOffline)" if "?es \<noteq> []"
    using agent_liveness.last_declaration [OF kept, of "sw_offline s"] run that by (simp add: last_map)
  ultimately show ?thesis by (simp add: Let_def)
qed

definition demo_agent :: "gotime \<Rightarrow> AgentStatus" where
  "demo_agent t = \<lparr>as_AgentID = ''a1'', as_Version = ''1'', as_GoVersion = [], as_Hostname = ''h'', as_UptimeSeconds = 0, as_ClockOffsetSeconds = 0,
     as_ScansTotal = 0, as_FingerprintRev = [], as_SupportedModules = [], as_LastReportAt = t\<rparr>"

definition demo_sweeps :: "(gotime \<times> (go_error + AgentStatus list)) list" where
  "demo_sweeps = [(1 * minute, Inr [demo_agent 0]), (11 * minute, Inr [demo_agent 0]), (12 * minute, Inl ErrDatabase),
     (13 * minute, Inr [demo_agent (12 * minute)])]"

theorem agent_events_alternate_witness:
  "map ev_ChangeType (fst (sweeps demo_sweeps (NewSweeper True))) = [ChangeTypeAgentOffline, ChangeTypeAgentRecovered] \<and>
   sw_offline (snd (sweeps demo_sweeps (NewSweeper True))) ''a1'' = Some False"
proof -
  have ev: "map ev_ChangeType (fst (sweeps demo_sweeps (NewSweeper True))) = [ChangeTypeAgentOffline, ChangeTypeAgentRecovered]"
    "map ev_AgentID (fst (sweeps demo_sweeps (NewSweeper True))) = [''a1'', ''a1'']"
    by code_simp+
  have "let es = filter (\<lambda>e. ev_AgentID e = ''a1'') (fst (sweeps demo_sweeps (NewSweeper True))) in
    distinct_adj (map (\<lambda>e. ev_ChangeType e = ChangeTypeAgentOffline) es) \<and>
    (es \<noteq> [] \<longrightarrow> sw_offline (snd (sweeps demo_sweeps (NewSweeper True))) ''a1'' =
       Some (ev_ChangeType (last es) = ChangeTypeAgentOffline))"
    by (rule agent_events_alternate) (simp_all add: NewSweeper_def demo_sweeps_def demo_agent_def)
  then show ?thesis using ev
    by (auto simp: Let_def map_eq_Cons_conv change_type_defs)
qed

lemma sweep_rows_ids: "e \<in> set (fst (sweep_rows now rs t)) \<Longrightarrow> ev_AgentID e \<in> as_AgentID ` set rs"
proof (induction rs arbitrary: t)
  case (Cons r rs)
  then consider "e \<in> set (fst (sweep_row now r t))" | "e \<in> set (fst (sweep_rows now rs (snd (sweep_row now r t))))"
    by (auto simp: split_beta Let_def)
  then show ?case
    using Cons.IH by cases (auto simp: sweep_row_def agent_event_def split: prod.splits option.splits if_splits)
qed simp

lemma sweep_rows_state:
  "sw_threshold (snd (sweep_rows now rs t)) = sw_threshold t"
  "a \<notin> as_AgentID ` set rs \<Longrightarrow> sw_offline (snd (sweep_rows now rs t)) a = sw_offline t a"
proof (induction rs arbitrary: t)
  case (Cons r rs)
  {
    case 1
    show ?case using Cons.IH(1) by (simp add: split_beta Let_def) (simp add: sweep_row_def split_beta)
  next
    case 2
    then show ?case using Cons.IH(2) by (simp add: split_beta Let_def) (simp add: sweep_row_def offline_step_def split_beta split: option.splits)
  }
qed simp_all

lemma sweep_rows_declare:
  assumes "sw_recorder t" "distinct (map as_AgentID rs)" "row \<in> set rs"
  shows "filter (\<lambda>e. ev_AgentID e = as_AgentID row) (fst (sweep_rows now rs t)) =
      (case sw_offline t (as_AgentID row) of
         None \<Rightarrow> []
       | Some was \<Rightarrow> let stale = agent_stale (sw_threshold t) now row in if stale = was then [] else [agent_event stale row]) \<and>
    sw_offline (snd (sweep_rows now rs t)) (as_AgentID row) = Some (agent_stale (sw_threshold t) now row)"
  using assms
proof (induction rs arbitrary: t)
  case (Cons r rs)
  obtain es t1 where r: "sweep_row now r t = (es, t1)" by fastforce
  have t1: "sw_recorder t1 = sw_recorder t" "sw_threshold t1 = sw_threshold t"
    "as_AgentID r \<noteq> k \<Longrightarrow> sw_offline t1 k = sw_offline t k" for k
    using r by (auto simp: sweep_row_def offline_step_def split: prod.splits option.splits)
  show ?case
  proof (cases "row = r")
    case True
    then have other: "as_AgentID row \<notin> as_AgentID ` set rs" using Cons.prems(2) by simp
    then have "filter (\<lambda>e. ev_AgentID e = as_AgentID row) (fst (sweep_rows now rs t1)) = []"
      unfolding filter_empty_conv using sweep_rows_ids by metis
    then show ?thesis using r True Cons.prems(1) sweep_rows_state(2) [OF other, of now t1]
      by (auto simp: sweep_row_def offline_step_def agent_event_def split_beta Let_def split: option.splits if_splits)
  next
    case False
    then have "row \<in> set rs" "as_AgentID r \<noteq> as_AgentID row" using Cons.prems by (auto simp: rev_image_eqI)
    moreover have "filter (\<lambda>e. ev_AgentID e = as_AgentID row) es = []"
      using r calculation(2) by (auto simp: sweep_row_def agent_event_def split: prod.splits option.splits if_splits)
    ultimately show ?thesis using Cons.IH [of t1] Cons.prems t1 r by (simp add: split_beta Let_def t1(2) cong: option.case_cong)
  qed
qed simp

text \<open>
  C16. A sweep misses nothing.  An agent it holds online gets the one event \<^verbatim>\<open>agent_offline\<close> in the very sweep that
  finds more than the threshold between its last report and now, an agent it holds offline gets the
  one event \<^verbatim>\<open>agent_recovered\<close> in the first sweep that does not, nothing else is said about them, an agent seen for
  the first time gets no event, and afterwards the sweep holds each listed agent in the state it found.
\<close>

theorem sweep_declares_promptly:
  assumes "sw_recorder s" "0 \<le> sw_threshold s" "sw_threshold s < 2 ^ 63 - 1" "distinct (map as_AgentID rows)" "row \<in> set rows"
  shows "map (\<lambda>e. (ev_EntityType e, ev_ChangeType e)) (filter (\<lambda>e. ev_AgentID e = as_AgentID row) (fst (sweep now (Inr rows) s))) =
      (case sw_offline s (as_AgentID row) of
         None \<Rightarrow> []
       | Some False \<Rightarrow> if sw_threshold s < now - as_LastReportAt row then [(''agent'', ''agent_offline'')] else []
       | Some True \<Rightarrow> if sw_threshold s < now - as_LastReportAt row then [] else [(''agent'', ''agent_recovered'')]) \<and>
    sw_offline (snd (sweep now (Inr rows) s)) (as_AgentID row) = Some (sw_threshold s < now - as_LastReportAt row)"
proof -
  have stale: "agent_stale (sw_threshold s) now row \<longleftrightarrow> sw_threshold s < now - as_LastReportAt row"
    using assms(2,3) by (simp add: agent_stale_def time_sub_gt in_i64_def)
  show ?thesis
    using sweep_rows_declare [OF assms(1,4,5), of now] assms(5) unfolding stale
    by (auto simp: sweep_def split_beta map_keep_def agent_event_def change_type_defs EntityTypeAgent_def Let_def
        split: option.splits bool.splits if_splits)
qed

theorem sweep_declares_promptly_witness:
  "let s = (NewSweeper True)\<lparr>sw_offline := [''a1'' \<mapsto> False]\<rparr> in
   map (\<lambda>e. (ev_EntityType e, ev_ChangeType e)) (filter (\<lambda>e. ev_AgentID e = ''a1'') (fst (sweep (11 * minute) (Inr [demo_agent 0]) s))) =
     [(''agent'', ''agent_offline'')] \<and>
   sw_offline (snd (sweep (11 * minute) (Inr [demo_agent 0]) s)) ''a1'' = Some True"
  using sweep_declares_promptly [of "(NewSweeper True)\<lparr>sw_offline := [''a1'' \<mapsto> False]\<rparr>" "[demo_agent 0]" "demo_agent 0" "11 * minute"]
  by (simp add: NewSweeper_def demo_agent_def defaultOfflineThreshold_def minute_def)

end
