(* ===== verification/Probe_Service.thy ===== *)
theory Probe_Service
  imports Probe_Db Go_Time
begin

section \<open>Synthetic probing: the service\<close>

text \<open>
  \<^verbatim>\<open>internal/service/probetarget/service.go\<close>: creating, reading, updating and deleting probe targets and
  reading their history, each as a program over the tables.  The option block of a target is stored
  as JSON; its encoding and decoding are modelled with the library's rules.
\<close>

definition ErrDuplicateName :: go_error where "ErrDuplicateName = Sentinel ''ErrDuplicateName''"
definition ErrProbeTargetNotFound :: go_error where "ErrProbeTargetNotFound = Sentinel ''ErrProbeTargetNotFound''"

subsection \<open>The option block\<close>

definition no_options :: ProbeOptions where
  "no_options =
     \<lparr>po_Method = [], po_ExpectedStatus = [], po_Keyword = [], po_KeywordMode = [], po_IgnoreTLSErrors = False,
      po_Record = [], po_Resolver = [], po_ExpectedIPs = [], po_Send = [], po_Expect = [], po_ExpectMode = []\<rparr>"

definition probeOptionsEmpty :: "ProbeOptions option \<Rightarrow> bool" where
  "probeOptionsEmpty p =
     (case p of
        None \<Rightarrow> True
      | Some o' \<Rightarrow> po_Method o' = [] \<and> po_ExpectedStatus o' = [] \<and> po_Keyword o' = [] \<and> po_KeywordMode o' = [] \<and>
          \<not> po_IgnoreTLSErrors o' \<and> po_Record o' = [] \<and> po_Resolver o' = [] \<and> po_ExpectedIPs o' = [] \<and>
          po_Send o' = [] \<and> po_Expect o' = [] \<and> po_ExpectMode o' = [])"

text \<open>The members of the block in the order of its fields; each is left out when it is zero.\<close>

definition member_if :: "bool \<Rightarrow> string \<Rightarrow> jany \<Rightarrow> (string \<times> jany) list" where
  "member_if b k v = (if b then [(k, v)] else [])"

definition option_members :: "ProbeOptions \<Rightarrow> (string \<times> jany) list" where
  "option_members o' =
     member_if (po_Method o' \<noteq> []) ''method'' (AStr (po_Method o')) @
     member_if (po_ExpectedStatus o' \<noteq> []) ''expected_status'' (AInts (po_ExpectedStatus o')) @
     member_if (po_Keyword o' \<noteq> []) ''keyword'' (AStr (po_Keyword o')) @
     member_if (po_KeywordMode o' \<noteq> []) ''keyword_mode'' (AStr (po_KeywordMode o')) @
     member_if (po_IgnoreTLSErrors o') ''ignore_tls_errors'' (ABool (po_IgnoreTLSErrors o')) @
     member_if (po_Record o' \<noteq> []) ''record'' (AStr (po_Record o')) @
     member_if (po_Resolver o' \<noteq> []) ''resolver'' (AStr (po_Resolver o')) @
     member_if (po_ExpectedIPs o' \<noteq> []) ''expected_ips'' (AStrs (po_ExpectedIPs o')) @
     member_if (po_Send o' \<noteq> []) ''send'' (AStr (po_Send o')) @
     member_if (po_Expect o' \<noteq> []) ''expect'' (AStr (po_Expect o')) @
     member_if (po_ExpectMode o' \<noteq> []) ''expect_mode'' (AStr (po_ExpectMode o'))"

definition marshalProbeOptions :: "ProbeOptions option \<Rightarrow> string" where
  "marshalProbeOptions p =
     (if probeOptionsEmpty p then [] else case p of None \<Rightarrow> [] | Some o' \<Rightarrow> marshal_struct (option_members o'))"

text \<open>
  Decoding a member into its field.  A \<^verbatim>\<open>null\<close> leaves a string, a flag or an element at what it is and
  empties a slice; a value of another type is an error of the whole call.
\<close>

definition dec_str :: "json \<Rightarrow> string \<Rightarrow> string option" where
  "dec_str v old = (case v of JStr s \<Rightarrow> Some s | JNull \<Rightarrow> Some old | _ \<Rightarrow> None)"

definition dec_bool :: "json \<Rightarrow> bool \<Rightarrow> bool option" where
  "dec_bool v old = (case v of JBool b \<Rightarrow> Some b | JNull \<Rightarrow> Some old | _ \<Rightarrow> None)"

definition dec_int :: "json \<Rightarrow> int \<Rightarrow> int option" where
  "dec_int v old = (case v of JNum lit \<Rightarrow> atoi lit | JNull \<Rightarrow> Some old | _ \<Rightarrow> None)"

fun dec_all :: "(json \<Rightarrow> 'a option) \<Rightarrow> json list \<Rightarrow> 'a list option" where
  "dec_all f [] = Some []"
| "dec_all f (v # vs) = (case (f v, dec_all f vs) of (Some x, Some xs) \<Rightarrow> Some (x # xs) | _ \<Rightarrow> None)"

definition dec_slice :: "(json \<Rightarrow> 'a option) \<Rightarrow> json \<Rightarrow> 'a list option" where
  "dec_slice f v = (case v of JArr vs \<Rightarrow> dec_all f vs | JNull \<Rightarrow> Some [] | _ \<Rightarrow> None)"

definition option_names :: "string list" where
  "option_names = [''method'', ''expected_status'', ''keyword'', ''keyword_mode'', ''ignore_tls_errors'', ''record'',
     ''resolver'', ''expected_ips'', ''send'', ''expect'', ''expect_mode'']"

definition set_option :: "string \<Rightarrow> json \<Rightarrow> ProbeOptions \<Rightarrow> ProbeOptions option" where
  "set_option n v o' =
     (if n = ''method'' then map_option (\<lambda>x. o'\<lparr>po_Method := x\<rparr>) (dec_str v (po_Method o'))
      else if n = ''expected_status'' then map_option (\<lambda>x. o'\<lparr>po_ExpectedStatus := x\<rparr>) (dec_slice (\<lambda>e. dec_int e 0) v)
      else if n = ''keyword'' then map_option (\<lambda>x. o'\<lparr>po_Keyword := x\<rparr>) (dec_str v (po_Keyword o'))
      else if n = ''keyword_mode'' then map_option (\<lambda>x. o'\<lparr>po_KeywordMode := x\<rparr>) (dec_str v (po_KeywordMode o'))
      else if n = ''ignore_tls_errors'' then map_option (\<lambda>x. o'\<lparr>po_IgnoreTLSErrors := x\<rparr>) (dec_bool v (po_IgnoreTLSErrors o'))
      else if n = ''record'' then map_option (\<lambda>x. o'\<lparr>po_Record := x\<rparr>) (dec_str v (po_Record o'))
      else if n = ''resolver'' then map_option (\<lambda>x. o'\<lparr>po_Resolver := x\<rparr>) (dec_str v (po_Resolver o'))
      else if n = ''expected_ips'' then map_option (\<lambda>x. o'\<lparr>po_ExpectedIPs := x\<rparr>) (dec_slice (\<lambda>e. dec_str e []) v)
      else if n = ''send'' then map_option (\<lambda>x. o'\<lparr>po_Send := x\<rparr>) (dec_str v (po_Send o'))
      else if n = ''expect'' then map_option (\<lambda>x. o'\<lparr>po_Expect := x\<rparr>) (dec_str v (po_Expect o'))
      else map_option (\<lambda>x. o'\<lparr>po_ExpectMode := x\<rparr>) (dec_str v (po_ExpectMode o')))"

fun set_options :: "(string \<times> json) list \<Rightarrow> ProbeOptions \<Rightarrow> ProbeOptions option" where
  "set_options [] o' = Some o'"
| "set_options ((k, v) # kvs) o' =
     (case field_of option_names k of
        None \<Rightarrow> set_options kvs o'
      | Some n \<Rightarrow> (case set_option n v o' of None \<Rightarrow> None | Some p \<Rightarrow> set_options kvs p))"

definition parseProbeOptions :: "string \<Rightarrow> ProbeOptions option" where
  "parseProbeOptions s =
     (if trim_space s = [] then None
      else let decoded = (case json_parse s of
                            Some (JObj kvs) \<Rightarrow> set_options kvs no_options
                          | Some JNull \<Rightarrow> Some no_options
                          | _ \<Rightarrow> None)
           in if probeOptionsEmpty decoded then None else decoded)"

subsection \<open>Responses\<close>

record ProbeVantageLatest =
  vl_Vantage :: string
  vl_Status :: string
  vl_LatencyMs :: rat
  vl_ErrorMessage :: string
  vl_CheckedAt :: string

record ProbeTargetResponse =
  tr_ID :: int
  tr_Name :: string
  tr_Module :: string
  tr_Target :: string
  tr_IntervalSeconds :: int
  tr_TimeoutSeconds :: int
  tr_Enabled :: bool
  tr_Notes :: string
  tr_LastRunAt :: string
  tr_LastStatus :: string
  tr_LastLatencyMs :: rat
  tr_LastError :: string
  tr_CreatedAt :: string
  tr_UpdatedAt :: string
  tr_Vantage :: string
  tr_VantageLatest :: "ProbeVantageLatest list"
  tr_Options :: "ProbeOptions option"
  tr_DeviceID :: int
  tr_Source :: string

record ProbeResultResponse =
  rr_ID :: int
  rr_TargetID :: int
  rr_Status :: string
  rr_LatencyMs :: rat
  rr_StatusCode :: int
  rr_ErrorMessage :: string
  rr_TLSVersion :: string
  rr_CertNotAfter :: string
  rr_CertTrusted :: "bool option"
  rr_CheckedAt :: string
  rr_Vantage :: string

definition toTargetResponse :: "ProbeTarget \<Rightarrow> ProbeTargetResponse" where
  "toTargetResponse t =
     \<lparr>tr_ID = pt_ID t, tr_Name = pt_Name t, tr_Module = pt_Module t, tr_Target = pt_Target t,
      tr_IntervalSeconds = pt_IntervalSeconds t, tr_TimeoutSeconds = pt_TimeoutSeconds t,
      tr_Enabled = (pt_Enabled t = 1), tr_Notes = pt_Notes t, tr_LastRunAt = pt_LastRunAt t,
      tr_LastStatus = pt_LastStatus t, tr_LastLatencyMs = pt_LastLatencyMs t, tr_LastError = pt_LastError t,
      tr_CreatedAt = format_rfc3339 (pt_CreatedAt t), tr_UpdatedAt = format_rfc3339 (pt_UpdatedAt t),
      tr_Vantage = pt_Vantage t, tr_VantageLatest = [], tr_Options = parseProbeOptions (pt_Options t),
      tr_DeviceID = (case pt_DeviceID t of None \<Rightarrow> 0 | Some d \<Rightarrow> d), tr_Source = pt_Source t\<rparr>"

definition toResultResponse :: "ProbeResult \<Rightarrow> ProbeResultResponse" where
  "toResultResponse r =
     \<lparr>rr_ID = pr_ID r, rr_TargetID = pr_TargetID r, rr_Status = pr_Status r, rr_LatencyMs = pr_LatencyMs r,
      rr_StatusCode = pr_StatusCode r, rr_ErrorMessage = pr_ErrorMessage r, rr_TLSVersion = pr_TlsVersion r,
      rr_CertNotAfter = pr_CertNotAfter r,
      rr_CertTrusted = (if 0 \<le> pr_CertTrusted r then Some (pr_CertTrusted r = 1) else None),
      rr_CheckedAt = pr_CheckedAt r, rr_Vantage = pr_Vantage r\<rparr>"

definition defaultIfZero :: "int \<Rightarrow> int \<Rightarrow> int" where
  "defaultIfZero v d = (if v = 0 then d else v)"

text \<open>A failed read leaves the response without its summary.\<close>

definition attachVantageLatest :: "ProbeTargetResponse \<Rightarrow> ProbeTargetResponse pprog" where
  "attachVantageLatest resp =
     seq (outcome (LatestProbeResultsPerVantage (tr_ID resp))) (\<lambda>r.
       case r of
         Inl _ \<Rightarrow> ret resp
       | Inr rows \<Rightarrow> ret (resp\<lparr>tr_VantageLatest := map (\<lambda>r. \<lparr>vl_Vantage = pr_Vantage r, vl_Status = pr_Status r,
           vl_LatencyMs = pr_LatencyMs r, vl_ErrorMessage = pr_ErrorMessage r, vl_CheckedAt = pr_CheckedAt r\<rparr>) rows\<rparr>))"

subsection \<open>Guards\<close>

definition not_found :: "('s, 'a) prog \<Rightarrow> ('s, 'a) prog" where
  "not_found m =
     seq (outcome m) (\<lambda>r. case r of
        Inl e \<Rightarrow> if e = ErrNoRows then raise ErrProbeTargetNotFound else raise e
      | Inr x \<Rightarrow> ret x)"

definition checkNameFree :: "string \<Rightarrow> int \<Rightarrow> unit pprog" where
  "checkNameFree name selfID =
     seq (outcome (GetProbeTargetByName name)) (\<lambda>r. case r of
        Inl e \<Rightarrow> if e = ErrNoRows then ret () else raise e
      | Inr existing \<Rightarrow> if pt_ID existing \<noteq> selfID then raise ErrDuplicateName else ret ())"

definition checkDeviceExists :: "int \<Rightarrow> unit pprog" where
  "checkDeviceExists i =
     seq (outcome (GetDevice i)) (\<lambda>r. case r of
        Inl e \<Rightarrow> if e = ErrNoRows then raise (Errorf (''device '' @ itoa i @ '' does not exist'')) else raise e
      | Inr _ \<Rightarrow> ret ())"

definition require :: "go_error option \<Rightarrow> ('s, unit) prog" where
  "require e = (case e of None \<Rightarrow> ret () | Some x \<Rightarrow> raise x)"

definition normalized :: "string \<Rightarrow> ('s, string) prog" where
  "normalized v = (case NormalizeProbeVantage v of Inl e \<Rightarrow> raise e | Inr w \<Rightarrow> ret w)"

subsection \<open>Operations\<close>

definition create_device :: "int option \<Rightarrow> int option pprog" where
  "create_device d =
     (case d of
        Some i \<Rightarrow> if 0 < i then seq (checkDeviceExists i) (\<lambda>_. ret (Some i)) else ret None
      | None \<Rightarrow> ret None)"

definition Create :: "ProbeTargetRequest \<Rightarrow> ProbeTargetResponse pprog" where
  "Create req =
     seq (require (ValidateProbeTargetRequest req)) (\<lambda>_.
     let name = trim_space (rq_Name req) in
     seq (checkNameFree name 0) (\<lambda>_.
     seq (create_device (rq_DeviceID req)) (\<lambda>deviceID.
     seq (normalized (rq_Vantage req)) (\<lambda>vantage.
     seq (CreateProbeTarget
           \<lparr>cp_Name = name, cp_Module = rq_Module req, cp_Target = trim_space (rq_Target req),
            cp_IntervalSeconds = defaultIfZero (rq_IntervalSeconds req) 60,
            cp_TimeoutSeconds = defaultIfZero (rq_TimeoutSeconds req) 10,
            cp_Enabled = (if rq_Enabled req = Some False then 0 else 1), cp_Notes = rq_Notes req, cp_Vantage = vantage,
            cp_Options = marshalProbeOptions (rq_Options req), cp_DeviceID = deviceID, cp_Source = ProbeSourceManual\<rparr>)
       (\<lambda>t. ret (toTargetResponse t))))))"

definition Get :: "int \<Rightarrow> ProbeTargetResponse pprog" where
  "Get i = seq (not_found (GetProbeTarget i)) (\<lambda>t. attachVantageLatest (toTargetResponse t))"

definition clamp_page :: "int \<Rightarrow> int \<Rightarrow> int \<Rightarrow> int" where
  "clamp_page lo hi limit = (let l = (if limit < lo then lo else limit) in if hi < l then hi else l)"

definition List :: "string \<Rightarrow> int \<Rightarrow> int \<Rightarrow> (ProbeTargetResponse list \<times> int) pprog" where
  "List search0 limit0 offset0 =
     (let limit = clamp_page 20 100 limit0; offset = (if offset0 < 0 then 0 else offset0); search = trim_space search0 in
      seq (ListProbeTargetsSearch search limit offset) (\<lambda>targets.
      seq (CountProbeTargetsSearch search) (\<lambda>total.
      seq (for_each (\<lambda>t. attachVantageLatest (toTargetResponse t)) targets) (\<lambda>out. ret (out, total)))))"

definition ListByDevice :: "int \<Rightarrow> (ProbeTargetResponse list \<times> int) pprog" where
  "ListByDevice d =
     seq (ListProbeTargetsByDevice d) (\<lambda>rows.
     seq (for_each (\<lambda>t. attachVantageLatest (toTargetResponse t)) rows) (\<lambda>out. ret (out, int (length out))))"

definition or_else :: "'a option \<Rightarrow> 'a \<Rightarrow> 'a" where
  "or_else x d = (case x of None \<Rightarrow> d | Some y \<Rightarrow> y)"

definition update_vantage :: "string option \<Rightarrow> string \<Rightarrow> ('s, string) prog" where
  "update_vantage v old = (case v of None \<Rightarrow> ret old | Some w \<Rightarrow> normalized w)"

definition update_options :: "ProbeTarget \<Rightarrow> UpdateProbeTargetRequest \<Rightarrow> string \<Rightarrow> ProbeOptions option" where
  "update_options existing req mdl =
     (if up_Options req \<noteq> None then up_Options req
      else if mdl \<noteq> pt_Module existing then None
      else parseProbeOptions (pt_Options existing))"

definition update_device :: "int option \<Rightarrow> int option \<Rightarrow> int option pprog" where
  "update_device d old =
     (case d of
        None \<Rightarrow> ret old
      | Some i \<Rightarrow> if 0 < i then seq (checkDeviceExists i) (\<lambda>_. ret (Some i)) else ret None)"

definition Update :: "int \<Rightarrow> UpdateProbeTargetRequest \<Rightarrow> ProbeTargetResponse pprog" where
  "Update i req =
     seq (not_found (GetProbeTarget i)) (\<lambda>existing.
     let name = (case up_Name req of None \<Rightarrow> pt_Name existing | Some n \<Rightarrow> trim_space n);
         mdl = or_else (up_Module req) (pt_Module existing);
         target = (case up_Target req of None \<Rightarrow> pt_Target existing | Some t \<Rightarrow> trim_space t);
         notes = or_else (up_Notes req) (pt_Notes existing);
         interval = or_else (up_IntervalSeconds req) (pt_IntervalSeconds existing);
         timeout = or_else (up_TimeoutSeconds req) (pt_TimeoutSeconds existing);
         enabled = or_else (up_Enabled req) (pt_Enabled existing = 1)
     in seq (update_vantage (up_Vantage req) (pt_Vantage existing)) (\<lambda>vantage.
        let options = update_options existing req mdl in
        seq (update_device (up_DeviceID req) (pt_DeviceID existing)) (\<lambda>deviceID.
        seq (require (ValidateProbeTargetRequest
               \<lparr>rq_Name = name, rq_Module = mdl, rq_Target = target, rq_IntervalSeconds = interval,
                rq_TimeoutSeconds = timeout, rq_Enabled = Some enabled, rq_Notes = notes, rq_Vantage = vantage,
                rq_Options = options, rq_DeviceID = None\<rparr>)) (\<lambda>_.
        seq (if name \<noteq> pt_Name existing then checkNameFree name i else ret ()) (\<lambda>_.
        seq (UpdateProbeTarget
               \<lparr>ut_Name = name, ut_Module = mdl, ut_Target = target, ut_IntervalSeconds = interval,
                ut_TimeoutSeconds = timeout, ut_Enabled = pt_Enabled existing, ut_Notes = notes, ut_Vantage = vantage,
                ut_Options = marshalProbeOptions options, ut_DeviceID = deviceID, ut_ID = i\<rparr>) (\<lambda>t.
        if enabled \<noteq> (pt_Enabled existing = 1) then
          (let want = (if enabled then 1 else 0) in
           seq (ToggleProbeTargetEnabled want i) (\<lambda>_. ret (toTargetResponse (t\<lparr>pt_Enabled := want\<rparr>))))
        else ret (toTargetResponse t)))))))"

definition Delete :: "int \<Rightarrow> unit pprog" where
  "Delete i =
     seq (not_found (GetProbeTarget i)) (\<lambda>_.
     seq (DeleteProbeResultsByTarget i) (\<lambda>_.
     seq (DeleteProbeTLSCertsByTarget i) (\<lambda>_.
     seq (DeleteProbeTarget i) (\<lambda>rows. if rows = 0 then raise ErrProbeTargetNotFound else ret ()))))"

definition result_filter :: "string \<Rightarrow> ('s, string) prog" where
  "result_filter vantage =
     (if trim_space vantage = [] then ret []
      else seq (normalized vantage) (\<lambda>v.
        if v = ProbeVantageAll
        then raise (Errorf ''vantage filter must be \"center\" or \"agent:{agent_id}\", not \"all\"'') else ret v))"

definition Results :: "int \<Rightarrow> string \<Rightarrow> int \<Rightarrow> int \<Rightarrow> (ProbeResultResponse list \<times> int) pprog" where
  "Results i vantage limit0 offset0 =
     seq (not_found (GetProbeTarget i)) (\<lambda>_.
     seq (result_filter vantage) (\<lambda>v.
     let l1 = (if limit0 < 1 then 20 else limit0); limit = (if 100 < l1 then 100 else l1);
         offset = (if offset0 < 0 then 0 else offset0)
     in seq (ListProbeResultsByTarget i v limit offset) (\<lambda>rows.
        seq (CountProbeResultsByTarget i v) (\<lambda>total. ret (map toResultResponse rows, total)))))"

subsection \<open>The option block round trip\<close>

definition options_ascii :: "ProbeOptions \<Rightarrow> bool" where
  "options_ascii o' \<longleftrightarrow>
     list_all (\<lambda>kv. any_ascii (snd kv)) (option_members o') \<and> list_all in_i64 (po_ExpectedStatus o')"

lemma set_options_append:
  "set_options (xs @ ys) o' = (case set_options xs o' of None \<Rightarrow> None | Some p \<Rightarrow> set_options ys p)"
  by (induction xs o' rule: set_options.induct) (auto split: option.splits)

lemma field_of_exact: "k \<in> set names \<Longrightarrow> field_of names k = Some k"
  by (simp add: field_of_def)

lemma set_options_one:
  "k \<in> set option_names \<Longrightarrow> set_options (map (map_prod id any_json) (member_if b k v)) o' =
     (if b then set_option k (any_json v) o' else Some o')"
  by (auto simp: member_if_def field_of_exact split: option.splits)

lemma option_names_mem:
  "''method'' \<in> set option_names" "''expected_status'' \<in> set option_names" "''keyword'' \<in> set option_names"
  "''keyword_mode'' \<in> set option_names" "''ignore_tls_errors'' \<in> set option_names" "''record'' \<in> set option_names"
  "''resolver'' \<in> set option_names" "''expected_ips'' \<in> set option_names" "''send'' \<in> set option_names"
  "''expect'' \<in> set option_names" "''expect_mode'' \<in> set option_names"
  by (simp_all add: option_names_def)

lemma dec_all_strs: "dec_all (\<lambda>e. dec_str e []) (map JStr ss) = Some ss"
  by (induction ss) (simp_all add: dec_str_def)

lemma dec_all_ints: "list_all in_i64 ns \<Longrightarrow> dec_all (\<lambda>e. dec_int e 0) (map (\<lambda>i. JNum (itoa i)) ns) = Some ns"
  by (induction ns) (simp_all add: dec_int_def atoi_itoa)

lemma set_option_str:
  "set_option ''method'' (JStr s) o' = Some (o'\<lparr>po_Method := s\<rparr>)"
  "set_option ''keyword'' (JStr s) o' = Some (o'\<lparr>po_Keyword := s\<rparr>)"
  "set_option ''keyword_mode'' (JStr s) o' = Some (o'\<lparr>po_KeywordMode := s\<rparr>)"
  "set_option ''record'' (JStr s) o' = Some (o'\<lparr>po_Record := s\<rparr>)"
  "set_option ''resolver'' (JStr s) o' = Some (o'\<lparr>po_Resolver := s\<rparr>)"
  "set_option ''send'' (JStr s) o' = Some (o'\<lparr>po_Send := s\<rparr>)"
  "set_option ''expect'' (JStr s) o' = Some (o'\<lparr>po_Expect := s\<rparr>)"
  "set_option ''expect_mode'' (JStr s) o' = Some (o'\<lparr>po_ExpectMode := s\<rparr>)"
  "set_option ''ignore_tls_errors'' (JBool b) o' = Some (o'\<lparr>po_IgnoreTLSErrors := b\<rparr>)"
  by (simp_all add: set_option_def dec_str_def dec_bool_def)

lemma set_option_array:
  "set_option ''expected_ips'' (JArr (map JStr ss)) o' = Some (o'\<lparr>po_ExpectedIPs := ss\<rparr>)"
  "list_all in_i64 ns \<Longrightarrow> set_option ''expected_status'' (JArr (map (\<lambda>i. JNum (itoa i)) ns)) o' = Some (o'\<lparr>po_ExpectedStatus := ns\<rparr>)"
  by (simp_all add: set_option_def dec_slice_def dec_all_strs dec_all_ints)

lemma set_options_members:
  assumes "list_all in_i64 (po_ExpectedStatus o')"
  shows "set_options (map (map_prod id any_json) (option_members o')) no_options = Some o'"
  using assms unfolding option_members_def map_append set_options_append
  by (cases o') (simp add: set_options_one option_names_mem any_json_def set_option_str set_option_array no_options_def)

lemma option_members_ascii:
  "options_ascii o' \<Longrightarrow> list_all (\<lambda>kv. ascii (fst kv) \<and> any_ascii (snd kv)) (option_members o')"
  by (auto simp: options_ascii_def option_members_def member_if_def list_all_iff)

lemma parse_marshal_options:
  assumes "options_ascii o'" "\<not> probeOptionsEmpty (Some o')"
  shows "parseProbeOptions (marshalProbeOptions (Some o')) = Some o'"
proof -
  have "trim_space (marshal_struct kvs) \<noteq> []" for kvs
  proof -
    have "trim_space (marshal_struct kvs) = marshal_struct kvs"
      by (rule trim_space_ident) (simp_all add: marshal_struct_def is_space_def)
    then show ?thesis by (simp add: marshal_struct_def)
  qed
  moreover have "set_options (map (map_prod id any_json) (option_members o')) no_options = Some o'"
    using assms(1) by (intro set_options_members) (simp add: options_ascii_def)
  ultimately show ?thesis
    using assms parse_marshal_struct [OF option_members_ascii [OF assms(1)]]
    by (simp add: parseProbeOptions_def marshalProbeOptions_def Let_def)
qed

subsection \<open>What the operations keep\<close>

lemma keeps_not_found [keeps_intros]: "keeps P m \<Longrightarrow> keeps P (not_found m)"
  unfolding not_found_def by (intro keeps_intros)

lemma keeps_guards [keeps_intros]:
  "keeps P (require e)" "keeps P (normalized v)" "keeps P (result_filter v)" "keeps P (update_vantage w old)"
  unfolding require_def normalized_def result_filter_def update_vantage_def by (intro keeps_intros)+

lemma keeps_db_guards [keeps_intros]:
  assumes "fault_free P"
  shows "keeps P (checkNameFree n i)" "keeps P (checkDeviceExists i)" "keeps P (create_device d)"
    "keeps P (update_device d old)" "keeps P (attachVantageLatest resp)"
  unfolding checkNameFree_def checkDeviceExists_def create_device_def update_device_def attachVantageLatest_def
  by (intro keeps_intros assms)+

lemma keeps_service_reads:
  assumes "fault_free P"
  shows "keeps P (Get i)" "keeps P (List q l k)" "keeps P (ListByDevice d)" "keeps P (Results i v l k)"
  unfolding Get_def List_def ListByDevice_def Results_def Let_def by (intro keeps_intros assms)+

lemma keeps_service_writes:
  "keeps probe_inv (Create req)" "keeps probe_inv (Update i upd)" "keeps probe_inv (Delete i)"
  unfolding Create_def Update_def Delete_def Let_def by (intro keeps_intros)+

text \<open>Every result and every certificate belongs to a target of the table.\<close>

definition refs_ok :: "probe_db \<Rightarrow> bool" where
  "refs_ok db \<longleftrightarrow>
     pr_TargetID ` set (db_results db) \<union> pc_TargetID ` set (db_certs db) \<subseteq> pt_ID ` set (db_targets db)"

lemma refs_ok_fault_free [keeps_intros]: "fault_free refs_ok"
  by (simp add: fault_free_def refs_ok_def)

lemma put_target_refs: "refs_ok db \<Longrightarrow> refs_ok (snd (put_target t db))"
  using map_put_ids [of t "db_targets db"] by (auto simp: put_target_def refs_ok_def simp flip: set_map simp del: map_map)

lemma keeps_refs_writes [keeps_intros]:
  "keeps refs_ok (CreateProbeTarget arg)" "keeps refs_ok (UpdateProbeTarget uarg)"
  "keeps refs_ok (ToggleProbeTargetEnabled e i)"
proof -
  show "keeps refs_ok (CreateProbeTarget arg)" unfolding CreateProbeTarget_def
    by (intro keeps_pstmt refs_ok_fault_free) (auto simp: keeps_def refs_ok_def Let_def)
  show "keeps refs_ok (UpdateProbeTarget uarg)" unfolding UpdateProbeTarget_def
    by (intro keeps_pstmt refs_ok_fault_free) (auto simp: keeps_def put_target_refs split: option.splits)
  show "keeps refs_ok (ToggleProbeTargetEnabled e i)" unfolding ToggleProbeTargetEnabled_def
    by (intro keeps_pstmt refs_ok_fault_free) (auto simp: keeps_def put_target_refs snd_seq_ret split: option.splits)
qed

lemma keeps_refs_service: "keeps refs_ok (Create req)" "keeps refs_ok (Update i upd)"
  unfolding Create_def Update_def Let_def by (intro keeps_intros)+

lemma Delete_refs: "keeps refs_ok (Delete i)"
proof (rule keeps_hoare)
  let ?r = "\<lambda>db. refs_ok db \<and> i \<notin> pr_TargetID ` set (db_results db)"
  let ?c = "\<lambda>db. ?r db \<and> i \<notin> pc_TargetID ` set (db_certs db)"
  have ff: "refs_ok (db\<lparr>db_faults := fs\<rparr>) = refs_ok db" for db fs by (simp add: refs_ok_def)
  have 1: "hoare refs_ok (not_found (GetProbeTarget i)) (\<lambda>r s. refs_ok s)"
    by (intro hoare_keeps keeps_intros)
  have 2: "hoare refs_ok (DeleteProbeResultsByTarget i) (\<lambda>r s. case r of Inl e \<Rightarrow> refs_ok s | Inr x \<Rightarrow> ?r s)"
    unfolding DeleteProbeResultsByTarget_def by (rule hoare_stmt) (auto simp: hoare_def refs_ok_def)
  have 3: "hoare ?r (DeleteProbeTLSCertsByTarget i) (\<lambda>r s. case r of Inl e \<Rightarrow> refs_ok s | Inr x \<Rightarrow> ?c s)"
    unfolding DeleteProbeTLSCertsByTarget_def by (rule hoare_stmt) (auto simp: hoare_def refs_ok_def)
  have 4: "hoare ?c (DeleteProbeTarget i) (\<lambda>r s. refs_ok s)"
    unfolding DeleteProbeTarget_def
  proof (rule hoare_stmt)
    have "pt_ID ` {x \<in> S. pt_ID x \<noteq> i} = pt_ID ` S - {i}" for S :: "ProbeTarget set" by auto
    then show "hoare ?c (\<lambda>db. (Inr (int (length (filter (\<lambda>t. pt_ID t = i) (db_targets db)))),
        db\<lparr>db_targets := filter (\<lambda>t. pt_ID t \<noteq> i) (db_targets db)\<rparr>)) (\<lambda>r s. refs_ok s)"
      by (simp add: hoare_def refs_ok_def) blast
  qed (simp_all add: refs_ok_def)
  have last: "hoare ?c (seq (DeleteProbeTarget i) (\<lambda>rows. if rows = 0 then raise ErrProbeTargetNotFound else ret ())) (\<lambda>r. refs_ok)"
    by (rule hoare_seq [where R = "\<lambda>_. refs_ok"]) (auto intro: hoare_weaken [OF 4] hoare_ret hoare_raise split: sum.splits)
  show "hoare refs_ok (Delete i) (\<lambda>r. refs_ok)"
    unfolding Delete_def
  proof (rule hoare_seq [where R = "\<lambda>_. refs_ok"])
    show "hoare refs_ok (seq (DeleteProbeResultsByTarget i) (\<lambda>_. seq (DeleteProbeTLSCertsByTarget i)
        (\<lambda>_. seq (DeleteProbeTarget i) (\<lambda>rows. if rows = 0 then raise ErrProbeTargetNotFound else ret ())))) (\<lambda>r. refs_ok)"
      by (rule hoare_seq [OF 2], rule hoare_seq [OF 3], rule last)
  qed (rule hoare_weaken [OF 1], auto split: sum.splits)
qed

text \<open>
  Validation, the check of the name and the defaults leave nothing to the constraints of the table: a
  creation never fails with a constraint error, whatever statements fail.
\<close>

definition only_Errorf :: "go_error option \<Rightarrow> bool" where
  "only_Errorf r \<longleftrightarrow> (\<forall>e. r = Some e \<longrightarrow> (\<exists>x. e = Errorf x))"

lemma only_Errorf_intros:
  "only_Errorf None" "only_Errorf (Some (Errorf x))"
  "only_Errorf a \<Longrightarrow> only_Errorf b \<Longrightarrow> only_Errorf (if c then a else b)"
  "only_Errorf a \<Longrightarrow> (\<And>x. only_Errorf (f x)) \<Longrightarrow> only_Errorf (case v of None \<Rightarrow> a | Some x \<Rightarrow> f x)"
  "(\<And>a b. only_Errorf (g a b)) \<Longrightarrow> only_Errorf (case w of (a, b) \<Rightarrow> g a b)"
  by (auto simp: only_Errorf_def split: option.splits prod.splits)

lemma validators_Errorf:
  "only_Errorf (ValidateProbeOptions m p)" "only_Errorf (ValidateProbeTargetGrammar m s)"
  unfolding ValidateProbeOptions_def validate_http_options_def validate_dns_options_def validate_tcp_options_def
    matchMode_def ValidateProbeTargetGrammar_def
  by (intro only_Errorf_intros)+

lemma NormalizeProbeVantage_Errorf: "NormalizeProbeVantage v = Inl e \<Longrightarrow> \<exists>x. e = Errorf x"
  unfolding NormalizeProbeVantage_def Let_def by (simp split: if_splits) blast+

lemma request_Errorf: "only_Errorf (ValidateProbeTargetRequest req)"
proof -
  have "only_Errorf (case NormalizeProbeVantage v of Inl e \<Rightarrow> Some e | Inr _ \<Rightarrow> case ValidateProbeOptions m p of
      Some e \<Rightarrow> Some e | None \<Rightarrow> ValidateProbeTargetGrammar m s)" for v m p s
    using validators_Errorf(1) [of m p] validators_Errorf(2) [of m s] NormalizeProbeVantage_Errorf [of v]
    by (auto simp: only_Errorf_def split: option.splits sum.splits)
  then show ?thesis unfolding ValidateProbeTargetRequest_def Let_def by (intro only_Errorf_intros)
qed

definition name_free :: "string \<Rightarrow> probe_db \<Rightarrow> bool" where
  "name_free n db \<longleftrightarrow> n \<notin> pt_Name ` set (db_targets db)"

lemma name_free_fault_free [keeps_intros]: "fault_free (name_free n)"
  by (simp add: fault_free_def name_free_def)

lemma fault_free_conj: "fault_free P \<Longrightarrow> fault_free Q \<Longrightarrow> fault_free (\<lambda>s. P s \<and> Q s)"
  by (simp add: fault_free_def)

lemma fault_free_targets: "fault_free (\<lambda>s. db_targets s = ts)"
  by (simp add: fault_free_def)

lemma hoare_pstmt:
  "fault_free P \<Longrightarrow> (\<And>s. P s \<Longrightarrow> Q (Inl ErrDatabase) s) \<Longrightarrow> hoare P m Q \<Longrightarrow> hoare P (stmt m) Q"
  by (rule hoare_stmt) (simp_all add: fault_free_def)

lemma find_name_None: "find (\<lambda>t. pt_Name t = n) ts = None \<longleftrightarrow> n \<notin> pt_Name ` set ts"
  by (auto simp: find_None_iff)

lemma GetByName_hoare:
  "hoare probe_inv (GetProbeTargetByName n) (\<lambda>r s. case r of Inl e \<Rightarrow> e = ErrDatabase \<or> e = ErrNoRows \<and> name_free n s
     | Inr t \<Rightarrow> t \<in> set (db_targets s) \<and> pt_Name t = n)"
  unfolding GetProbeTargetByName_def
  by (rule hoare_pstmt [OF probe_inv_fault_free])
    (auto simp: hoare_def name_free_def find_name_None find_Some_iff split: option.splits)

lemma checkNameFree_hoare:
  "hoare probe_inv (checkNameFree n 0)
     (\<lambda>r s. case r of Inl e \<Rightarrow> e = ErrDatabase \<or> e = ErrDuplicateName | Inr _ \<Rightarrow> name_free n s)"
  unfolding checkNameFree_def
proof (rule hoare_seq)
  let ?Q = "\<lambda>r s. probe_inv s \<and> (case r of Inl e \<Rightarrow> e = ErrDatabase \<or> e = ErrNoRows \<and> name_free n s
     | Inr t \<Rightarrow> t \<in> set (db_targets s) \<and> pt_Name t = n)"
  have "hoare probe_inv (GetProbeTargetByName n) ?Q"
    using hoare_conj [OF hoare_keeps [OF keeps_reads(2) [OF probe_inv_fault_free]] GetByName_hoare] .
  then show "hoare probe_inv (outcome (GetProbeTargetByName n)) (\<lambda>r s. case r of
      Inl e \<Rightarrow> (case Inl e of Inl e \<Rightarrow> e = ErrDatabase \<or> e = ErrDuplicateName | Inr (_ :: unit) \<Rightarrow> name_free n s) | Inr x \<Rightarrow> ?Q x s)"
    by (intro hoare_outcome) simp
  show "hoare (?Q r) (case r of Inl e \<Rightarrow> if e = ErrNoRows then ret () else raise e
      | Inr existing \<Rightarrow> if pt_ID existing \<noteq> 0 then raise ErrDuplicateName else ret ())
     (\<lambda>r s. case r of Inl e \<Rightarrow> e = ErrDatabase \<or> e = ErrDuplicateName | Inr _ \<Rightarrow> name_free n s)" for r
    by (cases r) (auto simp: hoare_def ret_def raise_def probe_inv_def targets_ok_def list_all_iff)
qed


lemma seq_ret: "seq (ret x) f = f x"
  by (simp add: seq_def ret_def fun_eq_iff)

lemma seq_raise: "seq (raise e) f = raise e"
  by (simp add: seq_def raise_def fun_eq_iff)

definition create_params :: "ProbeTargetRequest \<Rightarrow> string \<Rightarrow> int option \<Rightarrow> CreateProbeTargetParams" where
  "create_params req vantage deviceID =
     \<lparr>cp_Name = trim_space (rq_Name req), cp_Module = rq_Module req, cp_Target = trim_space (rq_Target req),
      cp_IntervalSeconds = defaultIfZero (rq_IntervalSeconds req) 60,
      cp_TimeoutSeconds = defaultIfZero (rq_TimeoutSeconds req) 10,
      cp_Enabled = (if rq_Enabled req = Some False then 0 else 1), cp_Notes = rq_Notes req, cp_Vantage = vantage,
      cp_Options = marshalProbeOptions (rq_Options req), cp_DeviceID = deviceID, cp_Source = ProbeSourceManual\<rparr>"

lemma Create_valid:
  assumes "ValidateProbeTargetRequest req = None" "NormalizeProbeVantage (rq_Vantage req) = Inr w"
  shows "Create req = seq (checkNameFree (trim_space (rq_Name req)) 0) (\<lambda>_. seq (create_device (rq_DeviceID req)) (\<lambda>d.
    seq (CreateProbeTarget (create_params req w d)) (\<lambda>t. ret (toTargetResponse t))))"
  using assms by (simp add: Create_def require_def normalized_def seq_ret Let_def create_params_def)

lemma create_check:
  assumes "ValidateProbeTargetRequest req = None"
  shows "target_check (new_target db (create_params req w d))"
  using request_parts(1) [OF assms] request_bounds [OF assms]
  by (simp add: target_check_def new_target_def create_params_def defaultIfZero_def ProbeSourceManual_def)

lemma CreateProbeTarget_hoare:
  assumes "ValidateProbeTargetRequest req = None"
  shows "hoare (\<lambda>s. probe_inv s \<and> db_targets s = ts \<and> name_free (trim_space (rq_Name req)) s)
    (CreateProbeTarget (create_params req w d))
    (\<lambda>r s. case r of Inl e \<Rightarrow> e = ErrDatabase \<and> db_targets s = ts
       | Inr t \<Rightarrow> \<exists>db. db_targets s = ts @ [t] \<and> t = new_target db (create_params req w d) \<and> target_check t \<and>
           pt_ID t \<notin> pt_ID ` set ts)"
  unfolding CreateProbeTarget_def
proof (rule hoare_pstmt)
  show "fault_free (\<lambda>s. probe_inv s \<and> db_targets s = ts \<and> name_free (trim_space (rq_Name req)) s)"
    by (intro fault_free_conj fault_free_targets keeps_intros)
  have fresh: "pt_ID (new_target db a) \<notin> pt_ID ` set (db_targets db)" if "probe_inv db" for db a
    using that by (auto simp: probe_ok_defs new_target_def list_all_iff)
  have nm: "pt_Name (new_target db (create_params req w d)) = trim_space (rq_Name req)" for db
    by (simp add: new_target_def create_params_def)
  show "hoare (\<lambda>s. probe_inv s \<and> db_targets s = ts \<and> name_free (trim_space (rq_Name req)) s)
     (\<lambda>db. let t = new_target db (create_params req w d)
           in if \<not> target_check t \<or> list_ex (\<lambda>u. pt_Name u = pt_Name t) (db_targets db) then (Inl ErrConstraint, db)
              else (Inr t, db\<lparr>db_targets := db_targets db @ [t], db_target_seq := pt_ID t\<rparr>))
     (\<lambda>r s. case r of Inl e \<Rightarrow> e = ErrDatabase \<and> db_targets s = ts
       | Inr t \<Rightarrow> \<exists>db. db_targets s = ts @ [t] \<and> t = new_target db (create_params req w d) \<and> target_check t \<and>
           pt_ID t \<notin> pt_ID ` set ts)"
    using create_check [OF assms] fresh unfolding hoare_def Let_def nm name_free_def
    by (auto simp: list_ex_iff image_iff) metis
qed simp

text \<open>The device a request binds its target to: a positive key of an existing device.\<close>

definition bound_device :: "int option \<Rightarrow> int option" where
  "bound_device d = (case d of Some i \<Rightarrow> if 0 < i then Some i else None | None \<Rightarrow> None)"

definition device_bound :: "int option \<Rightarrow> probe_db \<Rightarrow> int option \<Rightarrow> bool" where
  "device_bound d s x \<longleftrightarrow> x = bound_device d \<and> (\<forall>i. x = Some i \<longrightarrow> i \<in> dev_ID ` set (db_devices s))"

lemma create_device_hoare:
  "hoare P (create_device d) (\<lambda>r s. case r of Inl e \<Rightarrow> e \<noteq> ErrConstraint \<and> P s | Inr x \<Rightarrow> P s \<and> device_bound d s x)" if "fault_free P"
proof -
  let ?Q = "\<lambda>i r s. case r of Inl e \<Rightarrow> e \<noteq> ErrConstraint \<and> P s | Inr _ \<Rightarrow> P s \<and> i \<in> dev_ID ` set (db_devices s)"
  have "hoare P (GetDevice i) (?Q i)" for i
    unfolding GetDevice_def by (rule hoare_pstmt [OF that]) (auto simp: hoare_def find_Some_iff split: option.splits)
  then have dev: "hoare P (checkDeviceExists i) (?Q i)" for i
    unfolding checkDeviceExists_def
    by (intro hoare_seq [where R = "?Q i"] hoare_outcome) (auto simp: hoare_def prog_defs split: sum.splits)
  have some: "hoare P (seq (checkDeviceExists i) (\<lambda>_. ret (Some i)))
      (\<lambda>r s. case r of Inl e \<Rightarrow> e \<noteq> ErrConstraint \<and> P s | Inr x \<Rightarrow> P s \<and> device_bound d s x)" if "d = Some i" "0 < i" for i
    by (rule hoare_seq [where R = "\<lambda>_ s. P s \<and> i \<in> dev_ID ` set (db_devices s)"], rule hoare_weaken [OF dev])
      (auto simp: device_bound_def bound_device_def that split: sum.splits intro!: hoare_ret)
  show ?thesis
  proof (cases "\<exists>i. d = Some i \<and> 0 < i")
    case True
    then show ?thesis using some by (auto simp: create_device_def)
  next
    case False
    then have "create_device d = ret None" "bound_device d = None" by (auto simp: create_device_def bound_device_def split: option.splits)
    then show ?thesis by (auto simp: device_bound_def intro!: hoare_ret)
  qed
qed

lemma fault_free_devices: "fault_free (\<lambda>s. db_devices s = ds)"
  by (simp add: fault_free_def)

lemma Create_all_or_nothing:
  "hoare (\<lambda>s. probe_inv s \<and> db_targets s = ts \<and> db_devices s = ds) (Create req)
    (\<lambda>r s. case r of Inl e \<Rightarrow> e \<noteq> ErrConstraint \<and> db_targets s = ts
       | Inr resp \<Rightarrow> \<exists>db w d. let t = new_target db (create_params req w d) in
           NormalizeProbeVantage (rq_Vantage req) = Inr w \<and> d = bound_device (rq_DeviceID req) \<and> (\<forall>i. d = Some i \<longrightarrow> i \<in> dev_ID ` set ds) \<and>
           db_targets s = ts @ [t] \<and> resp = toTargetResponse t \<and> target_check t \<and> pt_ID t \<notin> pt_ID ` set ts)"
  (is "hoare ?P _ ?Q")
proof (cases "ValidateProbeTargetRequest req")
  case (Some e)
  then show ?thesis using request_Errorf [of req]
    by (auto simp: Create_def require_def seq_raise only_Errorf_def intro!: hoare_raise)
next
  case None
  then obtain w where w: "NormalizeProbeVantage (rq_Vantage req) = Inr w" using request_parts(6) by blast
  let ?n = "trim_space (rq_Name req)"
  let ?F = "\<lambda>s. probe_inv s \<and> db_targets s = ts \<and> db_devices s = ds \<and> name_free ?n s"
  let ?G = "\<lambda>s. probe_inv s \<and> db_targets s = ts \<and> name_free ?n s"
  have ffP: "fault_free ?P" and ffF: "fault_free ?F" by (intro fault_free_conj fault_free_targets fault_free_devices keeps_intros)+
  have name: "hoare ?P (checkNameFree ?n 0) (\<lambda>r s. case r of Inl e \<Rightarrow> ?Q (Inl e) s | Inr _ \<Rightarrow> ?F s)"
  proof -
    have "hoare ?P (checkNameFree ?n 0) (\<lambda>r s. ?P s \<and> (case r of Inl e \<Rightarrow> e = ErrDatabase \<or> e = ErrDuplicateName | Inr _ \<Rightarrow> name_free ?n s))"
      by (rule hoare_conj [OF hoare_keeps [OF keeps_db_guards(1) [OF ffP]]]) (rule hoare_weaken [OF checkNameFree_hoare], auto)
    then show ?thesis by (rule hoare_weaken) (auto simp: ErrDuplicateName_def split: sum.splits)
  qed
  have put: "hoare ?G (seq (CreateProbeTarget (create_params req w d)) (\<lambda>t. ret (toTargetResponse t))) ?Q"
    if "d = bound_device (rq_DeviceID req)" "\<forall>i. d = Some i \<longrightarrow> i \<in> dev_ID ` set ds" for d
    by (rule hoare_seq [where R = "\<lambda>t s. \<exists>db. db_targets s = ts @ [t] \<and> t = new_target db (create_params req w d) \<and> target_check t \<and>
           pt_ID t \<notin> pt_ID ` set ts"])
      (rule hoare_weaken [OF CreateProbeTarget_hoare [OF None]], use that w in \<open>auto simp: Let_def split: sum.splits intro!: hoare_ret\<close>)
  have bound: "hoare (\<lambda>s. ?F s \<and> device_bound (rq_DeviceID req) s d) (seq (CreateProbeTarget (create_params req w d)) (\<lambda>t. ret (toTargetResponse t))) ?Q" for d
  proof (cases "d = bound_device (rq_DeviceID req) \<and> (\<forall>i. d = Some i \<longrightarrow> i \<in> dev_ID ` set ds)")
    case True
    then show ?thesis by (intro hoare_weaken [OF put]) auto
  next
    case False
    then show ?thesis by (auto simp: hoare_def device_bound_def)
  qed
  show ?thesis unfolding Create_valid [OF None w]
  proof (rule hoare_seq [OF name])
    show "hoare ?F (seq (create_device (rq_DeviceID req)) (\<lambda>d.
        seq (CreateProbeTarget (create_params req w d)) (\<lambda>t. ret (toTargetResponse t)))) ?Q"
    proof (rule hoare_seq [OF _ bound])
      show "hoare ?F (create_device (rq_DeviceID req))
          (\<lambda>r s. case r of Inl e \<Rightarrow> ?Q (Inl e) s | Inr x \<Rightarrow> ?F s \<and> device_bound (rq_DeviceID req) s x)"
        by (rule hoare_weaken [OF create_device_hoare [OF ffF]]) (auto split: sum.splits)
    qed
  qed
qed

text \<open>A statement that is not made to fail runs.\<close>

lemma stmt_run: "db_faults s = [] \<Longrightarrow> stmt m s = m s"
  by (simp add: stmt_def)

lemma Get_found:
  "db_faults db = [] \<Longrightarrow> target_by_id db i = Some t \<Longrightarrow> not_found (GetProbeTarget i) db = (Inr t, db)"
  by (simp add: not_found_def GetProbeTarget_def stmt_run prog_defs)

lemma target_by_id_in:
  assumes "probe_inv db" "t \<in> set (db_targets db)"
  shows "target_by_id db (pt_ID t) = Some t"
proof -
  have "distinct (map pt_ID ts) \<Longrightarrow> t \<in> set ts \<Longrightarrow> find (\<lambda>u. pt_ID u = pt_ID t) ts = Some t" for ts
    by (induction ts) auto
  then show ?thesis using assms by (simp add: target_by_id_def probe_ok_defs)
qed

lemma Delete_run:
  assumes "db_faults db = []" "target_by_id db i = Some t"
  shows "Delete i db = (Inr (), db\<lparr>db_targets := filter (\<lambda>t. pt_ID t \<noteq> i) (db_targets db),
     db_results := filter (\<lambda>r. pr_TargetID r \<noteq> i) (db_results db),
     db_certs := filter (\<lambda>c. pc_TargetID c \<noteq> i) (db_certs db)\<rparr>)"
proof -
  have "filter (\<lambda>t. pt_ID t = i) (db_targets db) \<noteq> []"
    using target_by_id_SomeD [OF assms(2)] by (auto simp: filter_empty_conv)
  then show ?thesis using assms
    by (simp add: Delete_def seq_def Get_found DeleteProbeResultsByTarget_def DeleteProbeTLSCertsByTarget_def
        DeleteProbeTarget_def stmt_run ret_def raise_def)
qed

subsection \<open>A zero interval in an update\<close>

text \<open>
  Validation replaces a zero interval by its default before it looks at the bounds, the update stores
  the zero: the row fails its check and the caller gets the constraint error.
\<close>

definition only_interval :: "int \<Rightarrow> UpdateProbeTargetRequest" where
  "only_interval n =
     \<lparr>up_Name = None, up_Module = None, up_Target = None, up_IntervalSeconds = Some n, up_TimeoutSeconds = None,
      up_Enabled = None, up_Notes = None, up_Vantage = None, up_Options = None, up_DeviceID = None\<rparr>"

definition as_request :: "ProbeTarget \<Rightarrow> ProbeTargetRequest" where
  "as_request t =
     \<lparr>rq_Name = pt_Name t, rq_Module = pt_Module t, rq_Target = pt_Target t, rq_IntervalSeconds = pt_IntervalSeconds t,
      rq_TimeoutSeconds = pt_TimeoutSeconds t, rq_Enabled = Some (pt_Enabled t = 1), rq_Notes = pt_Notes t,
      rq_Vantage = pt_Vantage t, rq_Options = parseProbeOptions (pt_Options t), rq_DeviceID = None\<rparr>"

lemma zero_interval_valid:
  assumes "ValidateProbeTargetRequest (as_request t) = None" "pt_TimeoutSeconds t < 60"
  shows "ValidateProbeTargetRequest (as_request t\<lparr>rq_IntervalSeconds := 0\<rparr>) = None"
  using assms unfolding ValidateProbeTargetRequest_def Let_def
  by (simp add: as_request_def probe_bounds split: if_splits sum.splits option.splits)

lemma Update_zero_interval_constraint:
  assumes "db_faults db = []" "target_by_id db i = Some t" "ValidateProbeTargetRequest (as_request t) = None"
    "pt_TimeoutSeconds t < 60"
  shows "Update i (only_interval 0) db = (Inl ErrConstraint, db)"
proof -
  have v: "ValidateProbeTargetRequest \<lparr>rq_Name = pt_Name t, rq_Module = pt_Module t, rq_Target = pt_Target t,
      rq_IntervalSeconds = 0, rq_TimeoutSeconds = pt_TimeoutSeconds t, rq_Enabled = Some (pt_Enabled t = 1),
      rq_Notes = pt_Notes t, rq_Vantage = pt_Vantage t, rq_Options = parseProbeOptions (pt_Options t), rq_DeviceID = None\<rparr> = None"
    using zero_interval_valid [OF assms(3,4)] by (simp add: as_request_def)
  show ?thesis unfolding Update_def Let_def
    by (simp add: seq_def Get_found [OF assms(1,2)] only_interval_def or_else_def update_vantage_def update_options_def
        update_device_def require_def v ret_def UpdateProbeTarget_def stmt_run [OF assms(1)] assms(2) put_target_def target_check_def)
qed


subsection \<open>Properties\<close>

text \<open>
  C12. The option block of a target survives the database: what \<^verbatim>\<open>marshalProbeOptions\<close> stores for a block that
  is not empty, \<^verbatim>\<open>parseProbeOptions\<close> reads back field by field.  The strings of the block are ASCII and its
  status codes \<^verbatim>\<open>int64\<close> values.
\<close>

theorem options_roundtrip:
  assumes "options_ascii o'" "\<not> probeOptionsEmpty (Some o')"
  shows "parseProbeOptions (marshalProbeOptions (Some o')) = Some o'"
  using assms by (rule parse_marshal_options)

definition demo_options :: ProbeOptions where
  "demo_options = no_options\<lparr>po_Method := ''HEAD'', po_ExpectedStatus := [200, 204], po_Keyword := ''a<b'',
     po_IgnoreTLSErrors := True\<rparr>"

theorem options_roundtrip_witness:
  "options_ascii demo_options \<and> \<not> probeOptionsEmpty (Some demo_options) \<and>
   parseProbeOptions (marshalProbeOptions (Some demo_options)) = Some demo_options"
proof -
  have "options_ascii demo_options" "\<not> probeOptionsEmpty (Some demo_options)"
    by (simp_all add: demo_options_def no_options_def options_ascii_def option_members_def member_if_def any_ascii_def
        probeOptionsEmpty_def in_i64_def)
  then show ?thesis using options_roundtrip [of demo_options] by simp
qed

text \<open>Every field of a row as the request has it, with the defaults of the service.\<close>

definition carries :: "ProbeTargetRequest \<Rightarrow> ProbeTarget \<Rightarrow> bool" where
  "carries req t \<longleftrightarrow>
     pt_Name t = trim_space (rq_Name req) \<and> pt_Module t = rq_Module req \<and> pt_Target t = trim_space (rq_Target req) \<and>
     pt_IntervalSeconds t = (if rq_IntervalSeconds req = 0 then 60 else rq_IntervalSeconds req) \<and>
     pt_TimeoutSeconds t = (if rq_TimeoutSeconds req = 0 then 10 else rq_TimeoutSeconds req) \<and>
     pt_Enabled t = (if rq_Enabled req = Some False then 0 else 1) \<and> pt_Notes t = rq_Notes req \<and>
     NormalizeProbeVantage (rq_Vantage req) = Inr (pt_Vantage t) \<and> pt_Options t = marshalProbeOptions (rq_Options req) \<and>
     pt_DeviceID t = (case rq_DeviceID req of Some i \<Rightarrow> if 0 < i then Some i else None | None \<Rightarrow> None) \<and>
     pt_Source t = ''manual'' \<and> pt_LastStatus t = [] \<and> pt_LastRunAt t = []"

text \<open>
  C10. Creating a target is all or nothing, whatever statements the database fails: an error leaves the
  table of targets as it was and is never the opaque constraint error, because validation, the
  defaults and the check of the name have left nothing to the constraints; success appends exactly
  one row under a fresh key and answers with that row.  Every field of the row is the one of the
  request: name and address trimmed, interval and timeout with their defaults, enabled unless the
  request says otherwise, the normalised vantage, the printed options, and the device, which exists.
\<close>

theorem Create_atomic:
  assumes "probe_inv db"
  shows "case Create req db of
      (Inl e, db') \<Rightarrow> e \<noteq> ErrConstraint \<and> db_targets db' = db_targets db
    | (Inr resp, db') \<Rightarrow> \<exists>t. db_targets db' = db_targets db @ [t] \<and> resp = toTargetResponse t \<and> target_check t \<and>
        pt_ID t \<notin> pt_ID ` set (db_targets db) \<and> carries req t \<and> (\<forall>i. pt_DeviceID t = Some i \<longrightarrow> i \<in> dev_ID ` set (db_devices db))"
proof -
  have fields: "carries req (new_target d (create_params req w (bound_device (rq_DeviceID req)))) \<and>
      pt_DeviceID (new_target d (create_params req w (bound_device (rq_DeviceID req)))) = bound_device (rq_DeviceID req)"
    if "NormalizeProbeVantage (rq_Vantage req) = Inr w" for d w
    using that by (simp add: carries_def new_target_def create_params_def defaultIfZero_def bound_device_def ProbeSourceManual_def)
  show ?thesis
  proof (cases "Create req db")
    case (Pair r db')
    show ?thesis
    proof (cases r)
      case (Inl e)
      then show ?thesis using hoareD [OF Create_all_or_nothing [of "db_targets db" "db_devices db" req], of db] assms Pair by simp
    next
      case (Inr resp)
      then obtain db1 w d where "NormalizeProbeVantage (rq_Vantage req) = Inr w" "d = bound_device (rq_DeviceID req)" "\<forall>i. d = Some i \<longrightarrow> i \<in> dev_ID ` set (db_devices db)"
        and t: "db_targets db' = db_targets db @ [new_target db1 (create_params req w d)]" "resp = toTargetResponse (new_target db1 (create_params req w d))"
          "target_check (new_target db1 (create_params req w d))" "pt_ID (new_target db1 (create_params req w d)) \<notin> pt_ID ` set (db_targets db)"
        using hoareD [OF Create_all_or_nothing [of "db_targets db" "db_devices db" req], of db] assms Pair by (auto simp: Let_def)
      then show ?thesis using fields [of w db1] Inr Pair by simp
    qed
  qed
qed

definition demo_request :: ProbeTargetRequest where
  "demo_request =
     \<lparr>rq_Name = '' web '', rq_Module = ''tcp'', rq_Target = ''example.com:443'', rq_IntervalSeconds = 0, rq_TimeoutSeconds = 0,
      rq_Enabled = None, rq_Notes = [], rq_Vantage = [], rq_Options = None, rq_DeviceID = None\<rparr>"

definition empty_probe_db :: probe_db where
  "empty_probe_db =
     \<lparr>db_faults = [], db_targets = [], db_target_seq = 0, db_results = [], db_result_seq = 0, db_certs = [], db_cert_seq = 0,
      db_devices = [], db_networks = [], db_agents = [], db_commands = [], db_command_seq = 0, db_clock = 0\<rparr>"

lemma empty_probe_db_inv: "probe_inv empty_probe_db" "refs_ok empty_probe_db"
  by (simp_all add: empty_probe_db_def probe_ok_defs refs_ok_def)

definition demo_disabled :: ProbeTargetRequest where
  "demo_disabled = demo_request\<lparr>rq_Enabled := Some False, rq_Notes := ''edge'', rq_IntervalSeconds := 30, rq_Vantage := ''all''\<rparr>"

theorem Create_atomic_witness:
  "\<exists>t. db_targets (snd (Create demo_disabled empty_probe_db)) = [t] \<and> carries demo_disabled t \<and>
    pt_Enabled t = 0 \<and> pt_Notes t = ''edge'' \<and> pt_IntervalSeconds t = 30 \<and> pt_TimeoutSeconds t = 10"
proof -
  have "\<not> (case fst (Create demo_disabled empty_probe_db) of Inl _ \<Rightarrow> True | Inr _ \<Rightarrow> False)" by code_simp
  then obtain resp db' where run: "Create demo_disabled empty_probe_db = (Inr resp, db')"
    by (cases "Create demo_disabled empty_probe_db") (auto split: sum.splits)
  obtain t where "db_targets db' = [t]" "carries demo_disabled t"
    using Create_atomic [OF empty_probe_db_inv(1), of demo_disabled] unfolding run by (auto simp: empty_probe_db_def)
  then show ?thesis using run by (simp add: carries_def demo_disabled_def demo_request_def)
qed

datatype service_op = OpCreate ProbeTargetRequest | OpUpdate int UpdateProbeTargetRequest | OpDelete int

definition run_op :: "service_op \<Rightarrow> probe_db \<Rightarrow> probe_db" where
  "run_op a db =
     (case a of
        OpCreate req \<Rightarrow> snd (Create req db)
      | OpUpdate i req \<Rightarrow> snd (Update i req db)
      | OpDelete i \<Rightarrow> snd (Delete i db))"

text \<open>
  C11. The tables stay consistent under every sequence of the service's writes, whatever statements fail
  on the way: keys and names stay unique, every row satisfies its checks, and no result or certificate
  is left without its target, although the database cascades nothing.
\<close>

theorem service_keeps_tables:
  assumes "probe_inv db" "refs_ok db"
  shows "probe_inv (fold run_op ops db) \<and> refs_ok (fold run_op ops db)"
proof -
  have "probe_inv (run_op a d) \<and> refs_ok (run_op a d)" if "probe_inv d \<and> refs_ok d" for a d
    using that keepsD [OF keeps_service_writes(1)] keepsD [OF keeps_service_writes(2)] keepsD [OF keeps_service_writes(3)]
      keepsD [OF keeps_refs_service(1)] keepsD [OF keeps_refs_service(2)] keepsD [OF Delete_refs]
    by (cases a) (simp_all add: run_op_def)
  then show ?thesis using assms by (induction ops arbitrary: db) simp_all
qed

theorem service_keeps_tables_witness:
  "probe_inv empty_probe_db \<and> refs_ok empty_probe_db \<and>
   (let db = fold run_op [OpCreate demo_request, OpCreate demo_request, OpDelete 1] empty_probe_db in probe_inv db \<and> refs_ok db)"
  using service_keeps_tables [OF empty_probe_db_inv, of "[OpCreate demo_request, OpCreate demo_request, OpDelete 1]"]
    empty_probe_db_inv by (simp add: Let_def)

text \<open>
  C13. Deleting a target removes its row, its results and its certificates and nothing else.
\<close>

theorem Delete_exact:
  assumes "db_faults db = []" "target_by_id db i = Some t"
  shows "Delete i db = (Inr (), db\<lparr>db_targets := filter (\<lambda>t. pt_ID t \<noteq> i) (db_targets db),
     db_results := filter (\<lambda>r. pr_TargetID r \<noteq> i) (db_results db),
     db_certs := filter (\<lambda>c. pc_TargetID c \<noteq> i) (db_certs db)\<rparr>)"
  using assms by (rule Delete_run)

definition demo_target :: ProbeTarget where
  "demo_target = new_target empty_probe_db (create_params demo_request ''center'' None)"

definition demo_db :: probe_db where
  "demo_db = empty_probe_db\<lparr>db_targets := [demo_target], db_target_seq := 1\<rparr>"

theorem Delete_exact_witness:
  "db_faults demo_db = [] \<and> target_by_id demo_db 1 = Some demo_target \<and> fst (Delete 1 demo_db) = Inr () \<and>
   db_targets (snd (Delete 1 demo_db)) = []"
proof -
  have "db_faults demo_db = []" "target_by_id demo_db 1 = Some demo_target" "pt_ID demo_target = 1"
    by (simp_all add: demo_db_def demo_target_def target_by_id_def empty_probe_db_def new_target_def)
  then show ?thesis using Delete_exact [of demo_db 1 demo_target] by (simp add: demo_db_def)
qed

text \<open>
  C14. An update that sets the interval of a valid target to zero passes validation, which reads zero as the
  default of 60 seconds, and is then refused by the constraint of the table, because the zero is what
  is stored: the caller gets the database's error instead of a validation error or the default.
\<close>

theorem Update_zero_interval:
  assumes "db_faults db = []" "target_by_id db i = Some t" "ValidateProbeTargetRequest (as_request t) = None"
    "pt_TimeoutSeconds t < 60"
  shows "ValidateProbeTargetRequest (as_request t\<lparr>rq_IntervalSeconds := 0\<rparr>) = None \<and>
    Update i (only_interval 0) db = (Inl ErrConstraint, db)"
  using zero_interval_valid [OF assms(3,4)] Update_zero_interval_constraint [OF assms] by simp

theorem Update_zero_interval_witness:
  "Update 1 (only_interval 0) demo_db = (Inl ErrConstraint, demo_db)"
proof -
  have "db_faults demo_db = []" "target_by_id demo_db 1 = Some demo_target" "pt_TimeoutSeconds demo_target < 60"
    by (simp_all add: demo_db_def demo_target_def target_by_id_def empty_probe_db_def new_target_def create_params_def
        demo_request_def defaultIfZero_def)
  moreover have "ValidateProbeTargetRequest (as_request demo_target) = None" by code_simp
  ultimately show ?thesis using Update_zero_interval [of demo_db 1 demo_target] by blast
qed

end
