(* ===== verification/Probe_Executor.thy ===== *)
theory Probe_Executor
  imports Probe_Service
begin

section \<open>Synthetic probing: executing one probe\<close>

text \<open>
  \<^verbatim>\<open>executor.go\<close>, \<^verbatim>\<open>executor_options.go\<close> and \<^verbatim>\<open>executor_dns.go\<close>: the dispatch of a target to its module and the
  verdict on what came back.  What the network answers, and how long it took, is the argument \<open>w\<close>: the
  shared probers, the certificate collector, the HTTP client, the TCP connection and the resolver, each
  as the function from what the code asks to what it gets.  The regular expressions of package
  \<^verbatim>\<open>regexp\<close> enter as the function from a pattern to the error of compiling it or to its matcher.
\<close>

record probe_result =
  res_Success :: bool
  res_Latency :: duration
  res_ErrorMessage :: string
  res_StatusCode :: int

record TLSCertRecord =
  tc_IP :: string
  tc_Port :: int
  tc_CertIndex :: int
  tc_SubjectCN :: string
  tc_SubjectOrg :: string
  tc_Subject :: string
  tc_IssuerCN :: string
  tc_IssuerOrg :: string
  tc_Issuer :: string
  tc_SanDNS :: string
  tc_SanIP :: string
  tc_SanEmail :: string
  tc_Serial :: string
  tc_NotBefore :: string
  tc_NotAfter :: string
  tc_SigAlgorithm :: string
  tc_KeyAlgorithm :: string
  tc_KeyBits :: int
  tc_IsCA :: bool
  tc_SelfSigned :: bool
  tc_FingerprintSHA256 :: string
  tc_PEM :: string
  tc_TLSVersion :: string
  tc_CipherSuite :: string
  tc_Trusted :: bool
  tc_Error :: string

record http_response =
  resp_StatusCode :: int
  resp_Body :: "string + string"

record tcp_session =
  tcp_Dial :: "string option"
  tcp_Write :: "string option"
  tcp_Read :: "string \<times> string option"
  tcp_Elapsed :: duration

record world =
  w_Probe :: "string \<Rightarrow> string \<Rightarrow> duration \<Rightarrow> string + probe_result"
  w_CertCollect :: "string \<Rightarrow> int \<Rightarrow> duration \<Rightarrow> TLSCertRecord list"
  w_CertElapsed :: duration
  w_NewRequest :: "string \<Rightarrow> string \<Rightarrow> string option"
  w_Do :: "string \<Rightarrow> bool \<Rightarrow> string \<Rightarrow> duration \<Rightarrow> duration \<times> (string + http_response)"
  w_Tcp :: "string \<Rightarrow> string \<Rightarrow> duration \<Rightarrow> tcp_session"
  w_Lookup :: "string option \<Rightarrow> string \<Rightarrow> string \<Rightarrow> duration \<Rightarrow> duration \<times> string list \<times> string option"
  w_Regexp :: "string \<Rightarrow> string + (string \<Rightarrow> bool)"

record Outcome =
  out_Status :: string
  out_Latency :: duration
  out_StatusCode :: int
  out_ErrMsg :: string
  out_TLSVersion :: string
  out_CertNotAfter :: string
  out_CertTrusted :: "bool option"
  out_Certs :: "TLSCertRecord list"

definition plain_outcome :: "string \<Rightarrow> duration \<Rightarrow> int \<Rightarrow> string \<Rightarrow> Outcome" where
  "plain_outcome status latency code msg =
     \<lparr>out_Status = status, out_Latency = latency, out_StatusCode = code, out_ErrMsg = msg, out_TLSVersion = [],
      out_CertNotAfter = [], out_CertTrusted = None, out_Certs = []\<rparr>"

definition classifyError :: "string \<Rightarrow> string" where
  "classifyError msg =
     (let l = to_lower msg in
      if contains_str l ''timeout'' \<or> contains_str l ''context deadline exceeded'' \<or> contains_str l ''request canceled''
      then ''timeout'' else ''fail'')"

definition outcomeFromResult :: "probe_result \<Rightarrow> Outcome" where
  "outcomeFromResult res =
     (if res_Success res then plain_outcome ''success'' (res_Latency res) (res_StatusCode res) []
      else plain_outcome (classifyError (res_ErrorMessage res)) (res_Latency res) (res_StatusCode res) (res_ErrorMessage res))"

definition error_record :: "string \<Rightarrow> int \<Rightarrow> string \<Rightarrow> TLSCertRecord" where
  "error_record host port msg =
     \<lparr>tc_IP = host, tc_Port = port, tc_CertIndex = 0, tc_SubjectCN = [], tc_SubjectOrg = [], tc_Subject = [],
      tc_IssuerCN = [], tc_IssuerOrg = [], tc_Issuer = [], tc_SanDNS = [], tc_SanIP = [], tc_SanEmail = [], tc_Serial = [],
      tc_NotBefore = [], tc_NotAfter = [], tc_SigAlgorithm = [], tc_KeyAlgorithm = [], tc_KeyBits = 0, tc_IsCA = False,
      tc_SelfSigned = False, tc_FingerprintSHA256 = [], tc_PEM = [], tc_TLSVersion = [], tc_CipherSuite = [],
      tc_Trusted = False, tc_Error = msg\<rparr>"

definition collectCerts :: "world \<Rightarrow> string \<Rightarrow> int \<Rightarrow> duration \<Rightarrow> TLSCertRecord list" where
  "collectCerts w host port timeout =
     (let certs = w_CertCollect w host port timeout in
      if certs = [] then [error_record host port ''tls handshake returned no records''] else certs)"

definition attachCerts :: "TLSCertRecord list \<Rightarrow> Outcome \<Rightarrow> Outcome" where
  "attachCerts certs out =
     (if certs = [] \<or> tc_Error (hd certs) \<noteq> [] then out
      else out\<lparr>out_TLSVersion := tc_TLSVersion (hd certs), out_CertNotAfter := tc_NotAfter (hd certs),
               out_CertTrusted := Some (tc_Trusted (hd certs)), out_Certs := certs\<rparr>)"

text \<open>An https target also has its chain collected; the port defaults to 443.\<close>

definition withHTTPCerts :: "world \<Rightarrow> ProbeTarget \<Rightarrow> duration \<Rightarrow> Outcome \<Rightarrow> Outcome" where
  "withHTTPCerts w t timeout out =
     (case url_parse (pt_Target t) of
        None \<Rightarrow> out
      | Some u \<Rightarrow>
          (if url_Scheme u = ''https'' then
             (let p = url_Port u;
                  port = (if p = [] then 443 else case atoi p of None \<Rightarrow> 443 | Some n \<Rightarrow> n)
              in attachCerts (collectCerts w (url_Hostname u) port timeout) out)
           else out))"

definition executeHTTP :: "world \<Rightarrow> ProbeTarget \<Rightarrow> duration \<Rightarrow> Outcome" where
  "executeHTTP w t timeout =
     (case w_Probe w ''http'' (pt_Target t) timeout of
        Inl err \<Rightarrow> plain_outcome (classifyError err) 0 0 err
      | Inr res \<Rightarrow> withHTTPCerts w t timeout (outcomeFromResult res))"

definition executeTLS :: "world \<Rightarrow> ProbeTarget \<Rightarrow> duration \<Rightarrow> Outcome" where
  "executeTLS w t timeout =
     (case split_host_port (pt_Target t) of
        Inl err \<Rightarrow> plain_outcome ''fail'' 0 0 (''invalid target: '' @ err)
      | Inr (host, portStr) \<Rightarrow>
          (case atoi portStr of
             None \<Rightarrow> plain_outcome ''fail'' 0 0 ''invalid target port''
           | Some port \<Rightarrow>
               (let certs = collectCerts w host port timeout; leaf = hd certs in
                if tc_Error leaf \<noteq> [] then plain_outcome (classifyError (tc_Error leaf)) (w_CertElapsed w) 0 (tc_Error leaf)
                else (plain_outcome ''success'' (w_CertElapsed w) 0 [])
                       \<lparr>out_TLSVersion := tc_TLSVersion leaf, out_CertNotAfter := tc_NotAfter leaf,
                        out_CertTrusted := Some (tc_Trusted leaf), out_Certs := certs\<rparr>)))"

definition executeSimple :: "world \<Rightarrow> ProbeTarget \<Rightarrow> string \<Rightarrow> duration \<Rightarrow> Outcome" where
  "executeSimple w t mdl timeout =
     (case w_Probe w mdl (pt_Target t) timeout of
        Inl err \<Rightarrow> plain_outcome (classifyError err) 0 0 err
      | Inr res \<Rightarrow> outcomeFromResult res)"

subsection \<open>Options\<close>

definition statusExpected :: "int list \<Rightarrow> int \<Rightarrow> bool" where
  "statusExpected expected code = (if expected = [] then code < 400 else code \<in> set expected)"

text \<open>The verb \<^verbatim>\<open>%q\<close>; bytes outside of ASCII are taken to be printable.\<close>

definition go_quote :: "string \<Rightarrow> string" where
  "go_quote s =
     CHR 0x22 # concat (map (\<lambda>c.
       if c = CHR 0x22 \<or> c = CHR 0x5C then [CHR 0x5C, c]
       else if 7 \<le> ord c \<and> ord c \<le> 13 then [CHR 0x5C, ''abtnvfr'' ! (ord c - 7)]
       else if ord c < 32 \<or> ord c = 127 then CHR 0x5C # CHR ''x'' # hex2 (ord c)
       else [c]) s) @ [CHR 0x22]"

text \<open>The verdict of a match, its reason, or the error of an unusable pattern.\<close>

definition matchPayload :: "world \<Rightarrow> string \<Rightarrow> string \<Rightarrow> string \<Rightarrow> string + bool \<times> string" where
  "matchPayload w mode pattern payload =
     (if mode = [] \<or> mode = ProbeKeywordContains then
        (if contains_str payload pattern then Inr (True, []) else Inr (False, ''body does not contain keyword''))
      else if mode = ProbeKeywordNotContains then
        (if contains_str payload pattern then Inr (False, ''body contains forbidden keyword'') else Inr (True, []))
      else if mode = ProbeKeywordRegex then
        (case w_Regexp w pattern of
           Inl err \<Rightarrow> Inl (''invalid regex: '' @ err)
         | Inr re \<Rightarrow> if re payload then Inr (True, []) else Inr (False, ''body does not match regex''))
      else Inl (''unknown match mode '' @ go_quote mode))"

definition executeHTTPOptions :: "world \<Rightarrow> ProbeTarget \<Rightarrow> ProbeOptions \<Rightarrow> duration \<Rightarrow> Outcome" where
  "executeHTTPOptions w t opts timeout =
     (let mth = (if po_Method opts = ''HEAD'' then ''HEAD'' else ''GET'') in
      case w_NewRequest w mth (pt_Target t) of
        Some err \<Rightarrow> plain_outcome ''fail'' 0 0 err
      | None \<Rightarrow>
          (case w_Do w mth (po_IgnoreTLSErrors opts) (pt_Target t) timeout of
             (elapsed, Inl err) \<Rightarrow> plain_outcome (classifyError err) elapsed 0 err
           | (elapsed, Inr resp) \<Rightarrow>
               (let code = resp_StatusCode resp;
                    verdict = (\<lambda>status msg. withHTTPCerts w t timeout (plain_outcome status elapsed code msg))
                in if \<not> statusExpected (po_ExpectedStatus opts) code
                   then verdict ''fail'' (''http status '' @ itoa code @ '' not in expected set'')
                   else if po_Keyword opts \<noteq> [] \<and> mth \<noteq> ''HEAD'' then
                     (case resp_Body resp of
                        Inl err \<Rightarrow> verdict ''fail'' (''read body: '' @ err)
                      | Inr body \<Rightarrow>
                          (case matchPayload w (po_KeywordMode opts) (po_Keyword opts) (take 1048577 body) of
                             Inl err \<Rightarrow> verdict ''fail'' err
                           | Inr (True, _) \<Rightarrow> verdict ''success'' []
                           | Inr (False, reason) \<Rightarrow> verdict ''fail'' reason))
                   else verdict ''success'' [])))"

definition executeTCPOptions :: "world \<Rightarrow> ProbeTarget \<Rightarrow> ProbeOptions \<Rightarrow> duration \<Rightarrow> Outcome" where
  "executeTCPOptions w t opts timeout =
     (let c = w_Tcp w (pt_Target t) (po_Send opts) timeout; elapsed = tcp_Elapsed c in
      case tcp_Dial c of
        Some err \<Rightarrow> plain_outcome (classifyError err) elapsed 0 err
      | None \<Rightarrow>
          (case (if po_Send opts = [] then None else tcp_Write c) of
             Some err \<Rightarrow> plain_outcome (classifyError err) elapsed 0 (''write payload: '' @ err)
           | None \<Rightarrow>
               (if po_Expect opts = [] then plain_outcome ''success'' elapsed 0 []
                else case tcp_Read c of
                       (banner, rerr) \<Rightarrow>
                         (if rerr \<noteq> None \<and> banner = []
                          then plain_outcome (classifyError (the rerr)) elapsed 0 (''read banner: '' @ the rerr)
                          else case matchPayload w (po_ExpectMode opts) (po_Expect opts) (take 4096 banner) of
                                 Inl err \<Rightarrow> plain_outcome ''fail'' elapsed 0 err
                               | Inr (True, _) \<Rightarrow> plain_outcome ''success'' elapsed 0 []
                               | Inr (False, reason) \<Rightarrow> plain_outcome ''fail'' elapsed 0 reason))))"

subsection \<open>Names\<close>

definition resolveErr :: "string option \<Rightarrow> string" where
  "resolveErr err =
     (case err of
        None \<Rightarrow> []
      | Some e \<Rightarrow> if contains_str e ''no such host'' then ''NXDOMAIN: no such host'' else e)"

text \<open>The address the pinned resolver is dialled at.\<close>

definition customResolver :: "string \<Rightarrow> string" where
  "customResolver resolver = (if SplitHostPort resolver = None then JoinHostPort resolver ''53'' else resolver)"

text \<open>The texts compared are addresses, so folding the case of ASCII letters is all of \<^verbatim>\<open>EqualFold\<close>.\<close>

definition intersects :: "string list \<Rightarrow> string list \<Rightarrow> bool" where
  "intersects want got = list_ex (\<lambda>x. list_ex (\<lambda>g. to_lower x = to_lower g) got) want"

definition sprint_list :: "string list \<Rightarrow> string" where
  "sprint_list xs = ''['' @ join_with '' '' xs @ '']''"

definition executeDNS :: "world \<Rightarrow> ProbeTarget \<Rightarrow> duration \<Rightarrow> Outcome" where
  "executeDNS w t timeout =
     (let opts = parseProbeOptions (pt_Options t);
          record = (case opts of None \<Rightarrow> ProbeRecordA | Some p \<Rightarrow> if po_Record p = [] then ProbeRecordA else po_Record p);
          resolver = (case opts of None \<Rightarrow> [] | Some p \<Rightarrow> trim_space (po_Resolver p));
          expectedIPs = (case opts of None \<Rightarrow> [] | Some p \<Rightarrow> po_ExpectedIPs p)
      in if record \<noteq> ProbeRecordA \<and> record \<noteq> ProbeRecordAAAA \<and> record \<noteq> ProbeRecordCNAME \<and> record \<noteq> ProbeRecordTXT
         then plain_outcome ''fail'' 0 0 (''unsupported dns record '' @ record)
         else case w_Lookup w (if resolver = [] then None else Some (customResolver resolver)) record (pt_Target t) timeout of
                (elapsed, answers, err) \<Rightarrow>
                  (let fail = resolveErr err in
                   if fail \<noteq> [] then plain_outcome (classifyError fail) elapsed 0 fail
                   else if expectedIPs \<noteq> [] \<and> (record = ProbeRecordA \<or> record = ProbeRecordAAAA) \<and> \<not> intersects expectedIPs answers
                   then plain_outcome ''fail'' elapsed 0
                          (''resolved '' @ sprint_list answers @ '' does not intersect expected_ips '' @ sprint_list expectedIPs)
                   else plain_outcome ''success'' elapsed 0 []))"

subsection \<open>Dispatch\<close>

definition execute :: "world \<Rightarrow> ProbeTarget \<Rightarrow> Outcome" where
  "execute w t =
     (let timeout = i64 (pt_TimeoutSeconds t * second); opts = parseProbeOptions (pt_Options t) in
      if pt_Module t = ''http'' then
        (case opts of Some p \<Rightarrow> executeHTTPOptions w t p timeout | None \<Rightarrow> executeHTTP w t timeout)
      else if pt_Module t = ''tls'' then executeTLS w t timeout
      else if pt_Module t = ''tcp'' then
        (case opts of Some p \<Rightarrow> executeTCPOptions w t p timeout | None \<Rightarrow> executeSimple w t ''tcp'' timeout)
      else if pt_Module t = ''icmp'' then executeSimple w t ''icmp'' timeout
      else if pt_Module t = ''dns'' then executeDNS w t timeout
      else plain_outcome ''fail'' 0 0 (''unknown module: '' @ pt_Module t))"

subsection \<open>Verdicts\<close>

abbreviation verdict_ok :: "string \<Rightarrow> bool" where
  "verdict_ok s \<equiv> s \<in> set [''success'', ''fail'', ''timeout'']"

lemma classifyError_cases: "classifyError msg = ''timeout'' \<or> classifyError msg = ''fail''"
  by (simp add: classifyError_def Let_def)

lemma classify_ok: "verdict_ok (classifyError msg)"
  using classifyError_cases [of msg] by auto

lemma out_Status_plain [simp]: "out_Status (plain_outcome s l c m) = s"
  by (simp add: plain_outcome_def)

lemma out_Status_attach [simp]: "out_Status (attachCerts certs out) = out_Status out"
  by (simp add: attachCerts_def)

lemma out_Status_withHTTPCerts [simp]: "out_Status (withHTTPCerts w t d out) = out_Status out"
  by (simp add: withHTTPCerts_def Let_def split: option.splits)

lemma outcomeFromResult_ok: "verdict_ok (out_Status (outcomeFromResult res))"
  using classify_ok by (simp add: outcomeFromResult_def)

text \<open>An outcome with one of the three verdicts, by the shape of the code that returns it.\<close>

definition ok_outcome :: "Outcome \<Rightarrow> bool" where
  "ok_outcome out \<longleftrightarrow> verdict_ok (out_Status out)"

named_theorems ok_intros \<open>outcomes with a valid verdict\<close>

lemma ok_outcomes [ok_intros]:
  "ok_outcome (plain_outcome ''success'' l c m)" "ok_outcome (plain_outcome ''fail'' l c m)"
  "ok_outcome (plain_outcome (classifyError e) l c m)" "ok_outcome (outcomeFromResult res)"
  using classifyError_cases [of e] outcomeFromResult_ok by (auto simp: ok_outcome_def)

lemma ok_control [ok_intros]:
  "ok_outcome a \<Longrightarrow> ok_outcome b \<Longrightarrow> ok_outcome (if c then a else b)"
  "ok_outcome a \<Longrightarrow> (\<And>x. ok_outcome (f x)) \<Longrightarrow> ok_outcome (case v of None \<Rightarrow> a | Some x \<Rightarrow> f x)"
  "(\<And>x. ok_outcome (g x)) \<Longrightarrow> (\<And>x. ok_outcome (h x)) \<Longrightarrow> ok_outcome (case r of Inl x \<Rightarrow> g x | Inr x \<Rightarrow> h x)"
  "(\<And>a b. ok_outcome (k a b)) \<Longrightarrow> ok_outcome (case p of (a, b) \<Rightarrow> k a b)"
  "ok_outcome a \<Longrightarrow> ok_outcome b \<Longrightarrow> ok_outcome (case q of True \<Rightarrow> a | False \<Rightarrow> b)"
  "ok_outcome out \<Longrightarrow> ok_outcome (withHTTPCerts w t d out)"
  by (auto simp: ok_outcome_def split: option.splits sum.splits prod.splits bool.splits)

lemma ok_tls [ok_intros]:
  "ok_outcome out \<Longrightarrow> ok_outcome (out\<lparr>out_TLSVersion := a, out_CertNotAfter := b, out_CertTrusted := c, out_Certs := e\<rparr>)"
  by (simp add: ok_outcome_def)

lemma ok_modules [ok_intros]:
  "ok_outcome (executeHTTP w t d)" "ok_outcome (executeTLS w t d)" "ok_outcome (executeSimple w t m d)"
  "ok_outcome (executeHTTPOptions w t p d)" "ok_outcome (executeTCPOptions w t p d)" "ok_outcome (executeDNS w t d)"
  unfolding executeHTTP_def executeTLS_def executeSimple_def executeHTTPOptions_def executeTCPOptions_def executeDNS_def Let_def
  by (intro ok_intros)+

lemma execute_ok: "ok_outcome (execute w t)"
  unfolding execute_def Let_def by (intro ok_intros)

subsection \<open>Properties\<close>

text \<open>
  C17. Every probe ends with one of the verdicts the schema of the results allows, whatever the network
  answers and whatever the target row holds: an unknown module, an unusable target or options that do
  not decode included.  A collected certificate chain never changes the verdict of an HTTP probe.
\<close>

theorem execute_verdicts:
  "verdict_ok (out_Status (execute w t)) \<and>
   out_Status (executeHTTP w t d) =
     (case w_Probe w ''http'' (pt_Target t) d of Inl err \<Rightarrow> classifyError err | Inr res \<Rightarrow> out_Status (outcomeFromResult res))"
  using execute_ok [of w t] by (simp add: ok_outcome_def executeHTTP_def split: sum.splits)

text \<open>
  The comparison of DNS answers with the expected addresses is textual: an expected address that denotes
  the very address the resolver answered, but in another spelling, fails the probe.  Validation
  accepts the spelling.
\<close>

theorem expected_ip_spelling:
  "ValidateProbeOptions ''dns'' (Some (no_options\<lparr>po_Record := ''AAAA'', po_ExpectedIPs := [''2001:db8:0:0:0:0:0:1'']\<rparr>)) = None \<and>
   ParseIP ''2001:db8:0:0:0:0:0:1'' = ParseIP ''2001:db8::1'' \<and>
   \<not> intersects [''2001:db8:0:0:0:0:0:1''] [''2001:db8::1'']"
  by code_simp

end
