(* ===== verification/Probe_Engine.thy ===== *)
theory Probe_Engine
  imports Probe_Executor Agent_Watch
begin

section \<open>Synthetic probing: the engine\<close>

text \<open>
  \<^verbatim>\<open>engine.go\<close>, \<^verbatim>\<open>transition.go\<close>, the gauges of \<^verbatim>\<open>metrics.go\<close> and the ingestion of agent results in
  \<^verbatim>\<open>dispatcher.go\<close>.  The engine lists the enabled targets on every tick, launches the ones that are due,
  executes each probe once at a time and records what it found: a result row, the summary on the
  target, the certificate chain, the gauges, and the change of state of the track if there is one.
\<close>

subsection \<open>The transition detector\<close>

definition defaultProbeFailThreshold :: int where "defaultProbeFailThreshold = 3"
definition probeStatusSuccess :: string where "probeStatusSuccess = ''success''"

record probeState =
  ps_failing :: bool
  ps_streak :: int

type_synonym trackKey = "int \<times> string"

record transitionDetector =
  td_states :: "trackKey \<rightharpoonup> probeState"
  td_threshold :: int

definition newTransitionDetector :: "int \<Rightarrow> transitionDetector" where
  "newTransitionDetector threshold =
     \<lparr>td_states = Map.empty, td_threshold = (if threshold \<le> 0 then defaultProbeFailThreshold else threshold)\<rparr>"

definition observe :: "int \<Rightarrow> string \<Rightarrow> string \<Rightarrow> string \<Rightarrow> transitionDetector \<Rightarrow> string \<times> transitionDetector" where
  "observe targetID vantage lastStatus status d =
     (let failed = (status \<noteq> probeStatusSuccess); key = (targetID, vantage);
          st = (case td_states d key of
                  Some st \<Rightarrow> st
                | None \<Rightarrow> \<lparr>ps_failing = (lastStatus \<noteq> [] \<and> lastStatus \<noteq> probeStatusSuccess), ps_streak = 0\<rparr>);
          put = (\<lambda>st. d\<lparr>td_states := (td_states d)(key \<mapsto> st)\<rparr>)
      in if \<not> failed then
           (if ps_failing st then (ChangeTypeProbeRecovered, put (st\<lparr>ps_streak := 0, ps_failing := False\<rparr>))
            else ([], put (st\<lparr>ps_streak := 0\<rparr>)))
         else if ps_failing st then ([], put st)
         else if td_threshold d \<le> ps_streak st + 1
         then (ChangeTypeProbeFailed, put (st\<lparr>ps_failing := True, ps_streak := 0\<rparr>))
         else ([], put (st\<lparr>ps_streak := ps_streak st + 1\<rparr>)))"

definition prune :: "int list \<Rightarrow> transitionDetector \<Rightarrow> transitionDetector" where
  "prune present d = d\<lparr>td_states := map_keep (\<lambda>k. fst k \<in> set present) (td_states d)\<rparr>"

subsection \<open>Gauges\<close>

type_synonym labelPair = "string \<times> string \<times> string"

record metrics =
  m_up :: "labelPair \<rightharpoonup> rat"
  m_duration :: "labelPair \<rightharpoonup> rat"
  m_certExpiry :: "labelPair \<rightharpoonup> int"
  m_checks :: "labelPair \<Rightarrow> nat"
  m_seen :: "(string \<times> labelPair) list"

definition metric_key :: "labelPair \<Rightarrow> string" where
  "metric_key l = (case l of (name, mdl, vantage) \<Rightarrow> name @ ''/'' @ mdl @ ''/'' @ vantage)"

definition m_record :: "labelPair \<Rightarrow> string \<Rightarrow> rat \<Rightarrow> int option \<Rightarrow> metrics option \<Rightarrow> metrics option" where
  "m_record l status latencySeconds certExpiry mm =
     (case mm of
        None \<Rightarrow> None
      | Some m \<Rightarrow>
          (let chk = (status, fst (snd l), snd (snd l)) in
           Some (m\<lparr>m_up := (m_up m)(l \<mapsto> (if status = ''success'' then 1 else 0)),
                   m_duration := (m_duration m)(l \<mapsto> latencySeconds),
                   m_certExpiry := (m_certExpiry m)(l := certExpiry),
                   m_checks := (m_checks m)(chk := m_checks m chk + 1),
                   m_seen := (metric_key l, l) # filter (\<lambda>kp. fst kp \<noteq> metric_key l) (m_seen m)\<rparr>)))"

definition m_retain :: "string list \<Rightarrow> metrics option \<Rightarrow> metrics option" where
  "m_retain current mm =
     (case mm of
        None \<Rightarrow> None
      | Some m \<Rightarrow>
          (let gone = filter (\<lambda>(key, l). snd (snd l) = ProbeVantageCenter \<and> key \<notin> set current) (m_seen m);
               dead = set (map snd gone)
           in Some (m\<lparr>m_up := map_keep (\<lambda>l. l \<notin> dead) (m_up m), m_duration := map_keep (\<lambda>l. l \<notin> dead) (m_duration m),
                      m_certExpiry := map_keep (\<lambda>l. l \<notin> dead) (m_certExpiry m),
                      m_seen := filter (\<lambda>kp. kp \<notin> set gone) (m_seen m)\<rparr>)))"

definition certExpiryUnix :: "string \<Rightarrow> int option" where
  "certExpiryUnix notAfter =
     (if notAfter = [] then None else map_option (\<lambda>t. t div second) (parse_rfc3339 notAfter))"

subsection \<open>State\<close>

definition ErrProbeTargetDisabled :: go_error where "ErrProbeTargetDisabled = Sentinel ''ErrProbeTargetDisabled''"
definition ErrProbeBusy :: go_error where "ErrProbeBusy = Sentinel ''ErrProbeBusy''"
definition ErrEngineNotAvailable :: go_error where "ErrEngineNotAvailable = Sentinel ''ErrEngineNotAvailable''"
definition ErrProbeVantageNotLocal :: go_error where "ErrProbeVantageNotLocal = Sentinel ''ErrProbeVantageNotLocal''"

definition tickInterval :: duration where "tickInterval = 10 * second"
definition defaultMaxConcurrency :: int where "defaultMaxConcurrency = 8"

text \<open>
  The database and the engine.  \<open>eng_nil\<close> says that the service was built without an engine; the events
  handed to the recorder are collected in \<open>eng_events\<close>.
\<close>

record Engine =
  eng_db :: probe_db
  eng_nil :: bool
  eng_metrics :: "metrics option"
  eng_nextDue :: "int \<rightharpoonup> gotime"
  eng_inFlight :: "int set"
  eng_slots :: int
  eng_recorder :: bool
  eng_transitions :: transitionDetector
  eng_events :: "snapshot ChangeEvent list"

type_synonym 'a eprog = "(Engine, 'a) prog"

definition NewEngine :: "probe_db \<Rightarrow> metrics option \<Rightarrow> int \<Rightarrow> bool \<Rightarrow> Engine" where
  "NewEngine queries reg maxConcurrency recorder =
     \<lparr>eng_db = queries, eng_nil = False, eng_metrics = reg, eng_nextDue = Map.empty, eng_inFlight = {},
      eng_slots = (if maxConcurrency \<le> 0 then defaultMaxConcurrency else maxConcurrency), eng_recorder = recorder,
      eng_transitions = newTransitionDetector defaultProbeFailThreshold, eng_events = []\<rparr>"

definition WithNotifyFailThreshold :: "int \<Rightarrow> Engine \<Rightarrow> Engine" where
  "WithNotifyFailThreshold n e =
     e\<lparr>eng_transitions := (eng_transitions e)\<lparr>td_threshold := (if n \<le> 0 then defaultProbeFailThreshold else n)\<rparr>\<rparr>"

definition on_db :: "'a pprog \<Rightarrow> 'a eprog" where
  "on_db m e = (case m (eng_db e) of (r, db) \<Rightarrow> (r, e\<lparr>eng_db := db\<rparr>))"

subsection \<open>One probe\<close>

definition boolToInt64 :: "bool \<Rightarrow> int" where
  "boolToInt64 b = (if b then 1 else 0)"

definition certTrustedDB :: "bool option \<Rightarrow> int" where
  "certTrustedDB v = (case v of None \<Rightarrow> - 1 | Some b \<Rightarrow> boolToInt64 b)"

definition latency_ms :: "duration \<Rightarrow> rat" where
  "latency_ms d = of_int (if d < 0 then - ((- d) div 1000) else d div 1000) / 1000"

definition cert_params :: "int \<Rightarrow> TLSCertRecord \<Rightarrow> ProbeTlsCert" where
  "cert_params targetID c =
     \<lparr>pc_ID = 0, pc_TargetID = targetID, pc_Port = tc_Port c, pc_CertIndex = tc_CertIndex c, pc_SubjectCn = tc_SubjectCN c,
      pc_SubjectOrg = tc_SubjectOrg c, pc_Subject = tc_Subject c, pc_IssuerCn = tc_IssuerCN c, pc_IssuerOrg = tc_IssuerOrg c,
      pc_Issuer = tc_Issuer c, pc_SanDns = tc_SanDNS c, pc_SanIp = tc_SanIP c, pc_SanEmail = tc_SanEmail c,
      pc_Serial = tc_Serial c, pc_NotBefore = tc_NotBefore c, pc_NotAfter = tc_NotAfter c,
      pc_SigAlgorithm = tc_SigAlgorithm c, pc_KeyAlgorithm = tc_KeyAlgorithm c, pc_KeyBits = tc_KeyBits c,
      pc_IsCa = boolToInt64 (tc_IsCA c), pc_SelfSigned = boolToInt64 (tc_SelfSigned c),
      pc_FingerprintSha256 = tc_FingerprintSHA256 c, pc_Pem = tc_PEM c, pc_TlsVersion = tc_TLSVersion c,
      pc_CipherSuite = tc_CipherSuite c, pc_Trusted = boolToInt64 (tc_Trusted c), pc_Error = tc_Error c\<rparr>"

definition upsertCerts :: "int \<Rightarrow> TLSCertRecord list \<Rightarrow> unit pprog" where
  "upsertCerts targetID certs =
     seq (DeleteProbeTLSCertsByTarget targetID) (\<lambda>_.
     seq (for_each (\<lambda>c. CreateProbeTLSCert (cert_params targetID c)) certs) (\<lambda>_. ret ()))"

definition result_row :: "int \<Rightarrow> string \<Rightarrow> string \<Rightarrow> Outcome \<Rightarrow> ProbeResult" where
  "result_row targetID vantage checkedAt out =
     \<lparr>pr_ID = 0, pr_TargetID = targetID, pr_Status = out_Status out, pr_LatencyMs = latency_ms (out_Latency out),
      pr_StatusCode = out_StatusCode out, pr_ErrorMessage = out_ErrMsg out, pr_TlsVersion = out_TLSVersion out,
      pr_CertNotAfter = out_CertNotAfter out, pr_CertTrusted = certTrustedDB (out_CertTrusted out),
      pr_CheckedAt = checkedAt, pr_Vantage = vantage\<rparr>"

definition probe_event :: "string \<Rightarrow> int \<Rightarrow> ProbeTarget \<Rightarrow> string \<Rightarrow> string \<Rightarrow> string \<Rightarrow> snapshot ChangeEvent" where
  "probe_event ct targetID t vantage status err =
     \<lparr>ev_ChangeType = ct, ev_EntityType = EntityTypeProbeTarget, ev_Severity = [], ev_DeviceID = targetID,
      ev_NetworkID = None, ev_AgentID = [], ev_Before = None,
      ev_After = Some [(''target_name'', AStr (pt_Name t)), (''module'', AStr (pt_Module t)), (''target'', AStr (pt_Target t)),
        (''vantage'', AStr vantage), (''status'', AStr status), (''error'', AStr err)]\<rparr>"

text \<open>Feeding one verdict to the detector, and the event to the recorder.\<close>

definition note_transition :: "int \<Rightarrow> ProbeTarget \<Rightarrow> string \<Rightarrow> string \<Rightarrow> string \<Rightarrow> string \<Rightarrow> Engine \<Rightarrow> Engine" where
  "note_transition targetID t vantage lastStatus status err e =
     (if \<not> eng_recorder e then e
      else case observe targetID vantage lastStatus status (eng_transitions e) of
             (ct, d) \<Rightarrow> e\<lparr>eng_transitions := d,
               eng_events := eng_events e @ (if ct = [] then [] else [probe_event ct targetID t vantage status err])\<rparr>)"

definition record_gauges :: "labelPair \<Rightarrow> string \<Rightarrow> rat \<Rightarrow> string \<Rightarrow> Engine \<Rightarrow> Engine" where
  "record_gauges l status seconds notAfter e =
     e\<lparr>eng_metrics := m_record l status seconds (certExpiryUnix notAfter) (eng_metrics e)\<rparr>"

definition persist_outcome :: "ProbeTarget \<Rightarrow> string \<Rightarrow> Outcome \<Rightarrow> ProbeResultResponse eprog" where
  "persist_outcome t checkedAt out =
     seq (outcome (on_db (CreateProbeResult (result_row (pt_ID t) ProbeVantageCenter checkedAt out)))) (\<lambda>_.
     seq (outcome (on_db (SetProbeTargetLastResult checkedAt (out_Status out) (latency_ms (out_Latency out)) (out_ErrMsg out) (pt_ID t)))) (\<lambda>_.
     seq (outcome (if out_Certs out \<noteq> [] then on_db (upsertCerts (pt_ID t) (out_Certs out)) else ret ())) (\<lambda>_.
     seq (set_state (record_gauges (pt_Name t, pt_Module t, ProbeVantageCenter) (out_Status out)
            (of_int (out_Latency out) / of_int second) (out_CertNotAfter out))) (\<lambda>_.
     seq (set_state (note_transition (pt_ID t) t ProbeVantageCenter (pt_LastStatus t) (out_Status out) (out_ErrMsg out))) (\<lambda>_.
     ret \<lparr>rr_ID = 0, rr_TargetID = pt_ID t, rr_Status = out_Status out, rr_LatencyMs = latency_ms (out_Latency out),
          rr_StatusCode = out_StatusCode out, rr_ErrorMessage = out_ErrMsg out, rr_TLSVersion = out_TLSVersion out,
          rr_CertNotAfter = out_CertNotAfter out, rr_CertTrusted = out_CertTrusted out, rr_CheckedAt = checkedAt,
          rr_Vantage = []\<rparr>)))))"

text \<open>The two halves of \<^verbatim>\<open>probeTarget\<close>: taking the in-flight mark, and everything up to giving it back.\<close>

definition probe_begin :: "ProbeTarget \<Rightarrow> unit eprog" where
  "probe_begin t e =
     (if pt_ID t \<in> eng_inFlight e then (Inl ErrProbeBusy, e)
      else (Inr (), e\<lparr>eng_inFlight := insert (pt_ID t) (eng_inFlight e)\<rparr>))"

definition probe_finish :: "world \<Rightarrow> gotime \<Rightarrow> ProbeTarget \<Rightarrow> ProbeResultResponse eprog" where
  "probe_finish w now t e =
     (case persist_outcome t (format_rfc3339 now) (execute w t) e of
        (r, e') \<Rightarrow> (r, e'\<lparr>eng_inFlight := eng_inFlight e' - {pt_ID t}\<rparr>))"

definition probeTarget :: "world \<Rightarrow> gotime \<Rightarrow> ProbeTarget \<Rightarrow> ProbeResultResponse eprog" where
  "probeTarget w now t = seq (probe_begin t) (\<lambda>_. probe_finish w now t)"

definition local_vantage :: "ProbeTarget \<Rightarrow> bool" where
  "local_vantage t \<longleftrightarrow> pt_Vantage t = ProbeVantageCenter \<or> pt_Vantage t = ProbeVantageAll"

definition trigger_target :: "int \<Rightarrow> ProbeTarget eprog" where
  "trigger_target targetID =
     seq (not_found (on_db (GetProbeTarget targetID))) (\<lambda>t.
       if pt_Enabled t = 0 then raise ErrProbeTargetDisabled
       else if \<not> local_vantage t then raise ErrProbeVantageNotLocal
       else ret t)"

definition TriggerNow :: "world \<Rightarrow> gotime \<Rightarrow> int \<Rightarrow> ProbeResultResponse eprog" where
  "TriggerNow w now targetID = seq (trigger_target targetID) (probeTarget w now)"

definition Trigger :: "world \<Rightarrow> gotime \<Rightarrow> int \<Rightarrow> ProbeResultResponse eprog" where
  "Trigger w now i e = (if eng_nil e then (Inl ErrEngineNotAvailable, e) else TriggerNow w now i e)"

subsection \<open>Ticks\<close>

definition first_due :: "gotime \<Rightarrow> ProbeTarget \<Rightarrow> gotime" where
  "first_due now t =
     (if pt_LastRunAt t = [] then now
      else case parse_rfc3339 (pt_LastRunAt t) of
             None \<Rightarrow> now
           | Some lr \<Rightarrow> lr + i64 (pt_IntervalSeconds t * second))"

text \<open>The loop of a tick: the targets it launches and the due times it leaves.\<close>

fun tick_loop :: "gotime \<Rightarrow> ProbeTarget list \<Rightarrow> (int \<rightharpoonup> gotime) \<Rightarrow> ProbeTarget list \<times> (int \<rightharpoonup> gotime)" where
  "tick_loop now [] nextDue = ([], nextDue)"
| "tick_loop now (t # ts) nextDue =
     (if \<not> local_vantage t then tick_loop now ts nextDue
      else let due = (case nextDue (pt_ID t) of Some d \<Rightarrow> d | None \<Rightarrow> first_due now t) in
           if now < due then tick_loop now ts (nextDue(pt_ID t \<mapsto> due))
           else map_prod ((#) t) id
                  (tick_loop now ts (nextDue(pt_ID t \<mapsto> now + i64 (pt_IntervalSeconds t * second)))))"

definition tick_plan :: "gotime \<Rightarrow> ProbeTarget list \<Rightarrow> Engine \<Rightarrow> ProbeTarget list \<times> Engine" where
  "tick_plan now targets e =
     (let present = map pt_ID targets;
          due0 = map_keep (\<lambda>i. i \<in> set present) (eng_nextDue e);
          (launched, due1) = tick_loop now targets due0
      in (launched, e\<lparr>eng_nextDue := due1, eng_transitions := prune present (eng_transitions e)\<rparr>))"

definition tick_current :: "ProbeTarget list \<Rightarrow> string list" where
  "tick_current targets =
     map (\<lambda>t. metric_key (pt_Name t, pt_Module t, ProbeVantageCenter)) (filter local_vantage targets)"

definition tick_done :: "ProbeTarget list \<Rightarrow> Engine \<Rightarrow> Engine" where
  "tick_done targets e = e\<lparr>eng_metrics := m_retain (tick_current targets) (eng_metrics e)\<rparr>"

text \<open>
  A whole tick when its probes run one after the other, each at its instant and with its answers; a
  busy target is skipped.
\<close>

fun run_probes :: "(world \<times> gotime) list \<Rightarrow> ProbeTarget list \<Rightarrow> Engine \<Rightarrow> Engine" where
  "run_probes _ [] e = e"
| "run_probes [] ts e = e"
| "run_probes ((w, now) # ws) (t # ts) e = run_probes ws ts (snd (probeTarget w now t e))"

definition tick :: "gotime \<Rightarrow> (world \<times> gotime) list \<Rightarrow> Engine \<Rightarrow> Engine" where
  "tick now ws e =
     (case on_db ListEnabledProbeTargets e of
        (Inl _, e1) \<Rightarrow> e1
      | (Inr targets, e1) \<Rightarrow>
          (case tick_plan now targets e1 of
             (launched, e2) \<Rightarrow> tick_done targets (run_probes ws launched e2)))"

subsection \<open>Results of agents\<close>

record AgentResultReport =
  ar_TargetID :: int
  ar_Vantage :: string
  ar_Status :: string
  ar_LatencyMs :: rat
  ar_StatusCode :: int
  ar_ErrorMessage :: string
  ar_TLSVersion :: string
  ar_CertNotAfter :: string
  ar_CertTrusted :: "bool option"
  ar_CheckedAt :: string

definition report_row :: "string \<Rightarrow> AgentResultReport \<Rightarrow> ProbeResult" where
  "report_row own r =
     \<lparr>pr_ID = 0, pr_TargetID = ar_TargetID r, pr_Status = ar_Status r, pr_LatencyMs = ar_LatencyMs r,
      pr_StatusCode = ar_StatusCode r, pr_ErrorMessage = ar_ErrorMessage r, pr_TlsVersion = ar_TLSVersion r,
      pr_CertNotAfter = ar_CertNotAfter r, pr_CertTrusted = certTrustedDB (ar_CertTrusted r),
      pr_CheckedAt = ar_CheckedAt r, pr_Vantage = own\<rparr>"

text \<open>
  One report of a known target; the result is the error of a row the database refuses.  The gauges are
  reached through the engine before the engine is tested for \<^verbatim>\<open>nil\<close>, so a service without an engine
  panics here.
\<close>

definition ingest_row :: "string \<Rightarrow> AgentResultReport \<Rightarrow> ProbeTarget \<Rightarrow> go_error option eprog" where
  "ingest_row own r t =
     seq (get_state eng_nil) (\<lambda>none.
       if none then raise (Panic ''nil pointer dereference'')
       else
         seq (set_state (record_gauges (pt_Name t, pt_Module t, own) (ar_Status r) (ar_LatencyMs r / 1000) (ar_CertNotAfter r))) (\<lambda>_.
         seq (outcome (on_db (CreateProbeResult (report_row own r)))) (\<lambda>put.
           case put of
             Inl err \<Rightarrow> ret (Some err)
           | Inr _ \<Rightarrow>
               seq (set_state (note_transition (ar_TargetID r) t own [] (ar_Status r) (ar_ErrorMessage r))) (\<lambda>_. ret None))))"

text \<open>The loop over the reports, with the number of accepted rows.\<close>

fun ingest :: "string \<Rightarrow> AgentResultReport list \<Rightarrow> int \<Rightarrow> (int \<times> go_error option) eprog" where
  "ingest own [] accepted = ret (accepted, None)"
| "ingest own (r # rs) accepted =
     seq (outcome (on_db (GetProbeTarget (ar_TargetID r)))) (\<lambda>found.
       case found of
         Inl _ \<Rightarrow> ingest own rs accepted
       | Inr t \<Rightarrow>
           seq (ingest_row own r t) (\<lambda>refused.
             case refused of Some err \<Rightarrow> ret (accepted, Some err) | None \<Rightarrow> ingest own rs (accepted + 1)))"

definition IngestAgentResults :: "string \<Rightarrow> AgentResultReport list \<Rightarrow> (int \<times> go_error option) eprog" where
  "IngestAgentResults agentID results = ingest (ProbeVantageAgentPrefix @ agentID) results 0"

subsection \<open>The detector is a liveness machine\<close>

definition track_step :: "transitionDetector \<Rightarrow> trackKey \<Rightarrow> string \<times> string \<Rightarrow> bool option \<times> transitionDetector" where
  "track_step d k ob =
     (case observe (fst k) (snd k) (fst ob) (snd ob) d of
        (ct, d') \<Rightarrow> (if ct = ChangeTypeProbeFailed then Some True else if ct = ChangeTypeProbeRecovered then Some False else None, d'))"

definition track_keep :: "transitionDetector \<Rightarrow> (trackKey \<Rightarrow> bool) \<Rightarrow> transitionDetector" where
  "track_keep d P = d\<lparr>td_states := map_keep P (td_states d)\<rparr>"

definition track_down :: "transitionDetector \<Rightarrow> trackKey \<rightharpoonup> bool" where
  "track_down d k = map_option ps_failing (td_states d k)"

lemma prune_track_keep: "prune present d = track_keep d (\<lambda>k. fst k \<in> set present)"
  by (simp add: prune_def track_keep_def)

lemma track_step_cases:
  "track_step d k ob =
     (let st = (case td_states d k of
                  Some st \<Rightarrow> st
                | None \<Rightarrow> \<lparr>ps_failing = (fst ob \<noteq> [] \<and> fst ob \<noteq> probeStatusSuccess), ps_streak = 0\<rparr>);
          put = (\<lambda>st. d\<lparr>td_states := (td_states d)(k \<mapsto> st)\<rparr>)
      in if snd ob = probeStatusSuccess then
           (if ps_failing st then (Some False, put (st\<lparr>ps_streak := 0, ps_failing := False\<rparr>))
            else (None, put (st\<lparr>ps_streak := 0\<rparr>)))
         else if ps_failing st then (None, put st)
         else if td_threshold d \<le> ps_streak st + 1 then (Some True, put (st\<lparr>ps_failing := True, ps_streak := 0\<rparr>))
         else (None, put (st\<lparr>ps_streak := ps_streak st + 1\<rparr>)))"
  by (simp add: track_step_def observe_def Let_def change_type_defs)

lemma track_step_laws:
  "k' \<noteq> k \<Longrightarrow> track_down (snd (track_step d k ob)) k' = track_down d k'"
  "fst (track_step d k ob) = Some b \<Longrightarrow> track_down d k \<noteq> Some b \<and> track_down (snd (track_step d k ob)) k = Some b"
  "fst (track_step d k ob) = None \<Longrightarrow> track_down d k = Some b \<Longrightarrow> track_down (snd (track_step d k ob)) k = Some b"
  by (auto simp: track_step_cases track_down_def Let_def split: if_splits option.splits)

interpretation probe_liveness: liveness track_step track_keep track_down
  by unfold_locales
    (rule track_step_laws; assumption | simp add: track_keep_def track_down_def map_keep_def)+

text \<open>Consecutive failures of a track that is not failing.\<close>

fun observes :: "int \<Rightarrow> string \<Rightarrow> (string \<times> string) list \<Rightarrow> transitionDetector \<Rightarrow> string list \<times> transitionDetector" where
  "observes i v [] d = ([], d)"
| "observes i v ((lastStatus, status) # xs) d =
     (case observe i v lastStatus status d of
        (ct, d1) \<Rightarrow> (case observes i v xs d1 of (cts, d2) \<Rightarrow> (if ct = [] then cts else ct # cts, d2)))"

subsection \<open>Ticks\<close>

lemma tick_loop_other: "i \<notin> pt_ID ` set ts \<Longrightarrow> snd (tick_loop now ts due) i = due i"
  by (induction ts arbitrary: due) (simp_all add: Let_def)

lemma tick_loop_sub: "set (fst (tick_loop now ts due)) \<subseteq> set ts"
  by (induction ts arbitrary: due) (auto simp: Let_def)

text \<open>What a tick does with one target: it is launched exactly when it is due, and gets its next due time.\<close>

lemma tick_loop_target:
  assumes "distinct (map pt_ID ts)" "t \<in> set ts" "local_vantage t"
    "d = (case due (pt_ID t) of Some d \<Rightarrow> d | None \<Rightarrow> first_due now t)"
  shows "(t \<in> set (fst (tick_loop now ts due)) \<longleftrightarrow> d \<le> now) \<and>
    snd (tick_loop now ts due) (pt_ID t) = Some (if d \<le> now then now + i64 (pt_IntervalSeconds t * second) else d)"
  using assms
proof (induction ts arbitrary: due)
  case (Cons u ts)
  show ?case
  proof (cases "t = u")
    case True
    have "pt_ID t \<notin> pt_ID ` set ts" using Cons.prems(1) True by auto
    moreover have "t \<notin> set (fst (tick_loop now ts due'))" for due'
      using calculation tick_loop_sub [of now ts due'] by auto
    ultimately show ?thesis using True Cons.prems(3,4) tick_loop_other [of "pt_ID t" ts now] by (auto simp: Let_def)
  next
    case False
    then have "t \<in> set ts" "pt_ID u \<noteq> pt_ID t" "distinct (map pt_ID ts)" using Cons.prems by (auto simp: rev_image_eqI)
    then show ?thesis using Cons.IH Cons.prems(3,4) False by (simp add: Let_def)
  qed
qed simp

text \<open>A sequence of ticks and the instants at which each launches a target.\<close>

fun tick_launches :: "(gotime \<times> ProbeTarget list) list \<Rightarrow> Engine \<Rightarrow> (gotime \<times> ProbeTarget list) list" where
  "tick_launches [] e = []"
| "tick_launches ((now, targets) # xs) e =
     (case tick_plan now targets e of (launched, e') \<Rightarrow> (now, launched) # tick_launches xs e')"

definition launch_times :: "int \<Rightarrow> (gotime \<times> ProbeTarget list) list \<Rightarrow> gotime list" where
  "launch_times i ls = map fst (filter (\<lambda>l. i \<in> pt_ID ` set (snd l)) ls)"

text \<open>The target is listed at every tick, once, with the same interval.\<close>

definition steady :: "int \<Rightarrow> int \<Rightarrow> gotime \<times> ProbeTarget list \<Rightarrow> bool" where
  "steady i interval x \<longleftrightarrow> distinct (map pt_ID (snd x)) \<and>
     (\<exists>t \<in> set (snd x). pt_ID t = i \<and> local_vantage t \<and> pt_IntervalSeconds t = interval)"

lemma tick_plan_steady:
  assumes "steady i interval (now, targets)"
  shows "\<exists>d. (\<forall>d0. eng_nextDue e i = Some d0 \<longrightarrow> d = d0) \<and>
    (i \<in> pt_ID ` set (fst (tick_plan now targets e)) \<longleftrightarrow> d \<le> now) \<and>
    eng_nextDue (snd (tick_plan now targets e)) i = Some (if d \<le> now then now + i64 (interval * second) else d)"
proof -
  obtain t where t: "t \<in> set targets" "pt_ID t = i" "local_vantage t" "pt_IntervalSeconds t = interval"
    and dist: "distinct (map pt_ID targets)" using assms by (auto simp: steady_def)
  let ?due = "map_keep (\<lambda>i. i \<in> set (map pt_ID targets)) (eng_nextDue e)"
  let ?d = "case ?due i of Some d \<Rightarrow> d | None \<Rightarrow> first_due now t"
  have due: "?due i = eng_nextDue e i" using t by (auto simp: map_keep_def)
  have only: "u = t" if "u \<in> set targets" "pt_ID u = i" for u
    using that t dist by (auto simp: distinct_map inj_on_def)
  have "i \<in> pt_ID ` set (fst (tick_loop now targets ?due)) \<longleftrightarrow> t \<in> set (fst (tick_loop now targets ?due))"
    using only t(2) tick_loop_sub [of now targets ?due] by (metis (no_types, lifting) imageE image_eqI subsetD)
  then have "i \<in> pt_ID ` set (fst (tick_plan now targets e)) \<longleftrightarrow> ?d \<le> now"
    "eng_nextDue (snd (tick_plan now targets e)) i = Some (if ?d \<le> now then now + i64 (interval * second) else ?d)"
    using tick_loop_target [OF dist t(1,3), where d = ?d and due = ?due and now = now] t by (simp_all add: tick_plan_def Let_def split_beta)
  then show ?thesis using due by (intro exI [of _ ?d]) auto
qed

lemma launch_times_Cons:
  "launch_times i (tick_launches ((now, targets) # xs) e) =
    (if i \<in> pt_ID ` set (fst (tick_plan now targets e)) then [now] else []) @
    launch_times i (tick_launches xs (snd (tick_plan now targets e)))"
  by (simp add: launch_times_def split_beta)

lemma launches_after_due:
  assumes "list_all (steady i interval) xs" "eng_nextDue e i = Some d" "sorted (map fst xs)" "0 \<le> i64 (interval * second)"
    "t \<in> set (launch_times i (tick_launches xs e))"
  shows "d \<le> t"
  using assms
proof (induction xs arbitrary: e d)
  case (Cons x xs)
  obtain now targets where x: "x = (now, targets)" by fastforce
  obtain d' where d': "d' = d" "i \<in> pt_ID ` set (fst (tick_plan now targets e)) \<longleftrightarrow> d' \<le> now"
    "eng_nextDue (snd (tick_plan now targets e)) i = Some (if d' \<le> now then now + i64 (interval * second) else d')"
    using tick_plan_steady [of i interval now targets e] Cons.prems(1,2) unfolding x by fastforce
  let ?e = "snd (tick_plan now targets e)"
  consider "d \<le> now" "t = now" | "t \<in> set (launch_times i (tick_launches xs ?e))"
    using Cons.prems(5) d' unfolding x launch_times_Cons by (auto split: if_splits)
  then show ?case
  proof cases
    case 2
    then have "(if d' \<le> now then now + i64 (interval * second) else d') \<le> t"
      by (intro Cons.IH [OF _ d'(3)]) (use Cons.prems(1,3,4) in simp_all)
    then show ?thesis using d'(1) Cons.prems(4) by (auto split: if_splits)
  qed simp
qed (simp add: launch_times_def)

lemma launches_spaced:
  assumes "list_all (steady i interval) xs" "sorted (map fst xs)" "0 \<le> i64 (interval * second)"
  shows "sorted_wrt (\<lambda>a b. i64 (interval * second) \<le> b - a) (launch_times i (tick_launches xs e))"
  using assms
proof (induction xs arbitrary: e)
  case (Cons x xs)
  obtain now targets where x: "x = (now, targets)" by fastforce
  let ?e = "snd (tick_plan now targets e)"
  have IH: "sorted_wrt (\<lambda>a b. i64 (interval * second) \<le> b - a) (launch_times i (tick_launches xs ?e))"
    using Cons by simp
  have cons: "launch_times i (tick_launches (x # xs) e) =
    (if i \<in> pt_ID ` set (fst (tick_plan now targets e)) then [now] else []) @ launch_times i (tick_launches xs ?e)"
    unfolding x by (rule launch_times_Cons)
  show ?case
  proof (cases "i \<in> pt_ID ` set (fst (tick_plan now targets e))")
    case True
    obtain d where d: "i \<in> pt_ID ` set (fst (tick_plan now targets e)) \<longleftrightarrow> d \<le> now"
      "eng_nextDue ?e i = Some (if d \<le> now then now + i64 (interval * second) else d)"
      using tick_plan_steady [of i interval now targets e] Cons.prems(1) unfolding x by fastforce
    then have next_due: "eng_nextDue ?e i = Some (now + i64 (interval * second))" using True by simp
    have "now + i64 (interval * second) \<le> t" if "t \<in> set (launch_times i (tick_launches xs ?e))" for t
      using launches_after_due [OF _ next_due _ Cons.prems(3) that] Cons.prems(1,2) by simp
    then have "i64 (interval * second) \<le> t - now" if "t \<in> set (launch_times i (tick_launches xs ?e))" for t
      using that by fastforce
    then show ?thesis using IH True unfolding cons by simp
  next
    case False
    then show ?thesis using IH unfolding cons by simp
  qed
qed (simp add: launch_times_def)

subsection \<open>Reports of agents\<close>

text \<open>What a batch of an agent may have changed when \<open>n\<close> of its rows are stored.\<close>

definition own_rows :: "string \<Rightarrow> Engine \<Rightarrow> int \<Rightarrow> Engine \<Rightarrow> bool" where
  "own_rows own e0 n e \<longleftrightarrow>
     (\<exists>rows. db_results (eng_db e) = db_results (eng_db e0) @ rows \<and> int (length rows) = n \<and>
        list_all (\<lambda>r. pr_Vantage r = own \<and> result_check r) rows) \<and>
     db_targets (eng_db e) = db_targets (eng_db e0) \<and> db_certs (eng_db e) = db_certs (eng_db e0) \<and>
     eng_inFlight e = eng_inFlight e0 \<and> eng_nextDue e = eng_nextDue e0 \<and>
     (\<forall>i v. v \<noteq> own \<longrightarrow> td_states (eng_transitions e) (i, v) = td_states (eng_transitions e0) (i, v))"

lemma own_rows_start: "own_rows own e 0 e"
  by (simp add: own_rows_def)

lemma hoare_on_db:
  assumes "\<And>e. hoare (\<lambda>db. P (e\<lparr>eng_db := db\<rparr>)) m (\<lambda>r db. Q r (e\<lparr>eng_db := db\<rparr>))"
  shows "hoare P (on_db m) Q"
  unfolding hoare_def
proof (intro allI impI)
  fix e assume "P e"
  then have "Q (fst (m (eng_db e))) (e\<lparr>eng_db := snd (m (eng_db e))\<rparr>)" using assms [of e] by (simp add: hoare_def)
  then show "Q (fst (on_db m e)) (snd (on_db m e))" by (simp add: on_db_def split_beta)
qed

lemma own_rows_faults: "own_rows own e0 n (e\<lparr>eng_db := db\<rparr>) \<Longrightarrow> own_rows own e0 n (e\<lparr>eng_db := db\<lparr>db_faults := fs\<rparr>\<rparr>)"
  by (simp add: own_rows_def)

lemma own_rows_read: "hoare (own_rows own e0 n) (outcome (on_db (GetProbeTarget i))) (\<lambda>r. own_rows own e0 n)"
  unfolding GetProbeTarget_def
  by (intro hoare_outcome hoare_on_db hoare_stmt own_rows_faults) (simp_all add: hoare_def)

lemma own_rows_append:
  assumes "own_rows own e0 n (e\<lparr>eng_db := db\<rparr>)" "pr_Vantage r = own" "result_check r"
  shows "own_rows own e0 (n + 1) (e\<lparr>eng_db := db\<lparr>db_results := db_results db @ [r], db_result_seq := i\<rparr>\<rparr>)"
proof -
  obtain rows where "db_results db = db_results (eng_db e0) @ rows" "int (length rows) = n"
    "list_all (\<lambda>r. pr_Vantage r = own \<and> result_check r) rows" using assms(1) by (auto simp: own_rows_def)
  then have "db_results db @ [r] = db_results (eng_db e0) @ (rows @ [r])" "int (length (rows @ [r])) = n + 1"
    "list_all (\<lambda>r. pr_Vantage r = own \<and> result_check r) (rows @ [r])" using assms(2,3) by simp_all
  then show ?thesis using assms(1) unfolding own_rows_def by (intro conjI exI [of _ "rows @ [r]"]) simp_all
qed

lemma own_rows_result:
  assumes "pr_Vantage row = own"
  shows "hoare (own_rows own e0 n) (outcome (on_db (CreateProbeResult row)))
     (\<lambda>r e. case r of Inr (Inr _) \<Rightarrow> own_rows own e0 (n + 1) e | Inr (Inl _) \<Rightarrow> own_rows own e0 n e | Inl _ \<Rightarrow> False)"
  unfolding CreateProbeResult_def
proof (intro hoare_outcome hoare_on_db hoare_stmt own_rows_faults)
  show "hoare (\<lambda>db. own_rows own e0 n (e\<lparr>eng_db := db\<rparr>))
     (\<lambda>db. let r = row\<lparr>pr_ID := db_result_seq db + 1\<rparr> in if \<not> result_check r then (Inl ErrConstraint, db)
        else (Inr (), db\<lparr>db_results := db_results db @ [r], db_result_seq := pr_ID r\<rparr>))
     (\<lambda>r db. case Inr r of Inl _ \<Rightarrow> False | Inr (Inl _) \<Rightarrow> own_rows own e0 n (e\<lparr>eng_db := db\<rparr>)
        | Inr (Inr _) \<Rightarrow> own_rows own e0 (n + 1) (e\<lparr>eng_db := db\<rparr>))" for e
    using own_rows_append [where e = e and own = own and n = n and e0 = e0] assms by (simp add: hoare_def Let_def)
qed simp_all

lemma own_rows_state:
  "hoare (own_rows own e0 n) (set_state (record_gauges (nm, md, own) s x na)) (\<lambda>r e. r = Inr () \<and> own_rows own e0 n e)"
  "hoare (own_rows own e0 n) (set_state (note_transition i t own ls st er)) (\<lambda>r e. r = Inr () \<and> own_rows own e0 n e)"
  by (auto simp: hoare_def set_state_def own_rows_def record_gauges_def note_transition_def observe_def Let_def
      split: prod.splits option.splits if_splits)

lemma ingest_row_own_rows:
  "hoare (own_rows own e0 k) (ingest_row own r t)
     (\<lambda>res e. own_rows own e0 (case res of Inr None \<Rightarrow> k + 1 | _ \<Rightarrow> k) e)"
  (is "hoare ?P _ ?Q")
proof -
  let ?n = "\<lambda>put. case put of Inl _ \<Rightarrow> k | Inr _ \<Rightarrow> k + 1"
  have noted: "hoare (own_rows own e0 (k + 1)) (seq (set_state (note_transition (ar_TargetID r) t own [] (ar_Status r) (ar_ErrorMessage r))) (\<lambda>_. ret None)) ?Q"
    by (rule hoare_seq [where R = "\<lambda>_. own_rows own e0 (k + 1)"]) (auto intro: hoare_ret hoare_weaken [OF own_rows_state(2)])
  have put: "hoare ?P (seq (outcome (on_db (CreateProbeResult (report_row own r)))) (\<lambda>put. case put of Inl err \<Rightarrow> ret (Some err)
      | Inr _ \<Rightarrow> seq (set_state (note_transition (ar_TargetID r) t own [] (ar_Status r) (ar_ErrorMessage r))) (\<lambda>_. ret None))) ?Q"
  proof (rule hoare_seq [where R = "\<lambda>put. own_rows own e0 (?n put)"])
    show "hoare (own_rows own e0 (?n put)) (case put of Inl err \<Rightarrow> ret (Some err)
      | Inr _ \<Rightarrow> seq (set_state (note_transition (ar_TargetID r) t own [] (ar_Status r) (ar_ErrorMessage r))) (\<lambda>_. ret None)) ?Q" for put
      using noted by (cases put) (simp_all add: hoare_ret)
  qed (rule hoare_weaken [OF own_rows_result], auto simp: report_row_def split: sum.splits)
  show ?thesis unfolding ingest_row_def
    by (rule hoare_seq [where R = "\<lambda>_. ?P"], simp add: hoare_def get_state_def)
      (auto intro!: hoare_raise hoare_seq [OF hoare_weaken [OF own_rows_state(1)], where R = "\<lambda>_. ?P"] put)
qed

lemma ingest_own_rows:
  "hoare (own_rows own e0 k) (ingest own rs k)
     (\<lambda>r e. \<exists>n. own_rows own e0 n e \<and> (\<forall>m err. r = Inr (m, err) \<longrightarrow> m = n))"
proof (induction rs arbitrary: k)
  case Nil
  then show ?case by (auto simp: hoare_ret)
next
  case (Cons r rs)
  let ?Q = "\<lambda>r e. \<exists>n. own_rows own e0 n e \<and> (\<forall>m err. r = Inr (m, err) \<longrightarrow> m = n)"
  have row: "hoare (own_rows own e0 k) (seq (ingest_row own r t) (\<lambda>refused.
      case refused of Some err \<Rightarrow> ret (k, Some err) | None \<Rightarrow> ingest own rs (k + 1))) ?Q" for t
  proof (rule hoare_seq [where R = "\<lambda>refused. own_rows own e0 (if refused = None then k + 1 else k)"])
    show "hoare (own_rows own e0 (if refused = None then k + 1 else k))
       (case refused of Some err \<Rightarrow> ret (k, Some err) | None \<Rightarrow> ingest own rs (k + 1)) ?Q" for refused
      using Cons.IH [of "k + 1"] by (cases refused) (auto intro: hoare_ret)
  qed (rule hoare_weaken [OF ingest_row_own_rows], auto split: sum.splits option.splits)
  show ?case unfolding ingest.simps
  proof (rule hoare_seq [where R = "\<lambda>_. own_rows own e0 k"])
    show "hoare (own_rows own e0 k) (outcome (on_db (GetProbeTarget (ar_TargetID r))))
       (\<lambda>r s. case r of Inl e \<Rightarrow> ?Q (Inl e) s | Inr x \<Rightarrow> own_rows own e0 k s)"
      by (rule hoare_weaken [OF own_rows_read]) (auto split: sum.splits)
    show "hoare (own_rows own e0 k) (case found of Inl _ \<Rightarrow> ingest own rs k | Inr t \<Rightarrow> seq (ingest_row own r t) (\<lambda>refused.
             case refused of Some err \<Rightarrow> ret (k, Some err) | None \<Rightarrow> ingest own rs (k + 1))) ?Q" for found
      using Cons.IH [of k] row by (cases found) simp_all
  qed
qed

subsection \<open>Properties\<close>

text \<open>
  C22. A target is never probed by the schedule more often than its interval says: over any number of
  ticks at increasing instants that list the target, whatever else they list, two launches of it are
  at least its interval apart.  The interval is one the table accepts, so that the duration does not
  wrap.
\<close>

theorem probes_spaced:
  assumes "list_all (steady i interval) ticks" "sorted (map fst ticks)" "10 \<le> interval" "interval \<le> 86400"
  shows "sorted_wrt (\<lambda>a b. interval * second \<le> b - a) (launch_times i (tick_launches ticks e))"
proof -
  have "i64 (interval * second) = interval * second" using assms(3,4) by (intro i64_id) (simp add: in_i64_def second_def)
  then show ?thesis using launches_spaced [OF assms(1,2), of e] assms(3) by (simp add: second_def)
qed

definition demo_ticks :: "(gotime \<times> ProbeTarget list) list" where
  "demo_ticks = map (\<lambda>k. (k * (20 * second), [demo_target])) [0, 1, 2, 3, 4]"

theorem probes_spaced_witness:
  "launch_times 1 (tick_launches demo_ticks (NewEngine demo_db None 0 True)) = [0, 60 * second] \<and>
   sorted_wrt (\<lambda>a b. 60 * second \<le> b - a) (launch_times 1 (tick_launches demo_ticks (NewEngine demo_db None 0 True)))"
proof
  show "launch_times 1 (tick_launches demo_ticks (NewEngine demo_db None 0 True)) = [0, 60 * second]" by code_simp
  have "list_all (steady 1 60) demo_ticks" by code_simp
  moreover have "sorted (map fst demo_ticks)" by code_simp
  ultimately show "sorted_wrt (\<lambda>a b. 60 * second \<le> b - a) (launch_times 1 (tick_launches demo_ticks (NewEngine demo_db None 0 True)))"
    by (intro probes_spaced) simp_all
qed

text \<open>The failures in a row at the end of a history.\<close>

definition failure_run :: "string list \<Rightarrow> nat" where
  "failure_run h = length (takeWhile (\<lambda>s. s \<noteq> ''success'') (rev h))"

lemma failure_run_simps [simp]:
  "failure_run [] = 0" "failure_run (h @ [s]) = (if s = ''success'' then 0 else Suc (failure_run h))"
  by (simp_all add: failure_run_def)

text \<open>A track whose target was already failing before the process started counts as one with enough failures behind it.\<close>

definition seed_history :: "int \<Rightarrow> string \<Rightarrow> string list" where
  "seed_history n lastStatus = (if lastStatus = [] \<or> lastStatus = ''success'' then [] else replicate (nat n) ''fail'')"

lemma failure_run_seed: "0 < n \<Longrightarrow> n \<le> int (failure_run (seed_history n l)) \<longleftrightarrow> l \<noteq> [] \<and> l \<noteq> ''success''"
  "l = [] \<or> l = ''success'' \<Longrightarrow> failure_run (seed_history n l) = 0"
  by (auto simp: seed_history_def failure_run_def takeWhile_replicate)

definition tracks_history :: "transitionDetector \<Rightarrow> int \<times> string \<Rightarrow> string list \<Rightarrow> string \<Rightarrow> bool" where
  "tracks_history d k h l \<longleftrightarrow>
     (case td_states d k of
        None \<Rightarrow> h = seed_history (td_threshold d) l
      | Some st \<Rightarrow> ps_failing st = (td_threshold d \<le> int (failure_run h)) \<and> (\<not> ps_failing st \<longrightarrow> ps_streak st = int (failure_run h)))"

lemma observe_history:
  assumes "0 < td_threshold d" "tracks_history d (i, v) h l"
  shows "fst (observe i v l s d) =
      (if s = ''success'' then if td_threshold d \<le> int (failure_run h) then ''probe_recovered'' else []
       else if int (failure_run (h @ [s])) = td_threshold d then ''probe_failed'' else []) \<and>
    tracks_history (snd (observe i v l s d)) (i, v) (h @ [s]) l' \<and> td_threshold (snd (observe i v l s d)) = td_threshold d"
proof -
  obtain st where st: "(case td_states d (i, v) of Some st \<Rightarrow> st
      | None \<Rightarrow> \<lparr>ps_failing = (l \<noteq> [] \<and> l \<noteq> probeStatusSuccess), ps_streak = 0\<rparr>) = st"
    "ps_failing st = (td_threshold d \<le> int (failure_run h))" "\<not> ps_failing st \<longrightarrow> ps_streak st = int (failure_run h)"
    using assms failure_run_seed [where n = "td_threshold d" and l = l]
    by (cases "td_states d (i, v)") (auto simp: tracks_history_def probeStatusSuccess_def)
  show ?thesis
    using st(2,3) assms(1) unfolding observe_def Let_def st(1)
    by (auto simp: tracks_history_def probeStatusSuccess_def change_type_defs)
qed

lemma observes_history:
  "0 < td_threshold d \<Longrightarrow> tracks_history d (i, v) h (fst (hd (xs @ [x]))) \<Longrightarrow>
    tracks_history (snd (observes i v xs d)) (i, v) (h @ map snd xs) (fst x) \<and> td_threshold (snd (observes i v xs d)) = td_threshold d"
proof (induction xs arbitrary: d h)
  case (Cons y ys)
  obtain l s where y: "y = (l, s)" by (cases y)
  note step = observe_history [OF Cons.prems(1), of i v h l s "fst (hd (ys @ [x]))"]
  have "tracks_history (snd (observe i v l s d)) (i, v) (h @ [s]) (fst (hd (ys @ [x])))" "td_threshold (snd (observe i v l s d)) = td_threshold d"
    using step Cons.prems(2) y by simp_all
  then show ?case using Cons.IH [of "snd (observe i v l s d)" "h @ [s]"] Cons.prems(1) y by (simp add: split_beta)
qed simp

text \<open>
  C23. The events of a track follow from its results alone.  On a track that a detector sees for the first
  time, whatever results came before, a result is answered with \<^verbatim>\<open>probe_failed\<close> exactly when it is the
  \<open>n\<close>-th failure in a row for the configured \<open>n\<close>, with \<^verbatim>\<open>probe_recovered\<close> exactly when it is a success after at
  least \<open>n\<close> failures in a row, and with nothing otherwise.  A target whose stored status was
  a failure counts as having failed that often already.
\<close>

theorem failure_threshold:
  assumes "td_states d (i, v) = None" "0 < td_threshold d"
  shows "let h = seed_history (td_threshold d) (fst (hd (xs @ [(l, s)]))) @ map snd xs in
    fst (observe i v l s (snd (observes i v xs d))) =
      (if s = ''success'' then if td_threshold d \<le> int (failure_run h) then ''probe_recovered'' else []
       else if int (failure_run (h @ [s])) = td_threshold d then ''probe_failed'' else [])"
proof -
  let ?l0 = "fst (hd (xs @ [(l, s)]))"
  have "tracks_history d (i, v) (seed_history (td_threshold d) ?l0) ?l0" using assms(1) by (simp add: tracks_history_def)
  from observes_history [OF assms(2) this] show ?thesis
    using observe_history [of "snd (observes i v xs d)" i v "seed_history (td_threshold d) ?l0 @ map snd xs" l s] assms(2)
    by (simp add: Let_def)
qed

theorem failure_threshold_witness:
  "fst (observe 1 ''center'' ''fail'' ''fail'' (snd (observes 1 ''center'' [([], ''fail''), (''fail'', ''timeout'')] (newTransitionDetector 0)))) = ''probe_failed'' \<and>
   fst (observe 1 ''center'' ''fail'' ''fail'' (snd (observes 1 ''center'' [([], ''fail''), (''fail'', ''success''), (''success'', ''fail'')] (newTransitionDetector 0)))) = []"
proof -
  have new: "td_states (newTransitionDetector 0) (1, ''center'') = None" "0 < td_threshold (newTransitionDetector 0)" "td_threshold (newTransitionDetector 0) = 3"
    by (simp_all add: newTransitionDetector_def defaultProbeFailThreshold_def)
  show ?thesis
    using failure_threshold [OF new(1,2), of "[([], ''fail''), (''fail'', ''timeout'')]" "''fail''" "''fail''"]
      failure_threshold [OF new(1,2), of "[([], ''fail''), (''fail'', ''success''), (''success'', ''fail'')]" "''fail''" "''fail''"]
    unfolding new(3) by (simp add: seed_history_def failure_run_def)
qed

text \<open>
  C24. An agent only ever writes its own track, whatever its reports claim: a batch appends result rows that
  carry the vantage of the reporting agent, as many as the call says it accepted, changes no target,
  no certificate, no schedule, and no other track of the detector.
\<close>

theorem agent_writes_own_track:
  assumes "IngestAgentResults agentID reports e = (Inr (accepted, err), e')"
  shows "(\<exists>rows. db_results (eng_db e') = db_results (eng_db e) @ rows \<and> int (length rows) = accepted \<and>
      list_all (\<lambda>r. pr_Vantage r = ProbeVantageAgentPrefix @ agentID \<and> result_check r) rows) \<and>
    db_targets (eng_db e') = db_targets (eng_db e) \<and> db_certs (eng_db e') = db_certs (eng_db e) \<and>
    eng_nextDue e' = eng_nextDue e \<and> eng_inFlight e' = eng_inFlight e \<and>
    (\<forall>i v. v \<noteq> ProbeVantageAgentPrefix @ agentID \<longrightarrow>
      td_states (eng_transitions e') (i, v) = td_states (eng_transitions e) (i, v))"
proof -
  let ?own = "ProbeVantageAgentPrefix @ agentID"
  have "\<exists>n. own_rows ?own e n e' \<and> (\<forall>m err'. (Inr (accepted, err) :: go_error + int \<times> go_error option) = Inr (m, err') \<longrightarrow> m = n)"
    using hoareD [OF ingest_own_rows [where own = ?own and rs = reports] own_rows_start] assms
    unfolding IngestAgentResults_def by (metis fst_conv snd_conv)
  then have "own_rows ?own e accepted e'" by auto
  then show ?thesis by (simp add: own_rows_def)
qed

definition demo_report :: AgentResultReport where
  "demo_report = \<lparr>ar_TargetID = 1, ar_Vantage = ''center'', ar_Status = ''fail'', ar_LatencyMs = 3, ar_StatusCode = 0, ar_ErrorMessage = [],
     ar_TLSVersion = [], ar_CertNotAfter = [], ar_CertTrusted = None, ar_CheckedAt = []\<rparr>"

theorem agent_writes_own_track_witness:
  "let (res, e') = IngestAgentResults ''x'' [demo_report, demo_report] (NewEngine demo_db None 0 True) in
   res = Inr (2, None) \<and> db_targets (eng_db e') = [demo_target] \<and> length (db_results (eng_db e')) = 2"
proof -
  let ?e = "NewEngine demo_db None 0 True" and ?rs = "[demo_report, demo_report]"
  have res: "fst (IngestAgentResults ''x'' ?rs ?e) = Inr (2, None)" by code_simp
  then have "IngestAgentResults ''x'' ?rs ?e = (Inr (2, None), snd (IngestAgentResults ''x'' ?rs ?e))" by (metis prod.collapse)
  from agent_writes_own_track [OF this] show ?thesis using res
    by (auto simp: split_beta Let_def NewEngine_def demo_db_def empty_probe_db_def)
qed

subsection \<open>What a probe stores\<close>

fun numbered :: "int \<Rightarrow> ProbeTlsCert list \<Rightarrow> ProbeTlsCert list" where
  "numbered n [] = []"
| "numbered n (c # cs) = c\<lparr>pc_ID := n + 1\<rparr> # numbered (n + 1) cs"

lemma numbered_rows: "map (\<lambda>c. c\<lparr>pc_ID := 0\<rparr>) (numbered n cs) = map (\<lambda>c. c\<lparr>pc_ID := 0\<rparr>) cs"
  by (induction cs arbitrary: n) simp_all

lemma numbered_target: "list_all (\<lambda>c. pc_TargetID c = i) cs \<Longrightarrow> list_all (\<lambda>c. pc_TargetID c = i) (numbered n cs)"
  by (induction cs arbitrary: n) simp_all

lemma create_certs_run:
  "db_faults db = [] \<Longrightarrow> for_each (\<lambda>c. CreateProbeTLSCert (f c)) cs db =
    (Inr (map (\<lambda>_. ()) cs), db\<lparr>db_certs := db_certs db @ numbered (db_cert_seq db) (map f cs), db_cert_seq := db_cert_seq db + int (length cs)\<rparr>)"
  by (induction cs arbitrary: db) (simp_all add: seq_def ret_def CreateProbeTLSCert_def stmt_run Let_def algebra_simps)

lemma upsertCerts_run:
  "db_faults db = [] \<Longrightarrow> upsertCerts i cs db =
    (Inr (), db\<lparr>db_certs := filter (\<lambda>c. pc_TargetID c \<noteq> i) (db_certs db) @ numbered (db_cert_seq db) (map (cert_params i) cs),
       db_cert_seq := db_cert_seq db + int (length cs)\<rparr>)"
  by (simp add: upsertCerts_def seq_def DeleteProbeTLSCertsByTarget_def stmt_run create_certs_run ret_def)

definition summarised :: "string \<Rightarrow> Outcome \<Rightarrow> gotime \<Rightarrow> ProbeTarget \<Rightarrow> ProbeTarget" where
  "summarised c out clock u =
     u\<lparr>pt_LastRunAt := c, pt_LastStatus := out_Status out, pt_LastLatencyMs := latency_ms (out_Latency out),
       pt_LastError := out_ErrMsg out, pt_UpdatedAt := clock\<rparr>"

lemma SetLast_run:
  assumes "db_faults db = []" "targets_ok db" "verdict_ok (out_Status out)"
  shows "SetProbeTargetLastResult c (out_Status out) (latency_ms (out_Latency out)) (out_ErrMsg out) i db =
    (Inr (), db\<lparr>db_targets := map (\<lambda>u. if pt_ID u = i then summarised c out (db_clock db) u else u) (db_targets db)\<rparr>)"
proof (cases "target_by_id db i")
  case None
  then have "\<forall>u \<in> set (db_targets db). pt_ID u \<noteq> i" by (auto simp: target_by_id_def find_None_iff)
  then have "map (\<lambda>u. if pt_ID u = i then summarised c out (db_clock db) u else u) (db_targets db) = db_targets db"
    by (simp add: map_idI)
  then show ?thesis using None assms(1) by (simp add: SetProbeTargetLastResult_def stmt_run)
next
  case (Some t)
  have t: "t \<in> set (db_targets db)" "pt_ID t = i" using target_by_id_SomeD [OF Some] by auto
  let ?t = "summarised c out (db_clock db) t"
  have check: "target_check ?t" using t assms(2,3) by (auto simp: targets_ok_def list_all_iff target_check_def summarised_def)
  have same: "u = t" if "u \<in> set (db_targets db)" "pt_ID u = i" for u
    using that t assms(2) by (auto simp: targets_ok_def distinct_map inj_on_def)
  have names: "\<not> list_ex (\<lambda>u. pt_Name u = pt_Name ?t \<and> pt_ID u \<noteq> pt_ID ?t) (db_targets db)"
    using t assms(2) by (auto simp: list_ex_iff summarised_def targets_ok_def distinct_map inj_on_def)
  have "map (\<lambda>u. if pt_ID u = pt_ID ?t then ?t else u) (db_targets db) =
     map (\<lambda>u. if pt_ID u = i then summarised c out (db_clock db) u else u) (db_targets db)"
    using t(2) same by (auto simp: summarised_def)
  then have "put_target ?t db = (Inr ?t, db\<lparr>db_targets := map (\<lambda>u. if pt_ID u = i then summarised c out (db_clock db) u else u) (db_targets db)\<rparr>)"
    using check names by (simp add: put_target_def)
  then show ?thesis using Some assms(1)
    by (simp add: SetProbeTargetLastResult_def stmt_run seq_def ret_def summarised_def)
qed

lemma result_row_check: "verdict_ok (out_Status out) \<Longrightarrow> result_check (result_row i v c out\<lparr>pr_ID := n\<rparr>)"
  by (auto simp: result_check_def result_row_def certTrustedDB_def boolToInt64_def split: option.splits)

lemma on_db_state: "\<exists>r db. on_db m e = (r, e\<lparr>eng_db := db\<rparr>)"
  by (cases "m (eng_db e)") (auto simp: on_db_def)

lemma persist_outcome_state:
  "\<exists>db. persist_outcome t c out e = (Inr (toResultResponse (result_row (pt_ID t) ProbeVantageCenter c out\<lparr>pr_ID := n\<rparr>)\<lparr>rr_ID := 0, rr_Vantage := []\<rparr>), note_transition (pt_ID t) t ProbeVantageCenter (pt_LastStatus t) (out_Status out) (out_ErrMsg out)
     (record_gauges (pt_Name t, pt_Module t, ProbeVantageCenter) (out_Status out) (of_int (out_Latency out) / of_int second)
       (out_CertNotAfter out) (e\<lparr>eng_db := db\<rparr>)))"
proof -
  have db: "\<exists>r db. outcome (on_db m) e = (Inr r, e\<lparr>eng_db := db\<rparr>)" for m :: "'a pprog" and e
    by (auto simp: outcome_def on_db_def split: prod.splits)
  have if_db: "\<exists>r db. outcome (if b then on_db m else ret x) e = (Inr r, e\<lparr>eng_db := db\<rparr>)" for b x and m :: "'a pprog" and e
    by (cases b) (auto simp: outcome_def on_db_def ret_def intro: exI [of _ "eng_db e"] split: prod.splits)
  have resp: "toResultResponse (result_row (pt_ID t) ProbeVantageCenter c out\<lparr>pr_ID := n\<rparr>)\<lparr>rr_ID := 0, rr_Vantage := []\<rparr> =
     \<lparr>rr_ID = 0, rr_TargetID = pt_ID t, rr_Status = out_Status out, rr_LatencyMs = latency_ms (out_Latency out),
      rr_StatusCode = out_StatusCode out, rr_ErrorMessage = out_ErrMsg out, rr_TLSVersion = out_TLSVersion out,
      rr_CertNotAfter = out_CertNotAfter out, rr_CertTrusted = out_CertTrusted out, rr_CheckedAt = c, rr_Vantage = []\<rparr>"
    by (cases "out_CertTrusted out") (simp_all add: toResultResponse_def result_row_def certTrustedDB_def boolToInt64_def)
  obtain r1 db1 where 1: "outcome (on_db (CreateProbeResult (result_row (pt_ID t) ProbeVantageCenter c out))) e = (Inr r1, e\<lparr>eng_db := db1\<rparr>)"
    using db by blast
  obtain r2 db2 where 2: "outcome (on_db (SetProbeTargetLastResult c (out_Status out) (latency_ms (out_Latency out)) (out_ErrMsg out) (pt_ID t)))
      (e\<lparr>eng_db := db1\<rparr>) = (Inr r2, e\<lparr>eng_db := db2\<rparr>)"
    using db [of "SetProbeTargetLastResult c (out_Status out) (latency_ms (out_Latency out)) (out_ErrMsg out) (pt_ID t)" "e\<lparr>eng_db := db1\<rparr>"] by auto
  obtain r3 db3 where 3: "outcome (if out_Certs out \<noteq> [] then on_db (upsertCerts (pt_ID t) (out_Certs out)) else ret ()) (e\<lparr>eng_db := db2\<rparr>) =
      (Inr r3, e\<lparr>eng_db := db3\<rparr>)"
    using if_db [of "out_Certs out \<noteq> []" "upsertCerts (pt_ID t) (out_Certs out)" "()" "e\<lparr>eng_db := db2\<rparr>"] by auto
  show ?thesis
    unfolding persist_outcome_def by (rule exI [of _ db3]) (simp add: seq_def 1 2 3 set_state_def ret_def resp)
qed

lemma persist_run:
  assumes "db_faults (eng_db e) = []" "targets_ok (eng_db e)" "verdict_ok (out_Status out)"
  shows "eng_db (snd (persist_outcome t c out e)) = (eng_db e)
    \<lparr>db_results := db_results (eng_db e) @ [result_row (pt_ID t) ProbeVantageCenter c out\<lparr>pr_ID := db_result_seq (eng_db e) + 1\<rparr>],
     db_result_seq := db_result_seq (eng_db e) + 1,
     db_targets := map (\<lambda>u. if pt_ID u = pt_ID t then summarised c out (db_clock (eng_db e)) u else u) (db_targets (eng_db e)),
     db_certs := (if out_Certs out = [] then db_certs (eng_db e)
       else filter (\<lambda>x. pc_TargetID x \<noteq> pt_ID t) (db_certs (eng_db e)) @ numbered (db_cert_seq (eng_db e)) (map (cert_params (pt_ID t)) (out_Certs out))),
     db_cert_seq := db_cert_seq (eng_db e) + int (length (out_Certs out))\<rparr>"
proof -
  let ?row = "result_row (pt_ID t) ProbeVantageCenter c out"
  let ?db1 = "(eng_db e)\<lparr>db_results := db_results (eng_db e) @ [?row\<lparr>pr_ID := db_result_seq (eng_db e) + 1\<rparr>], db_result_seq := db_result_seq (eng_db e) + 1\<rparr>"
  have 1: "CreateProbeResult ?row (eng_db e) = (Inr (), ?db1)"
    using assms(1) result_row_check [OF assms(3)] by (simp add: CreateProbeResult_def stmt_run Let_def)
  let ?db2 = "?db1\<lparr>db_targets := map (\<lambda>u. if pt_ID u = pt_ID t then summarised c out (db_clock (eng_db e)) u else u) (db_targets (eng_db e))\<rparr>"
  have 2: "SetProbeTargetLastResult c (out_Status out) (latency_ms (out_Latency out)) (out_ErrMsg out) (pt_ID t) ?db1 = (Inr (), ?db2)"
    using SetLast_run [of ?db1 out c "pt_ID t"] assms by (simp add: targets_ok_def)
  have 3: "upsertCerts (pt_ID t) (out_Certs out) ?db2 = (Inr (), ?db2\<lparr>db_certs := filter (\<lambda>x. pc_TargetID x \<noteq> pt_ID t) (db_certs (eng_db e)) @
     numbered (db_cert_seq (eng_db e)) (map (cert_params (pt_ID t)) (out_Certs out)), db_cert_seq := db_cert_seq (eng_db e) + int (length (out_Certs out))\<rparr>)"
    using upsertCerts_run [of ?db2] assms(1) by simp
  show ?thesis
    by (simp add: persist_outcome_def seq_def outcome_def on_db_def 1 2 3 set_state_def ret_def record_gauges_def note_transition_def split_beta)
qed

text \<open>
  C21. A probe that runs stores exactly what it found, in one place each: one result row on the center's
  track under a fresh key, the summary columns of its own target and of no other, and the certificate
  chain, which replaces the stored one only when the probe collected a chain; the answer to a manual
  trigger is the stored result, and the in-flight mark is given back.
\<close>

theorem probe_persists:
  assumes "db_faults (eng_db e) = []" "probe_inv (eng_db e)" "pt_ID t \<notin> eng_inFlight e"
  shows "case probeTarget w now t e of (r, e') \<Rightarrow>
    (let db = eng_db e; db' = eng_db e'; out = execute w t; c = format_rfc3339 now; i = pt_ID t;
         row = result_row i ProbeVantageCenter c out\<lparr>pr_ID := db_result_seq db + 1\<rparr>
     in db_results db' = db_results db @ [row] \<and>
        db_targets db' = map (\<lambda>u. if pt_ID u = i then summarised c out (db_clock db) u else u) (db_targets db) \<and>
        filter (\<lambda>x. pc_TargetID x \<noteq> i) (db_certs db') = filter (\<lambda>x. pc_TargetID x \<noteq> i) (db_certs db) \<and>
        map (\<lambda>x. x\<lparr>pc_ID := 0\<rparr>) (filter (\<lambda>x. pc_TargetID x = i) (db_certs db')) =
          (if out_Certs out = [] then map (\<lambda>x. x\<lparr>pc_ID := 0\<rparr>) (filter (\<lambda>x. pc_TargetID x = i) (db_certs db))
           else map (cert_params i) (out_Certs out)) \<and>
        r = Inr (toResultResponse row\<lparr>rr_ID := 0, rr_Vantage := []\<rparr>) \<and> eng_inFlight e' = eng_inFlight e)"
proof -
  let ?out = "execute w t" and ?c = "format_rfc3339 now" and ?i = "pt_ID t"
  let ?e1 = "e\<lparr>eng_inFlight := insert ?i (eng_inFlight e)\<rparr>"
  obtain r e2 where e2: "persist_outcome t ?c ?out ?e1 = (r, e2)" by fastforce
  have run: "probeTarget w now t e = (r, e2\<lparr>eng_inFlight := eng_inFlight e2 - {?i}\<rparr>)"
    using assms(3) e2 by (simp add: probeTarget_def seq_def probe_begin_def probe_finish_def)
  have ok: "verdict_ok (out_Status ?out)" using execute_ok by (simp add: ok_outcome_def)
  have db: "eng_db e2 = (eng_db e)
    \<lparr>db_results := db_results (eng_db e) @ [result_row ?i ProbeVantageCenter ?c ?out\<lparr>pr_ID := db_result_seq (eng_db e) + 1\<rparr>],
     db_result_seq := db_result_seq (eng_db e) + 1,
     db_targets := map (\<lambda>u. if pt_ID u = ?i then summarised ?c ?out (db_clock (eng_db e)) u else u) (db_targets (eng_db e)),
     db_certs := (if out_Certs ?out = [] then db_certs (eng_db e)
       else filter (\<lambda>x. pc_TargetID x \<noteq> ?i) (db_certs (eng_db e)) @ numbered (db_cert_seq (eng_db e)) (map (cert_params ?i) (out_Certs ?out))),
     db_cert_seq := db_cert_seq (eng_db e) + int (length (out_Certs ?out))\<rparr>"
    using persist_run [of ?e1 ?out t ?c] assms(1,2) ok e2 by (simp add: probe_inv_def)
  have new: "list_all (\<lambda>x. pc_TargetID x = ?i) (numbered n (map (cert_params ?i) cs))" for n cs
    by (rule numbered_target) (simp add: list_all_iff cert_params_def)
  have certs: "filter (\<lambda>x. pc_TargetID x \<noteq> ?i) (numbered n (map (cert_params ?i) cs)) = []"
    "filter (\<lambda>x. pc_TargetID x = ?i) (numbered n (map (cert_params ?i) cs)) = numbered n (map (cert_params ?i) cs)" for n cs
    using new [of n cs] by (auto simp: list_all_iff filter_empty_conv filter_id_conv)
  have chain: "map (\<lambda>x. x\<lparr>pc_ID := 0\<rparr>) (numbered n (map (cert_params ?i) cs)) = map (cert_params ?i) cs" for n cs
    by (simp add: numbered_rows cert_params_def)
  obtain db2 where st: "persist_outcome t ?c ?out ?e1 =
      (Inr (toResultResponse (result_row ?i ProbeVantageCenter ?c ?out\<lparr>pr_ID := db_result_seq (eng_db e) + 1\<rparr>)\<lparr>rr_ID := 0, rr_Vantage := []\<rparr>),
       note_transition ?i t ProbeVantageCenter (pt_LastStatus t) (out_Status ?out) (out_ErrMsg ?out)
        (record_gauges (pt_Name t, pt_Module t, ProbeVantageCenter) (out_Status ?out) (of_int (out_Latency ?out) / of_int second)
          (out_CertNotAfter ?out) (?e1\<lparr>eng_db := db2\<rparr>)))"
    using persist_outcome_state [of t ?c ?out ?e1 "db_result_seq (eng_db e) + 1"] by blast
  have resp: "r = Inr (toResultResponse (result_row ?i ProbeVantageCenter ?c ?out\<lparr>pr_ID := db_result_seq (eng_db e) + 1\<rparr>)\<lparr>rr_ID := 0, rr_Vantage := []\<rparr>)"
    using st e2 by simp
  have flight: "eng_inFlight e2 = insert ?i (eng_inFlight e)"
    using st e2 by (auto simp: note_transition_def record_gauges_def split: prod.splits)
  show ?thesis unfolding run using db certs chain resp flight assms(3) by (simp add: Let_def filter_empty_conv)
qed

lemma demo_db_inv: "probe_inv demo_db"
  by (simp add: demo_db_def probe_ok_defs demo_target_def empty_probe_db_def new_target_def create_params_def demo_request_def
      target_check_def ValidProbeModules_def defaultIfZero_def ProbeSourceManual_def)

definition offline_world :: world where
  "offline_world =
     \<lparr>w_Probe = (\<lambda>_ _ _. Inl ''no route to host''), w_CertCollect = (\<lambda>_ _ _. []), w_CertElapsed = 0, w_NewRequest = (\<lambda>_ _. None),
      w_Do = (\<lambda>_ _ _ _. (0, Inl ''no route to host'')),
      w_Tcp = (\<lambda>_ _ _. \<lparr>tcp_Dial = Some ''no route to host'', tcp_Write = None, tcp_Read = ([], None), tcp_Elapsed = 0\<rparr>),
      w_Lookup = (\<lambda>_ _ _ _. (0, [], Some ''no route to host'')), w_Regexp = (\<lambda>_. Inl ''no'')\<rparr>"

theorem probe_persists_witness:
  "case probeTarget offline_world 0 demo_target (NewEngine demo_db None 0 True) of (r, e') \<Rightarrow>
    map pr_Status (db_results (eng_db e')) = [''fail''] \<and> map pt_LastStatus (db_targets (eng_db e')) = [''fail''] \<and> eng_inFlight e' = {}"
proof -
  let ?e = "NewEngine demo_db None 0 True"
  have "out_Status (execute offline_world demo_target) = ''fail''" by code_simp
  moreover have "db_faults (eng_db ?e) = []" "db_results (eng_db ?e) = []" "db_targets (eng_db ?e) = [demo_target]" "pt_ID demo_target \<notin> eng_inFlight ?e"
    "eng_inFlight ?e = {}" by (simp_all add: NewEngine_def demo_db_def empty_probe_db_def)
  moreover have "probe_inv (eng_db ?e)" using demo_db_inv by (simp add: NewEngine_def)
  ultimately show ?thesis
    using probe_persists [of ?e demo_target offline_world 0] by (simp add: Let_def split_beta summarised_def result_row_def)
qed

end
