(* ===== verification/Probe_Machine.thy ===== *)
theory Probe_Machine
  imports Probe_Engine
begin

section \<open>Synthetic probing: the goroutines of the engine\<close>

text \<open>
  The engine's loop runs one tick at a time; a tick launches a goroutine per due target and waits for
  all of them, each goroutine waits for one of the slots before it probes, a manual trigger probes in
  the goroutine of its request without a slot, and agents report and administrators edit meanwhile.
  This theory interleaves them.  A probe is two steps, taking the in-flight mark and everything up to
  giving it back; the operations of the service and the ingestion of a report are one step each.
\<close>

record machine =
  mc_engine :: Engine
  mc_listed :: "ProbeTarget list option"
  mc_waiting :: "ProbeTarget list"
  mc_probing :: "(bool \<times> ProbeTarget) list"

text \<open>
  \<open>mc_listed\<close> holds the listing of the tick in progress, \<open>mc_waiting\<close> the goroutines that wait for a slot,
  \<open>mc_probing\<close> the probes under way, with whether they hold a slot.
\<close>

definition scheduled :: "machine \<Rightarrow> int" where
  "scheduled m = int (length (filter fst (mc_probing m)))"

inductive engine_step :: "machine \<Rightarrow> machine \<Rightarrow> bool" where
  tick_fails:
    "mc_listed m = None \<Longrightarrow> on_db ListEnabledProbeTargets (mc_engine m) = (Inl err, e') \<Longrightarrow>
     engine_step m (m\<lparr>mc_engine := e'\<rparr>)"
| tick_starts:
    "mc_listed m = None \<Longrightarrow> on_db ListEnabledProbeTargets (mc_engine m) = (Inr targets, e1) \<Longrightarrow>
     tick_plan now targets e1 = (launched, e2) \<Longrightarrow>
     engine_step m (m\<lparr>mc_engine := e2, mc_listed := Some targets, mc_waiting := launched\<rparr>)"
| probe_starts:
    "mc_waiting m = us @ t # vs \<Longrightarrow> scheduled m < eng_slots (mc_engine m) \<Longrightarrow>
     probe_begin t (mc_engine m) = (Inr (), e') \<Longrightarrow>
     engine_step m (m\<lparr>mc_engine := e', mc_waiting := us @ vs, mc_probing := (True, t) # mc_probing m\<rparr>)"
| probe_busy:
    "mc_waiting m = us @ t # vs \<Longrightarrow> scheduled m < eng_slots (mc_engine m) \<Longrightarrow>
     probe_begin t (mc_engine m) = (Inl err, e') \<Longrightarrow>
     engine_step m (m\<lparr>mc_engine := e', mc_waiting := us @ vs\<rparr>)"
| trigger_refused:
    "seq (trigger_target i) probe_begin (mc_engine m) = (Inl err, e') \<Longrightarrow>
     engine_step m (m\<lparr>mc_engine := e'\<rparr>)"
| trigger_starts:
    "trigger_target i (mc_engine m) = (Inr t, e1) \<Longrightarrow> probe_begin t e1 = (Inr (), e2) \<Longrightarrow>
     engine_step m (m\<lparr>mc_engine := e2, mc_probing := (False, t) # mc_probing m\<rparr>)"
| probe_ends:
    "mc_probing m = us @ (slot, t) # vs \<Longrightarrow> probe_finish w now t (mc_engine m) = (r, e') \<Longrightarrow>
     engine_step m (m\<lparr>mc_engine := e', mc_probing := us @ vs\<rparr>)"
| tick_ends:
    "mc_listed m = Some targets \<Longrightarrow> mc_waiting m = [] \<Longrightarrow> scheduled m = 0 \<Longrightarrow>
     engine_step m (m\<lparr>mc_engine := tick_done targets (mc_engine m), mc_listed := None\<rparr>)"
| agent_reports:
    "IngestAgentResults agentID reports (mc_engine m) = (r, e') \<Longrightarrow>
     engine_step m (m\<lparr>mc_engine := e'\<rparr>)"
| service_writes:
    "engine_step m (m\<lparr>mc_engine := (mc_engine m)\<lparr>eng_db := run_op a (eng_db (mc_engine m))\<rparr>\<rparr>)"

subsection \<open>What the parts of a probe leave alone\<close>

definition frame :: "int set \<Rightarrow> int \<Rightarrow> Engine \<Rightarrow> bool" where
  "frame F n e \<longleftrightarrow> eng_inFlight e = F \<and> eng_slots e = n \<and> probe_inv (eng_db e)"

lemma keeps_set_state: "(\<And>s. P s \<Longrightarrow> P (f s)) \<Longrightarrow> keeps P (set_state f)"
  by (simp add: keeps_def set_state_def)

lemma frame_on_db [keeps_intros]: "keeps probe_inv m \<Longrightarrow> keeps (frame F n) (on_db m)"
  by (auto simp: keeps_def frame_def on_db_def split: prod.splits)

lemma frame_set_state [keeps_intros]:
  "keeps (frame F n) (set_state (record_gauges l s x na))"
  "keeps (frame F n) (set_state (note_transition i t v ls st er))"
  by (auto simp: keeps_set_state frame_def record_gauges_def note_transition_def intro!: keeps_set_state split: prod.splits)

lemma keeps_upsertCerts [keeps_intros]: "keeps probe_inv (upsertCerts i certs)"
  unfolding upsertCerts_def by (intro keeps_intros)

lemma frame_persist: "keeps (frame F n) (persist_outcome t c out)"
  unfolding persist_outcome_def by (intro keeps_intros)

lemma frame_trigger: "keeps (frame F n) (trigger_target i)"
  unfolding trigger_target_def by (intro keeps_intros keeps_not_found)

lemma frame_ingest_row [keeps_intros]: "keeps (frame F n) (ingest_row own r t)"
  unfolding ingest_row_def by (intro keeps_intros)

lemma frame_ingest: "keeps (frame F n) (ingest own rs k)"
  by (induction rs arbitrary: k) (auto intro!: keeps_intros)

lemma frame_state: "frame F n e \<Longrightarrow> m e = (r, e') \<Longrightarrow> keeps (frame F n) m \<Longrightarrow> frame F n e'"
  using keepsD [of "frame F n" m e] by simp

subsection \<open>Mutual exclusion and the bound on scheduled probes\<close>

abbreviation probing_ids :: "machine \<Rightarrow> int list" where
  "probing_ids m \<equiv> map (pt_ID \<circ> snd) (mc_probing m)"

definition machine_inv :: "int \<Rightarrow> machine \<Rightarrow> bool" where
  "machine_inv n m \<longleftrightarrow>
     distinct (probing_ids m) \<and> frame (set (probing_ids m)) (n) (mc_engine m) \<and>
     0 < n \<and> scheduled m \<le> n \<and>
     (mc_listed m = None \<longrightarrow> mc_waiting m = [] \<and> scheduled m = 0)"

lemma probe_begin_cases:
  "probe_begin t e = (r, e') \<longleftrightarrow>
    (if pt_ID t \<in> eng_inFlight e then r = Inl ErrProbeBusy \<and> e' = e
     else r = Inr () \<and> e' = e\<lparr>eng_inFlight := insert (pt_ID t) (eng_inFlight e)\<rparr>)"
  by (auto simp: probe_begin_def)

lemma probe_finish_frame:
  assumes "frame F n e" "probe_finish w now t e = (r, e')"
  shows "frame (F - {pt_ID t}) n e'"
proof -
  obtain r1 e1 where e1: "persist_outcome t (format_rfc3339 now) (execute w t) e = (r1, e1)" by fastforce
  then have "frame F n e1" using frame_state assms(1) frame_persist by blast
  then show ?thesis using assms(2) e1 by (auto simp: probe_finish_def frame_def)
qed

lemma tick_plan_frame: "frame F n e \<Longrightarrow> tick_plan now targets e = (l, e') \<Longrightarrow> frame F n e'"
  by (auto simp: tick_plan_def frame_def Let_def split: prod.splits)

lemma machine_inv_engine:
  assumes "machine_inv n m" "keeps (frame (set (probing_ids m)) (n)) p" "p (mc_engine m) = (r, e')"
  shows "machine_inv n (m\<lparr>mc_engine := e'\<rparr>)"
proof -
  have "frame (set (probing_ids m)) (n) e'"
    using assms frame_state by (auto simp: machine_inv_def)
  then show ?thesis using assms(1) by (simp add: machine_inv_def scheduled_def frame_def)
qed

lemma keeps_List: "keeps (frame F n) (on_db ListEnabledProbeTargets)"
  by (intro keeps_intros)

lemma run_op_inv: "probe_inv db \<Longrightarrow> probe_inv (run_op a db)"
  using keepsD [OF keeps_service_writes(1)] keepsD [OF keeps_service_writes(2)] keepsD [OF keeps_service_writes(3)]
  by (cases a) (simp_all add: run_op_def)

lemma engine_step_inv: "engine_step m m' \<Longrightarrow> machine_inv n m \<Longrightarrow> machine_inv n m'"
proof (induction rule: engine_step.induct)
  case (tick_fails m err e')
  show ?case by (rule machine_inv_engine [OF tick_fails(3) keeps_List tick_fails(2)])
next
  case (tick_starts m targets e1 now launched e2)
  have "frame (set (probing_ids m)) (n) e1"
    using tick_starts(2,4) frame_state [OF _ tick_starts(2) keeps_List] by (simp add: machine_inv_def)
  then have "frame (set (probing_ids m)) (n) e2" using tick_plan_frame tick_starts(3) by blast
  then show ?case using tick_starts(4) by (simp add: machine_inv_def scheduled_def frame_def)
next
  case (probe_starts m us t vs e')
  then show ?case by (auto simp: machine_inv_def probe_begin_cases frame_def scheduled_def split: if_splits)
next
  case (probe_busy m us t vs err e')
  then show ?case by (auto simp: machine_inv_def probe_begin_cases frame_def scheduled_def split: if_splits)
next
  case (trigger_refused i m err e')
  obtain r1 e1 where e1: "trigger_target i (mc_engine m) = (r1, e1)" by fastforce
  have "e' = e1" using trigger_refused(1) e1 by (auto simp: seq_def probe_begin_def split: sum.splits if_splits)
  then show ?case using machine_inv_engine [OF trigger_refused(2) frame_trigger e1] by simp
next
  case (trigger_starts i m t e1 e2)
  have "frame (set (probing_ids m)) (n) e1"
    using frame_state [OF _ trigger_starts(1) frame_trigger] trigger_starts(3) by (simp add: machine_inv_def)
  then show ?case using trigger_starts(2,3) by (auto simp: machine_inv_def probe_begin_cases frame_def scheduled_def split: if_splits)
next
  case (probe_ends m us slot t vs w now r e')
  have "frame (set (probing_ids m) - {pt_ID t}) (n) e'"
    using probe_finish_frame [OF _ probe_ends(2)] probe_ends(3) by (simp add: machine_inv_def)
  moreover have "set (probing_ids m) - {pt_ID t} = (pt_ID \<circ> snd) ` set (us @ vs)"
    using probe_ends(1,3) by (auto simp: machine_inv_def)
  ultimately show ?case using probe_ends(1,3) by (cases slot) (auto simp: machine_inv_def scheduled_def frame_def)
next
  case (tick_ends m targets)
  then show ?case by (auto simp: machine_inv_def frame_def tick_done_def scheduled_def)
next
  case (agent_reports agentID reports m r e')
  show ?case using machine_inv_engine [OF agent_reports(2) frame_ingest] agent_reports(1) unfolding IngestAgentResults_def .
next
  case (service_writes m a)
  then show ?case using run_op_inv by (simp add: machine_inv_def frame_def scheduled_def)
qed

lemma engine_steps_inv: "engine_step\<^sup>*\<^sup>* m m' \<Longrightarrow> machine_inv n m \<Longrightarrow> machine_inv n m'"
  by (induction rule: rtranclp_induct) (auto intro: engine_step_inv)

definition start_machine :: "Engine \<Rightarrow> machine" where
  "start_machine e = \<lparr>mc_engine = e, mc_listed = None, mc_waiting = [], mc_probing = []\<rparr>"

lemma machine_inv_start:
  "probe_inv db \<Longrightarrow> machine_inv (if k \<le> 0 then defaultMaxConcurrency else k)
     (start_machine (WithNotifyFailThreshold thr (NewEngine db reg k rec)))"
  by (simp add: machine_inv_def start_machine_def frame_def NewEngine_def WithNotifyFailThreshold_def scheduled_def defaultMaxConcurrency_def)

subsection \<open>A tick comes to its end\<close>

text \<open>What is left to do of the tick in progress.\<close>

definition tick_work :: "machine \<Rightarrow> int" where
  "tick_work m = 2 * int (length (mc_waiting m)) + scheduled m"

lemma tick_work_mono:
  assumes "engine_step m m'" "mc_listed m = Some targets"
  shows "tick_work m' \<le> tick_work m \<and> (mc_listed m' = None \<or> mc_listed m' = Some targets)"
  using assms by (cases rule: engine_step.cases) (auto simp: tick_work_def scheduled_def)

lemma probe_can_end:
  assumes "0 < scheduled m"
  shows "\<exists>m'. engine_step m m' \<and> tick_work m' < tick_work m"
proof -
  have "filter fst (mc_probing m) \<noteq> []" using assms by (auto simp: scheduled_def)
  then obtain t where "(True, t) \<in> set (mc_probing m)" by (auto simp: filter_empty_conv)
  then obtain us vs where split: "mc_probing m = us @ (True, t) # vs" by (meson split_list)
  have "engine_step m (m\<lparr>mc_engine := snd (probe_finish w now t (mc_engine m)), mc_probing := us @ vs\<rparr>)" for w now
    by (rule engine_step.probe_ends [OF split, where w = w and now = now and r = "fst (probe_finish w now t (mc_engine m))"]) simp
  moreover have "tick_work (m\<lparr>mc_engine := e, mc_probing := us @ vs\<rparr>) < tick_work m" for e
    using split by (simp add: tick_work_def scheduled_def)
  ultimately show ?thesis by blast
qed

lemma tick_can_advance:
  assumes "machine_inv n m" "mc_listed m = Some targets"
  shows "\<exists>m'. engine_step m m' \<and> (mc_listed m' = None \<or> tick_work m' < tick_work m)"
proof (cases "mc_waiting m")
  case Nil
  show ?thesis
  proof (cases "scheduled m = 0")
    case True
    then show ?thesis using engine_step.tick_ends [OF assms(2) Nil] by fastforce
  next
    case False
    then have "0 < scheduled m" by (simp add: scheduled_def)
    then show ?thesis using probe_can_end by blast
  qed
next
  case (Cons t vs)
  show ?thesis
  proof (cases "scheduled m < eng_slots (mc_engine m)")
    case True
    have split: "mc_waiting m = [] @ t # vs" using Cons by simp
    consider e' where "probe_begin t (mc_engine m) = (Inr (), e')" | err e' where "probe_begin t (mc_engine m) = (Inl err, e')"
      by (metis old.unit.exhaust prod.collapse sum.collapse(1) sum.collapse(2))
    then show ?thesis
    proof cases
      case 1
      show ?thesis using engine_step.probe_starts [OF split True 1] Cons by (fastforce simp: tick_work_def scheduled_def)
    next
      case 2
      show ?thesis using engine_step.probe_busy [OF split True 2] Cons by (fastforce simp: tick_work_def scheduled_def)
    qed
  next
    case False
    then have "0 < scheduled m" using assms(1) by (auto simp: machine_inv_def frame_def)
    then show ?thesis using probe_can_end by blast
  qed
qed

subsection \<open>The events of a track\<close>

definition event_track :: "snapshot ChangeEvent \<Rightarrow> trackKey \<times> bool" where
  "event_track ev =
     ((ev_DeviceID ev,
       case ev_After ev of Some fs \<Rightarrow> (case map_of fs ''vantage'' of Some (AStr v) \<Rightarrow> v | _ \<Rightarrow> []) | None \<Rightarrow> []),
      ev_ChangeType ev = ChangeTypeProbeFailed)"

abbreviation probe_run where
  "probe_run \<equiv> live_run track_step track_keep"

text \<open>Going from one engine to another hands out the declarations of a run of the detector.\<close>

definition follows :: "(trackKey, string \<times> string) live_act list \<Rightarrow> Engine \<Rightarrow> Engine \<Rightarrow> bool" where
  "follows acts e e' \<longleftrightarrow>
     (\<exists>es. eng_events e' = eng_events e @ es \<and> map event_track es = fst (probe_run acts (eng_transitions e))) \<and>
     eng_transitions e' = snd (probe_run acts (eng_transitions e)) \<and> eng_recorder e' = eng_recorder e"

lemma follows_trans: "follows as e e1 \<Longrightarrow> follows bs e1 e2 \<Longrightarrow> follows (as @ bs) e e2"
  by (auto simp: follows_def live_run_append)

lemma follows_quiet:
  "eng_events e' = eng_events e \<Longrightarrow> eng_transitions e' = eng_transitions e \<Longrightarrow> eng_recorder e' = eng_recorder e \<Longrightarrow> follows [] e e'"
  by (simp add: follows_def)

lemma follows_note:
  assumes "eng_recorder e"
  shows "follows [Observe (i, v) (ls, st)] e (note_transition i t v ls st err e)"
proof -
  obtain ct d where d: "observe i v ls st (eng_transitions e) = (ct, d)" by fastforce
  have "ct = [] \<or> ct = ChangeTypeProbeFailed \<or> ct = ChangeTypeProbeRecovered"
    using d by (auto simp: observe_def Let_def split: if_splits option.splits)
  then show ?thesis using assms d
    by (auto simp: follows_def note_transition_def live_run_Cons live_step_def track_step_def event_track_def probe_event_def
        change_type_defs)
qed

lemma follows_probe_finish:
  assumes "eng_recorder e" "probe_finish w now t e = (r, e')"
  shows "follows [Observe (pt_ID t, ProbeVantageCenter) (pt_LastStatus t, out_Status (execute w t))] e e'"
proof -
  let ?out = "execute w t"
  obtain db where db: "snd (persist_outcome t (format_rfc3339 now) ?out e) =
      note_transition (pt_ID t) t ProbeVantageCenter (pt_LastStatus t) (out_Status ?out) (out_ErrMsg ?out)
       (record_gauges (pt_Name t, pt_Module t, ProbeVantageCenter) (out_Status ?out) (of_int (out_Latency ?out) / of_int second)
         (out_CertNotAfter ?out) (e\<lparr>eng_db := db\<rparr>))" (is "_ = note_transition _ _ _ _ _ _ ?e1")
    using persist_outcome_state [of t "format_rfc3339 now" ?out e 0] by (metis snd_conv)
  let ?e2 = "note_transition (pt_ID t) t ProbeVantageCenter (pt_LastStatus t) (out_Status ?out) (out_ErrMsg ?out) ?e1"
  have "follows [] e ?e1" by (rule follows_quiet) (simp_all add: record_gauges_def)
  moreover have "follows [Observe (pt_ID t, ProbeVantageCenter) (pt_LastStatus t, out_Status ?out)] ?e1 ?e2"
    using assms(1) by (intro follows_note) (simp add: record_gauges_def)
  moreover have "follows [] ?e2 e'" using assms(2) db by (intro follows_quiet) (auto simp: probe_finish_def split: prod.splits)
  ultimately show ?thesis using follows_trans by (metis append_Nil append_Nil2)
qed

lemma follows_ingest_row:
  assumes "eng_recorder e"
  shows "\<exists>acts. follows acts e (snd (ingest_row own r t e)) \<and> (\<forall>k. never_dropped k acts)"
proof (cases "eng_nil e")
  case True
  then show ?thesis by (intro exI [of _ "[]"]) (simp add: ingest_row_def seq_def get_state_def raise_def follows_quiet)
next
  case False
  let ?g = "record_gauges (pt_Name t, pt_Module t, own) (ar_Status r) (ar_LatencyMs r / 1000) (ar_CertNotAfter r) e"
  obtain put db where put: "on_db (CreateProbeResult (report_row own r)) ?g = (put, ?g\<lparr>eng_db := db\<rparr>)" using on_db_state by blast
  let ?h = "note_transition (ar_TargetID r) t own [] (ar_Status r) (ar_ErrorMessage r) (?g\<lparr>eng_db := db\<rparr>)"
  have quiet: "follows [] e (?g\<lparr>eng_db := db\<rparr>)" by (rule follows_quiet) (simp_all add: record_gauges_def)
  have "follows ([] @ [Observe (ar_TargetID r, own) ([], ar_Status r)]) e ?h"
    using assms by (intro follows_trans [OF quiet] follows_note) (simp add: record_gauges_def)
  moreover have "snd (ingest_row own r t e) = (case put of Inl _ \<Rightarrow> ?g\<lparr>eng_db := db\<rparr> | Inr _ \<Rightarrow> ?h)"
    using False put by (cases put) (simp_all add: ingest_row_def seq_def outcome_def get_state_def set_state_def ret_def)
  ultimately show ?thesis using quiet
    by (cases put; intro exI [of _ "case put of Inl _ \<Rightarrow> [] | Inr _ \<Rightarrow> [Observe (ar_TargetID r, own) ([], ar_Status r)]"]) simp_all
qed

lemma follows_ingest:
  "eng_recorder e \<Longrightarrow> \<exists>acts. follows acts e (snd (ingest own rs n e)) \<and> (\<forall>k. never_dropped k acts)"
proof (induction rs arbitrary: n e)
  case Nil
  then show ?case by (intro exI [of _ "[]"]) (simp add: follows_quiet ret_def)
next
  case (Cons r rs)
  obtain found db where get: "on_db (GetProbeTarget (ar_TargetID r)) e = (found, e\<lparr>eng_db := db\<rparr>)" using on_db_state by blast
  let ?e = "e\<lparr>eng_db := db\<rparr>"
  have rest: "\<exists>acts. follows acts e (snd (ingest own rs n' e1)) \<and> (\<forall>k. never_dropped k acts)"
    if "follows as e e1" "\<forall>k. never_dropped k as" for as e1 n'
  proof -
    have "eng_recorder e1" using that(1) Cons.prems by (simp add: follows_def)
    then obtain bs where "follows bs e1 (snd (ingest own rs n' e1))" "\<forall>k. never_dropped k bs" using Cons.IH by blast
    then show ?thesis using that follows_trans by (intro exI [of _ "as @ bs"]) auto
  qed
  have quiet: "follows [] e ?e" by (rule follows_quiet) simp_all
  show ?case
  proof (cases found)
    case (Inl err)
    then show ?thesis using get rest [OF quiet] by (simp add: seq_def outcome_def)
  next
    case (Inr t)
    obtain as where as: "follows as ?e (snd (ingest_row own r t ?e))" "\<forall>k. never_dropped k as"
      using follows_ingest_row [of ?e own r t] Cons.prems by auto
    have row: "follows as e (snd (ingest_row own r t ?e))" using follows_trans [OF quiet as(1)] by simp
    obtain res e1 where "ingest_row own r t ?e = (res, e1)" by fastforce
    then show ?thesis using get Inr rest [OF row as(2)] row as(2)
      by (auto simp: seq_def outcome_def ret_def split: sum.splits option.splits)
  qed
qed

lemma follows_tick_plan:
  "tick_plan now targets e = (l, e') \<Longrightarrow> follows [Keep (\<lambda>k. fst k \<in> set (map pt_ID targets))] e e'"
  by (auto simp: follows_def tick_plan_def Let_def live_run_Cons live_step_def prune_track_keep split: prod.splits)

text \<open>A target that the tick in progress, if there is one, has listed.\<close>

definition lists :: "int \<Rightarrow> machine \<Rightarrow> bool" where
  "lists i m \<longleftrightarrow> (case mc_listed m of None \<Rightarrow> True | Some targets \<Rightarrow> i \<in> set (map pt_ID targets))"

lemma trigger_quiet:
  assumes "trigger_target i e = (r, e1)"
  shows "follows [] e e1"
proof -
  obtain found db where "on_db (GetProbeTarget i) e = (found, e\<lparr>eng_db := db\<rparr>)" using on_db_state by blast
  then have "e1 = e\<lparr>eng_db := db\<rparr>" using assms
    by (auto simp: trigger_target_def not_found_def seq_def outcome_def raise_def ret_def split: sum.splits if_splits)
  then show ?thesis by (auto intro: follows_quiet)
qed

lemma engine_step_follows:
  assumes "engine_step m m'" "eng_recorder (mc_engine m)" "lists (fst k) m'"
  shows "\<exists>acts. follows acts (mc_engine m) (mc_engine m') \<and> never_dropped k acts"
  using assms
proof (induction rule: engine_step.induct)
  case (tick_fails m err e')
  then show ?case using on_db_state [of ListEnabledProbeTargets "mc_engine m"] by (intro exI [of _ "[]"]) (auto intro: follows_quiet)
next
  case (tick_starts m targets e1 now launched e2)
  have "follows [] (mc_engine m) e1"
    using tick_starts(2) on_db_state [of ListEnabledProbeTargets "mc_engine m"] by (auto intro: follows_quiet)
  then have "follows [Keep (\<lambda>k. fst k \<in> set (map pt_ID targets))] (mc_engine m) e2"
    using follows_trans [OF _ follows_tick_plan [OF tick_starts(3)]] by fastforce
  then show ?case using tick_starts(5) by (intro exI [of _ "[Keep (\<lambda>k. fst k \<in> set (map pt_ID targets))]"]) (simp add: lists_def)
next
  case (probe_starts m us t vs e')
  then show ?case by (intro exI [of _ "[]"]) (auto simp: probe_begin_cases intro: follows_quiet split: if_splits)
next
  case (probe_busy m us t vs err e')
  then show ?case by (intro exI [of _ "[]"]) (auto simp: probe_begin_cases intro: follows_quiet split: if_splits)
next
  case (trigger_refused i m err e')
  obtain r1 e1 where e1: "trigger_target i (mc_engine m) = (r1, e1)" by fastforce
  have "e' = e1" using trigger_refused(1) e1 by (auto simp: seq_def probe_begin_def split: sum.splits if_splits)
  then show ?case using trigger_quiet [OF e1] by (intro exI [of _ "[]"]) simp
next
  case (trigger_starts i m t e1 e2)
  have "follows [] e1 e2" using trigger_starts(2) by (auto simp: probe_begin_cases intro: follows_quiet split: if_splits)
  then show ?case using follows_trans [OF trigger_quiet [OF trigger_starts(1)]] by (intro exI [of _ "[]"]) fastforce
next
  case (probe_ends m us slot t vs w now r e')
  then show ?case using follows_probe_finish [OF _ probe_ends(2)]
    by (intro exI [of _ "[Observe (pt_ID t, ProbeVantageCenter) (pt_LastStatus t, out_Status (execute w t))]"]) simp
next
  case (tick_ends m targets)
  then show ?case by (intro exI [of _ "[]"]) (auto simp: tick_done_def intro: follows_quiet)
next
  case (agent_reports agentID reports m r e')
  then show ?case
    using follows_ingest [of "mc_engine m" "ProbeVantageAgentPrefix @ agentID" reports 0]
    by (cases k) (auto simp: IngestAgentResults_def)
next
  case (service_writes m a)
  then show ?case by (intro exI [of _ "[]"]) (auto intro: follows_quiet)
qed

lemma engine_steps_follow:
  assumes "(\<lambda>a b. engine_step a b \<and> lists (fst k) b)\<^sup>*\<^sup>* m m'" "eng_recorder (mc_engine m)"
  shows "\<exists>acts. follows acts (mc_engine m) (mc_engine m') \<and> never_dropped k acts"
  using assms(1)
proof (induction rule: rtranclp_induct)
  case base
  show ?case by (intro exI [of _ "[]"]) (simp add: follows_quiet)
next
  case (step b c)
  then obtain as where as: "follows as (mc_engine m) (mc_engine b)" "never_dropped k as" by blast
  then have "eng_recorder (mc_engine b)" using assms(2) by (simp add: follows_def)
  then obtain bs where "follows bs (mc_engine b) (mc_engine c)" "never_dropped k bs"
    using engine_step_follows step.hyps(2) by blast
  then show ?case using as follows_trans by (intro exI [of _ "as @ bs"]) auto
qed

subsection \<open>Properties\<close>

text \<open>
  C18. In every state the engine's goroutines can reach, however they interleave with manual triggers, agent
  reports, edits of the targets and failing statements: no target is probed twice at the same time,
  the in-flight marks are exactly those of the probes under way (none is left behind), the schedule
  has no more probes under way than the configured bound, and the tables are consistent.
\<close>

theorem probes_exclusive:
  assumes "probe_inv db" "engine_step\<^sup>*\<^sup>* (start_machine (WithNotifyFailThreshold thr (NewEngine db reg k rec))) m"
  shows "distinct (map (pt_ID \<circ> snd) (mc_probing m)) \<and>
    eng_inFlight (mc_engine m) = set (map (pt_ID \<circ> snd) (mc_probing m)) \<and>
    scheduled m \<le> (if k \<le> 0 then defaultMaxConcurrency else k) \<and> probe_inv (eng_db (mc_engine m))"
  using engine_steps_inv [OF assms(2) machine_inv_start [OF assms(1)]] by (simp add: machine_inv_def frame_def)

definition demo_engine :: Engine where
  "demo_engine = WithNotifyFailThreshold 1 (NewEngine demo_db None 1 True)"

definition demo_probing :: machine where
  "demo_probing = (start_machine demo_engine)\<lparr>mc_engine := demo_engine\<lparr>eng_inFlight := {1}\<rparr>, mc_probing := [(False, demo_target)]\<rparr>"

lemma demo_simps:
  "eng_db demo_engine = demo_db" "db_faults demo_db = []" "db_targets demo_db = [demo_target]" "pt_ID demo_target = 1"
  "target_by_id demo_db 1 = Some demo_target" "pt_Enabled demo_target = 1" "local_vantage demo_target" "eng_inFlight demo_engine = {}"
  "eng_recorder demo_engine" "db_results demo_db = []"
  by (simp_all add: demo_engine_def demo_db_def empty_probe_db_def demo_target_def target_by_id_def new_target_def create_params_def
      demo_request_def local_vantage_def ProbeVantageCenter_def NewEngine_def WithNotifyFailThreshold_def)

lemma demo_trigger: "engine_step (start_machine demo_engine) demo_probing"
proof -
  have "trigger_target 1 demo_engine = (Inr demo_target, demo_engine)"
    by (simp add: trigger_target_def not_found_def seq_def outcome_def on_db_def GetProbeTarget_def stmt_run demo_simps ret_def)
  moreover have "probe_begin demo_target demo_engine = (Inr (), demo_engine\<lparr>eng_inFlight := {1}\<rparr>)"
    by (simp add: probe_begin_def demo_simps)
  ultimately show ?thesis
    using engine_step.trigger_starts [of 1 "start_machine demo_engine" demo_target demo_engine]
    by (simp add: start_machine_def demo_probing_def)
qed

theorem probes_exclusive_witness:
  "probe_inv demo_db \<and> engine_step\<^sup>*\<^sup>* (start_machine demo_engine) demo_probing \<and>
   eng_inFlight (mc_engine demo_probing) = set (map (pt_ID \<circ> snd) (mc_probing demo_probing)) \<and> scheduled demo_probing \<le> 1"
  using probes_exclusive [OF demo_db_inv, of 1 None 1 True demo_probing] demo_trigger demo_db_inv
  by (simp add: demo_engine_def r_into_rtranclp)

text \<open>
  C19. Every tick comes to its end.  From every reachable state with a tick in progress a step is possible that
  ends the tick or brings it closer to its end, no step of any goroutine takes it further away, and
  what is left is a number that is not negative; a busy target, a full set of slots, failing
  statements and other requests included.
\<close>

theorem tick_terminates:
  assumes "probe_inv db" "engine_step\<^sup>*\<^sup>* (start_machine (WithNotifyFailThreshold thr (NewEngine db reg k rec))) m"
    "mc_listed m = Some targets"
  shows "0 \<le> tick_work m \<and> (\<exists>m'. engine_step m m' \<and> (mc_listed m' = None \<or> tick_work m' < tick_work m)) \<and>
    (\<forall>m'. engine_step m m' \<longrightarrow> mc_listed m' = None \<or> mc_listed m' = Some targets \<and> tick_work m' \<le> tick_work m)"
proof -
  have "\<exists>m'. engine_step m m' \<and> (mc_listed m' = None \<or> tick_work m' < tick_work m)"
    using tick_can_advance engine_steps_inv [OF assms(2) machine_inv_start [OF assms(1)]] assms(3) by blast
  then show ?thesis using tick_work_mono [OF _ assms(3)] by (auto simp: tick_work_def scheduled_def)
qed

theorem tick_terminates_witness:
  "\<exists>m. engine_step\<^sup>*\<^sup>* (start_machine demo_engine) m \<and> mc_listed m = Some [demo_target] \<and>
     (\<exists>m'. engine_step m m' \<and> (mc_listed m' = None \<or> tick_work m' < tick_work m))"
proof -
  obtain l e2 where plan: "tick_plan 0 [demo_target] demo_engine = (l, e2)" by fastforce
  let ?m = "(start_machine demo_engine)\<lparr>mc_engine := e2, mc_listed := Some [demo_target], mc_waiting := l\<rparr>"
  have "on_db ListEnabledProbeTargets demo_engine = (Inr [demo_target], demo_engine)"
    by (simp add: on_db_def ListEnabledProbeTargets_def stmt_run get_state_def demo_simps)
  then have "engine_step (start_machine demo_engine) ?m"
    using engine_step.tick_starts [of "start_machine demo_engine" "[demo_target]" demo_engine 0 l e2] plan by (simp add: start_machine_def)
  then have "engine_step\<^sup>*\<^sup>* (start_machine demo_engine) ?m" by blast
  then show ?thesis
    using tick_terminates [OF demo_db_inv, of 1 None 1 True ?m "[demo_target]"] by (auto simp: demo_engine_def)
qed

text \<open>
  C20. The events of a track tell its story without repetition, over every interleaving of the engine's
  goroutines in which the ticks list the target: \<^verbatim>\<open>probe_failed\<close> and \<^verbatim>\<open>probe_recovered\<close> alternate, and the
  last event is the state the detector holds the track in.
\<close>

theorem probe_events_alternate:
  assumes "(\<lambda>a b. engine_step a b \<and> lists i b)\<^sup>*\<^sup>* m m'" "eng_recorder (mc_engine m)"
  shows "let es = filter (\<lambda>ev. fst (event_track ev) = (i, v)) (drop (length (eng_events (mc_engine m))) (eng_events (mc_engine m'))) in
    distinct_adj (map (\<lambda>ev. ev_ChangeType ev = ChangeTypeProbeFailed) es) \<and>
    (es \<noteq> [] \<longrightarrow> map_option ps_failing (td_states (eng_transitions (mc_engine m')) (i, v)) = Some (ev_ChangeType (last es) = ChangeTypeProbeFailed))"
proof -
  obtain acts where acts: "follows acts (mc_engine m) (mc_engine m')" "never_dropped (i, v) acts"
    using engine_steps_follow [of "(i, v)" m m'] assms by auto
  let ?d = "eng_transitions (mc_engine m)"
  let ?new = "drop (length (eng_events (mc_engine m))) (eng_events (mc_engine m'))"
  let ?es = "filter (\<lambda>ev. fst (event_track ev) = (i, v)) ?new"
  have new: "map event_track ?new = fst (probe_run acts ?d)" "eng_transitions (mc_engine m') = snd (probe_run acts ?d)"
    using acts(1) by (auto simp: follows_def)
  have "of_key (i, v) (map event_track es) = map (\<lambda>ev. ev_ChangeType ev = ChangeTypeProbeFailed) (filter (\<lambda>ev. fst (event_track ev) = (i, v)) es)" for es
    by (induction es) (auto simp: event_track_def)
  then have keyed: "of_key (i, v) (fst (probe_run acts ?d)) = map (\<lambda>ev. ev_ChangeType ev = ChangeTypeProbeFailed) ?es"
    using new(1) by metis
  have "distinct_adj (map (\<lambda>ev. ev_ChangeType ev = ChangeTypeProbeFailed) ?es)"
    using probe_liveness.declarations_alternate [OF acts(2), of ?d] keyed by simp
  moreover have "map_option ps_failing (td_states (eng_transitions (mc_engine m')) (i, v)) = Some (ev_ChangeType (last ?es) = ChangeTypeProbeFailed)"
    if "?es \<noteq> []"
    using probe_liveness.last_declaration [OF acts(2), of ?d] keyed new(2) that by (simp add: track_down_def last_map)
  ultimately show ?thesis by (simp add: Let_def)
qed

definition demo_probed :: machine where
  "demo_probed = demo_probing\<lparr>mc_engine := snd (probe_finish offline_world 0 demo_target (mc_engine demo_probing)), mc_probing := []\<rparr>"

lemma demo_finish: "engine_step demo_probing demo_probed"
  using engine_step.probe_ends [of demo_probing "[]" False demo_target "[]" offline_world 0
      "fst (probe_finish offline_world 0 demo_target (mc_engine demo_probing))"
      "snd (probe_finish offline_world 0 demo_target (mc_engine demo_probing))"]
  by (simp add: demo_probed_def demo_probing_def)

theorem probe_events_alternate_witness:
  "map ev_ChangeType (eng_events (mc_engine demo_probed)) = [ChangeTypeProbeFailed] \<and>
   map_option ps_failing (td_states (eng_transitions (mc_engine demo_probed)) (1, ''center'')) = Some True"
proof -
  have ev: "map (\<lambda>ev. (fst (event_track ev), ev_ChangeType ev)) (eng_events (mc_engine demo_probed)) = [((1, ''center''), ChangeTypeProbeFailed)]"
    by code_simp
  have "(\<lambda>a b. engine_step a b \<and> lists 1 b)\<^sup>*\<^sup>* (start_machine demo_engine) demo_probed"
    using demo_trigger demo_finish
    by (intro rtranclp.rtrancl_into_rtrancl [OF r_into_rtranclp]) (simp_all add: lists_def demo_probing_def demo_probed_def start_machine_def)
  from probe_events_alternate [OF this, of "''center''"] show ?thesis using ev
    by (auto simp: Let_def start_machine_def demo_simps map_eq_Cons_conv) (simp_all add: demo_engine_def NewEngine_def WithNotifyFailThreshold_def)
qed

text \<open>
  C25. Deleting a target while it is being probed leaves an orphan.  From a state without orphans in which a target is
  under probe, the delete takes it away with all its results; the probe, which ends later, whatever it
  finds, inserts its result row for the target that is gone: exactly one row of the target exists
  then, on the track of the center, and no target it belongs to.  The database does not enforce the reference.
\<close>

theorem deleted_while_probed:
  assumes "mc_probing m = us @ (slot, t) # vs" "db_faults (eng_db (mc_engine m)) = []"
    and "probe_inv (eng_db (mc_engine m))" "refs_ok (eng_db (mc_engine m))" "target_by_id (eng_db (mc_engine m)) (pt_ID t) = Some u"
    and "m1 = m\<lparr>mc_engine := (mc_engine m)\<lparr>eng_db := run_op (OpDelete (pt_ID t)) (eng_db (mc_engine m))\<rparr>\<rparr>"
    and "m2 = m1\<lparr>mc_engine := snd (probe_finish w now t (mc_engine m1)), mc_probing := us @ vs\<rparr>"
  shows "engine_step m m1 \<and> engine_step m1 m2 \<and>
    refs_ok (eng_db (mc_engine m1)) \<and> pt_ID t \<notin> pr_TargetID ` set (db_results (eng_db (mc_engine m1))) \<and>
    (\<exists>r. filter (\<lambda>r. pr_TargetID r = pt_ID t) (db_results (eng_db (mc_engine m2))) = [r] \<and> pr_Vantage r = ''center'') \<and>
    pt_ID t \<notin> pt_ID ` set (db_targets (eng_db (mc_engine m2))) \<and> \<not> refs_ok (eng_db (mc_engine m2))"
proof -
  let ?i = "pt_ID t" and ?e = "mc_engine m"
  let ?db = "(eng_db ?e)\<lparr>db_targets := filter (\<lambda>t. pt_ID t \<noteq> ?i) (db_targets (eng_db ?e)),
     db_results := filter (\<lambda>r. pr_TargetID r \<noteq> ?i) (db_results (eng_db ?e)), db_certs := filter (\<lambda>c. pc_TargetID c \<noteq> ?i) (db_certs (eng_db ?e))\<rparr>"
  have del: "run_op (OpDelete ?i) (eng_db ?e) = ?db" using Delete_run [OF assms(2,5)] by (simp add: run_op_def)
  have db1: "eng_db (mc_engine m1) = ?db" using assms(6) del by simp
  have 1: "engine_step m m1" using engine_step.service_writes [of m "OpDelete ?i"] unfolding assms(6) .
  have 2: "engine_step m1 m2"
    unfolding assms(7) by (rule engine_step.probe_ends [where r = "fst (probe_finish w now t (mc_engine m1))" and slot = slot]) (simp_all add: assms(1,6))
  have inv: "targets_ok ?db" using run_op_inv [OF assms(3), of "OpDelete ?i"] unfolding del by (simp add: probe_inv_def)
  have refs1: "refs_ok (eng_db (mc_engine m1))" unfolding db1 using assms(4) by (auto simp: refs_ok_def)
  obtain r where rows: "db_results (eng_db (mc_engine m2)) = db_results ?db @ [r]" "pr_TargetID r = ?i" "pr_Vantage r = ''center''"
    and ids: "pt_ID ` set (db_targets (eng_db (mc_engine m2))) = pt_ID ` set (db_targets ?db)"
    using persist_run [of "mc_engine m1" "execute w t" t "format_rfc3339 now"] inv assms(2) execute_ok db1 unfolding assms(7)
    by (auto simp: probe_finish_def ok_outcome_def result_row_def summarised_def ProbeVantageCenter_def image_image split_beta)
  have none: "filter (\<lambda>r. pr_TargetID r = ?i) (db_results ?db) = []" by (simp add: filter_empty_conv)
  have gone: "?i \<notin> pt_ID ` set (db_targets (eng_db (mc_engine m2)))" unfolding ids by auto
  have "\<not> refs_ok (eng_db (mc_engine m2))"
  proof
    assume "refs_ok (eng_db (mc_engine m2))"
    then have "pr_TargetID r \<in> pt_ID ` set (db_targets (eng_db (mc_engine m2)))" using rows(1) by (auto simp: refs_ok_def)
    then show False using gone rows(2) by simp
  qed
  moreover have "?i \<notin> pr_TargetID ` set (db_results (eng_db (mc_engine m1)))" unfolding db1 by auto
  moreover have "filter (\<lambda>r. pr_TargetID r = ?i) (db_results (eng_db (mc_engine m2))) = [r]" unfolding rows(1) filter_append none using rows(2) by simp
  ultimately show ?thesis using 1 2 refs1 gone rows(3) by blast
qed

theorem deleted_while_probed_witness:
  "\<exists>m1 m2. engine_step demo_probing m1 \<and> engine_step m1 m2 \<and> refs_ok (eng_db (mc_engine m1)) \<and>
    length (filter (\<lambda>r. pr_TargetID r = pt_ID demo_target) (db_results (eng_db (mc_engine m2)))) = 1 \<and>
    pt_ID demo_target \<notin> pt_ID ` set (db_targets (eng_db (mc_engine m2)))"
proof -
  define m1 where "m1 = demo_probing\<lparr>mc_engine := (mc_engine demo_probing)\<lparr>eng_db := run_op (OpDelete (pt_ID demo_target)) (eng_db (mc_engine demo_probing))\<rparr>\<rparr>"
  define m2 where "m2 = m1\<lparr>mc_engine := snd (probe_finish offline_world 0 demo_target (mc_engine m1)), mc_probing := [] @ []\<rparr>"
  have "refs_ok (eng_db (mc_engine demo_probing))"
    by (simp add: refs_ok_def demo_probing_def demo_simps) (simp add: demo_db_def empty_probe_db_def)
  moreover have "mc_probing demo_probing = [] @ (False, demo_target) # []" "db_faults (eng_db (mc_engine demo_probing)) = []"
    "probe_inv (eng_db (mc_engine demo_probing))" "target_by_id (eng_db (mc_engine demo_probing)) (pt_ID demo_target) = Some demo_target"
    by (simp_all add: demo_probing_def demo_simps demo_db_inv)
  ultimately show ?thesis
    using deleted_while_probed [OF _ _ _ _ _ m1_def m2_def, of False demo_target] by (intro exI [of _ m1] exI [of _ m2]) fastforce
qed

end
