(* ===== verification/Probe_Config.thy ===== *)
theory Probe_Config
  imports Probe_Executor
begin

section \<open>Synthetic probing: configuration\<close>

text \<open>
  \<^verbatim>\<open>internal/config/probe_config.go\<close>: the block \<^verbatim>\<open>probe\<close> of the configuration, its defaults and its validation.
  A map is the list of its entries in the order in which the loop at hand visits them, which the
  language leaves open; the loose options of a target are the list of their members.
\<close>

record ProbeQualityTarget =
  qt_Name :: string
  qt_Module :: string
  qt_Target :: string
  qt_Options :: "(string \<times> jany) list"

record ProbeQualityConfig =
  qc_Enabled :: bool
  qc_WindowMinutes :: int
  qc_IntervalSeconds :: int
  qc_HTTPDegradedMs :: int
  qc_DNSDegradedMs :: int
  qc_OkRateThreshold :: rat
  qc_Groups :: "(string \<times> ProbeQualityTarget list) list"

record ProbeAutogenConfig =
  ag_Enabled :: bool
  ag_Services :: "string list"
  ag_DeviceTypes :: "string list"
  ag_IntervalSeconds :: int
  ag_MaxTargets :: int
  ag_SweepIntervalMinutes :: int

record ProbeConfig =
  cf_MaxConcurrency :: int
  cf_NotifyFailThreshold :: int
  cf_Quality :: ProbeQualityConfig
  cf_Autogen :: ProbeAutogenConfig

definition quality_target :: "string \<Rightarrow> string \<Rightarrow> string \<Rightarrow> (string \<times> jany) list \<Rightarrow> ProbeQualityTarget" where
  "quality_target n m t os = \<lparr>qt_Name = n, qt_Module = m, qt_Target = t, qt_Options = os\<rparr>"

definition DefaultQualityGroups :: "(string \<times> ProbeQualityTarget list) list" where
  "DefaultQualityGroups =
     [(''domestic'',
       [quality_target ''quality-dns-ali'' ''dns'' ''www.baidu.com'' [(''record'', AStr ''A''), (''resolver'', AStr ''223.5.5.5'')],
        quality_target ''quality-dns-dnspod'' ''dns'' ''www.baidu.com'' [(''record'', AStr ''A''), (''resolver'', AStr ''119.29.29.29'')],
        quality_target ''quality-http-baidu'' ''http'' ''https://www.baidu.com'' [],
        quality_target ''quality-http-qq'' ''http'' ''https://www.qq.com'' [],
        quality_target ''quality-http-204'' ''http'' ''http://connect.rom.miui.com/generate_204'' [(''expected_status'', AInts [204])],
        quality_target ''quality-tcp-ipdirect'' ''tcp'' ''223.5.5.5:53'' []]),
      (''international'',
       [quality_target ''quality-dns-cf'' ''dns'' ''www.cloudflare.com'' [(''record'', AStr ''A''), (''resolver'', AStr ''1.1.1.1'')],
        quality_target ''quality-http-google204'' ''http'' ''http://www.google.com/generate_204'' [(''expected_status'', AInts [204])]])]"

definition default_if :: "bool \<Rightarrow> 'a \<Rightarrow> 'a \<Rightarrow> 'a" where
  "default_if b d v = (if b then d else v)"

definition normalize_quality :: "ProbeQualityConfig \<Rightarrow> ProbeQualityConfig" where
  "normalize_quality q =
     q\<lparr>qc_WindowMinutes := default_if (qc_WindowMinutes q = 0) 15 (qc_WindowMinutes q),
       qc_IntervalSeconds := default_if (qc_IntervalSeconds q = 0) 120 (qc_IntervalSeconds q),
       qc_HTTPDegradedMs := default_if (qc_HTTPDegradedMs q = 0) 800 (qc_HTTPDegradedMs q),
       qc_DNSDegradedMs := default_if (qc_DNSDegradedMs q = 0) 300 (qc_DNSDegradedMs q),
       qc_OkRateThreshold := default_if (qc_OkRateThreshold q = 0) (9 / 10) (qc_OkRateThreshold q),
       qc_Groups := default_if (qc_Groups q = []) DefaultQualityGroups (qc_Groups q)\<rparr>"

definition normalize_autogen :: "ProbeAutogenConfig \<Rightarrow> ProbeAutogenConfig" where
  "normalize_autogen a =
     a\<lparr>ag_Services := default_if (ag_Services a = []) [''http'', ''https''] (ag_Services a),
       ag_IntervalSeconds := default_if (ag_IntervalSeconds a = 0) 300 (ag_IntervalSeconds a),
       ag_MaxTargets := default_if (ag_MaxTargets a = 0) 100 (ag_MaxTargets a),
       ag_SweepIntervalMinutes := default_if (ag_SweepIntervalMinutes a = 0) 15 (ag_SweepIntervalMinutes a)\<rparr>"

definition normalizeProbe :: "ProbeConfig \<Rightarrow> ProbeConfig" where
  "normalizeProbe p =
     (let conc = default_if (cf_MaxConcurrency p = 0) 8 (cf_MaxConcurrency p);
          thr = default_if (cf_NotifyFailThreshold p = 0) 3 (cf_NotifyFailThreshold p)
      in p\<lparr>cf_MaxConcurrency := default_if (conc < 1) 1 conc, cf_NotifyFailThreshold := default_if (thr < 1) 1 thr,
           cf_Quality := normalize_quality (cf_Quality p), cf_Autogen := normalize_autogen (cf_Autogen p)\<rparr>)"

text \<open>The two nested loops over the groups, with the names seen so far.\<close>

fun validate_group :: "string \<Rightarrow> ProbeQualityTarget list \<Rightarrow> string list \<Rightarrow> go_error + string list" where
  "validate_group grp [] seen = Inr seen"
| "validate_group grp (t # ts) seen =
     (if qt_Name t = [] \<or> qt_Module t = [] \<or> qt_Target t = []
      then Inl (Errorf (''probe.quality.groups.'' @ grp @ '': every target needs name, module and target''))
      else if qt_Name t \<in> set seen
      then Inl (Errorf (''probe.quality target name '' @ go_quote (qt_Name t) @ '' appears in more than one group''))
      else validate_group grp ts (qt_Name t # seen))"

fun validate_groups :: "(string \<times> ProbeQualityTarget list) list \<Rightarrow> string list \<Rightarrow> go_error option" where
  "validate_groups [] seen = None"
| "validate_groups ((grp, ts) # gs) seen =
     (if ts = [] then Some (Errorf (''probe.quality.groups.'' @ grp @ '' must hold at least one target''))
      else case validate_group grp ts seen of Inl err \<Rightarrow> Some err | Inr seen' \<Rightarrow> validate_groups gs seen')"

definition validate_autogen :: "ProbeAutogenConfig \<Rightarrow> go_error option" where
  "validate_autogen a =
     (if \<not> ag_Enabled a then None
      else if ag_IntervalSeconds a \<noteq> 0 \<and> ag_IntervalSeconds a < 10
      then Some (Errorf ''probe.autogen.interval_seconds must be at least 10'')
      else if ag_MaxTargets a \<noteq> 0 \<and> (ag_MaxTargets a < 1 \<or> 1000 < ag_MaxTargets a)
      then Some (Errorf ''probe.autogen.max_targets must be between 1 and 1000'')
      else None)"

definition validateProbe :: "ProbeConfig \<Rightarrow> go_error option" where
  "validateProbe p =
     (let q = cf_Quality p in
      if 64 < cf_MaxConcurrency p then Some (Errorf ''probe.max_concurrency must be at most 64'')
      else if 10 < cf_NotifyFailThreshold p then Some (Errorf ''probe.notify_fail_threshold must be at most 10'')
      else if qc_WindowMinutes q \<noteq> 0 \<and> (qc_WindowMinutes q < 5 \<or> 1440 < qc_WindowMinutes q)
      then Some (Errorf ''probe.quality.window_minutes must be between 5 and 1440'')
      else if qc_IntervalSeconds q \<noteq> 0 \<and> qc_IntervalSeconds q < 10
      then Some (Errorf ''probe.quality.interval_seconds must be at least 10'')
      else if qc_OkRateThreshold q < 0 \<or> 1 < qc_OkRateThreshold q
      then Some (Errorf ''probe.quality.ok_rate_threshold must be in (0, 1]'')
      else case validate_groups (qc_Groups q) [] of
             Some err \<Rightarrow> Some err
           | None \<Rightarrow> validate_autogen (cf_Autogen p))"

subsection \<open>What a loaded configuration satisfies\<close>

lemma validate_group_names:
  "validate_group g ts seen = Inr seen' \<Longrightarrow>
    seen' = rev (map qt_Name ts) @ seen \<and> (distinct seen \<longrightarrow> distinct seen') \<and>
    list_all (\<lambda>t. qt_Name t \<noteq> [] \<and> qt_Module t \<noteq> [] \<and> qt_Target t \<noteq> []) ts"
  by (induction g ts seen rule: validate_group.induct) (auto split: if_splits, blast)

lemma validate_groups_names:
  "validate_groups gs seen = None \<Longrightarrow> distinct seen \<Longrightarrow>
    distinct (map qt_Name (concat (map snd gs))) \<and> set (map qt_Name (concat (map snd gs))) \<inter> set seen = {} \<and>
    list_all (\<lambda>t. qt_Name t \<noteq> [] \<and> qt_Module t \<noteq> [] \<and> qt_Target t \<noteq> []) (concat (map snd gs))"
proof (induction gs seen rule: validate_groups.induct)
  case (2 grp ts gs seen)
  then obtain seen' where s: "validate_group grp ts seen = Inr seen'" "validate_groups gs seen' = None" "ts \<noteq> []"
    by (auto split: if_splits sum.splits)
  have n: "seen' = rev (map qt_Name ts) @ seen" "distinct seen'"
    "list_all (\<lambda>t. qt_Name t \<noteq> [] \<and> qt_Module t \<noteq> [] \<and> qt_Target t \<noteq> []) ts"
    using validate_group_names [OF s(1)] 2(3) by blast+
  show ?case using 2(1) [OF s(3,1,2) n(2)] n by auto
qed simp

end
