(* ===== verification/Probe_Autogen.thy ===== *)
theory Probe_Autogen
  imports Probe_Config Probe_Engine
begin

section \<open>Synthetic probing: targets for discovered services\<close>

text \<open>
  \<^verbatim>\<open>internal/service/probetarget/autogen.go\<close>.  A sweep derives targets from the services the scans found on
  the devices: it creates missing ones up to a cap, follows changes, re-enables those whose service
  is seen again and parks those whose service is gone.
\<close>

definition autogenName :: "int \<Rightarrow> string \<Rightarrow> int \<Rightarrow> string" where
  "autogenName deviceID service port = ''auto-d'' @ itoa deviceID @ ''-'' @ service @ ''-'' @ itoa port"

definition autogenPlan :: "string \<Rightarrow> string \<Rightarrow> int \<Rightarrow> string \<times> string" where
  "autogenPlan service ip port =
     (if service = ''http'' then (''http'', ''http://'' @ ip @ '':'' @ itoa port @ ''/'')
      else if service = ''https'' then (''http'', ''https://'' @ ip @ '':'' @ itoa port @ ''/'')
      else (''tcp'', ip @ '':'' @ itoa port))"

text \<open>The services of a device as the sweep decodes them: a value that does not decode skips the device.\<close>

fun set_svc :: "(string \<times> json) list \<Rightarrow> string \<times> int \<Rightarrow> (string \<times> int) option" where
  "set_svc [] sv = Some sv"
| "set_svc ((k, v) # kvs) sv =
     (case field_of [''name'', ''port''] k of
        None \<Rightarrow> set_svc kvs sv
      | Some n \<Rightarrow>
          if n = ''name'' then (case dec_str v (fst sv) of None \<Rightarrow> None | Some s \<Rightarrow> set_svc kvs (s, snd sv))
          else (case dec_int v (snd sv) of None \<Rightarrow> None | Some i \<Rightarrow> set_svc kvs (fst sv, i)))"

definition dec_svc :: "json \<Rightarrow> (string \<times> int) option" where
  "dec_svc v = (case v of JObj kvs \<Rightarrow> set_svc kvs ([], 0) | JNull \<Rightarrow> Some ([], 0) | _ \<Rightarrow> None)"

definition detected :: "string \<Rightarrow> (string \<times> int) list option" where
  "detected s = (case json_parse s of Some v \<Rightarrow> dec_slice dec_svc v | None \<Rightarrow> None)"

text \<open>The state of a sweep: the database, the counters it returns, the size of the population, the names it wants.\<close>

record sweeping =
  ag_db :: probe_db
  ag_created :: int
  ag_enabled :: int
  ag_disabled :: int
  ag_autoCount :: int
  ag_desired :: "string set"

type_synonym 'a aprog = "(sweeping, 'a) prog"

definition ag_on_db :: "string \<Rightarrow> 'a pprog \<Rightarrow> 'a aprog" where
  "ag_on_db what m s =
     (case m (ag_db s) of (r, db) \<Rightarrow> (case r of Inl err \<Rightarrow> Inl (Wrapped what err) | Inr x \<Rightarrow> Inr x, s\<lparr>ag_db := db\<rparr>))"

definition park :: "ProbeTarget \<Rightarrow> unit aprog" where
  "park t =
     seq (ag_on_db (''autogen: park '' @ pt_Name t) (ToggleProbeTargetEnabled 0 (pt_ID t))) (\<lambda>_.
     set_state (\<lambda>s. s\<lparr>ag_disabled := ag_disabled s + 1\<rparr>))"

definition vantageFor :: "Network list \<Rightarrow> int option \<Rightarrow> string" where
  "vantageFor nets networkID =
     (case networkID of
        None \<Rightarrow> ProbeVantageCenter
      | Some n \<Rightarrow>
          (case map_of (rev (map (\<lambda>w. (net_ID w, trim_space (the (net_AgentID w))))
                  (filter (\<lambda>w. net_AgentID w \<noteq> None \<and> trim_space (the (net_AgentID w)) \<noteq> []) nets))) n of
             Some agent \<Rightarrow> ProbeVantageAgentPrefix @ agent
           | None \<Rightarrow> ProbeVantageCenter))"

text \<open>An existing target of a service that is still there.\<close>

definition follow :: "ProbeTarget \<Rightarrow> string \<Rightarrow> string \<times> string \<Rightarrow> string \<Rightarrow> int \<Rightarrow> unit aprog" where
  "follow prev targetName plan vantage deviceID =
     seq (if pt_Module prev \<noteq> fst plan \<or> pt_Target prev \<noteq> snd plan then
            seq (ag_on_db (''autogen: update '' @ targetName)
              (UpdateProbeTarget \<lparr>ut_Name = pt_Name prev, ut_Module = fst plan, ut_Target = snd plan,
                ut_IntervalSeconds = pt_IntervalSeconds prev, ut_TimeoutSeconds = pt_TimeoutSeconds prev,
                ut_Enabled = pt_Enabled prev, ut_Notes = pt_Notes prev, ut_Vantage = vantage,
                ut_Options = pt_Options prev, ut_DeviceID = Some deviceID, ut_ID = pt_ID prev\<rparr>)) (\<lambda>_. ret ())
          else ret ()) (\<lambda>_.
     if pt_Enabled prev = 0 then
       seq (ag_on_db (''autogen: re-enable '' @ targetName) (ToggleProbeTargetEnabled 1 (pt_ID prev))) (\<lambda>_.
       set_state (\<lambda>s. s\<lparr>ag_enabled := ag_enabled s + 1\<rparr>))
     else ret ())"

definition generate :: "ProbeAutogenConfig \<Rightarrow> string \<Rightarrow> string \<times> string \<Rightarrow> string \<Rightarrow> int \<Rightarrow> unit aprog" where
  "generate cfg targetName plan vantage deviceID =
     seq (ag_on_db (''autogen: create '' @ targetName)
       (CreateProbeTarget \<lparr>cp_Name = targetName, cp_Module = fst plan, cp_Target = snd plan,
         cp_IntervalSeconds = ag_IntervalSeconds cfg, cp_TimeoutSeconds = 10, cp_Enabled = 1,
         cp_Notes = ''auto-generated from a discovered service (#606)'', cp_Vantage = vantage, cp_Options = [],
         cp_DeviceID = Some deviceID, cp_Source = ProbeSourceAuto\<rparr>)) (\<lambda>_.
     set_state (\<lambda>s. s\<lparr>ag_autoCount := ag_autoCount s + 1, ag_created := ag_created s + 1\<rparr>))"

text \<open>The loop over the services of one device; reaching the cap leaves it.\<close>

fun sweep_services ::
    "ProbeAutogenConfig \<Rightarrow> (string \<rightharpoonup> ProbeTarget) \<Rightarrow> string \<Rightarrow> Device \<Rightarrow> (string \<times> int) list \<Rightarrow> unit aprog" where
  "sweep_services cfg autoByName vantage d [] = ret ()"
| "sweep_services cfg autoByName vantage d ((svcName, port) # svcs) =
     (let name = to_lower svcName; targetName = autogenName (dev_ID d) name port;
          plan = autogenPlan name (dev_IpAddress d) port; rest = sweep_services cfg autoByName vantage d svcs
      in if ag_Services cfg \<noteq> [] \<and> name \<notin> set (map (\<lambda>s. to_lower (trim_space s)) (ag_Services cfg)) then rest
         else if port \<le> 0 then rest
         else
           seq (set_state (\<lambda>s. s\<lparr>ag_desired := insert targetName (ag_desired s)\<rparr>)) (\<lambda>_.
           case autoByName targetName of
             Some prev \<Rightarrow> seq (follow prev targetName plan vantage (dev_ID d)) (\<lambda>_. rest)
           | None \<Rightarrow>
               seq (get_state ag_autoCount) (\<lambda>n.
                 if ag_MaxTargets cfg \<le> n then ret ()
                 else seq (generate cfg targetName plan vantage (dev_ID d)) (\<lambda>_. rest))))"

definition sweep_device :: "ProbeAutogenConfig \<Rightarrow> (string \<rightharpoonup> ProbeTarget) \<Rightarrow> Network list \<Rightarrow> Device \<Rightarrow> unit aprog" where
  "sweep_device cfg autoByName nets d =
     (if ag_DeviceTypes cfg \<noteq> [] \<and> dev_Type d \<notin> set (ag_DeviceTypes cfg) then ret ()
      else if dev_IpAddress d = [] then ret ()
      else case detected (dev_DetectedServices d) of
             None \<Rightarrow> ret ()
           | Some svcs \<Rightarrow> sweep_services cfg autoByName (vantageFor nets (dev_NetworkID d)) d svcs)"

definition park_undesired :: "ProbeTarget \<Rightarrow> unit aprog" where
  "park_undesired t =
     seq (get_state ag_desired) (\<lambda>desired.
       if pt_Name t \<in> desired \<or> pt_Enabled t = 0 then ret () else park t)"

text \<open>
  One sweep.  The loops over the map of auto targets visit them in an order the language leaves open;
  \<open>order\<close> is that order.
\<close>

definition sweep_run :: "ProbeAutogenConfig \<Rightarrow> (ProbeTarget list \<Rightarrow> ProbeTarget list) \<Rightarrow> unit aprog" where
  "sweep_run cfg order =
     seq (ag_on_db ''autogen: list targets'' ListProbeTargets) (\<lambda>existing.
       let autos = filter (\<lambda>t. pt_Source t = ProbeSourceAuto) existing;
           autoByName = map_of (rev (map (\<lambda>t. (pt_Name t, t)) autos))
       in seq (set_state (\<lambda>s. s\<lparr>ag_autoCount := int (length autos)\<rparr>)) (\<lambda>_.
          if \<not> ag_Enabled cfg then
            seq (for_each (\<lambda>t. if pt_Enabled t = 1 then park t else ret ()) (order autos)) (\<lambda>_. ret ())
          else
            seq (ag_on_db ''autogen: list devices'' ListDevicesForProbeAutogen) (\<lambda>devices.
            seq (ag_on_db ''autogen: list networks'' ListNetworks) (\<lambda>nets.
            seq (for_each (sweep_device cfg autoByName nets) devices) (\<lambda>_.
            seq (for_each park_undesired (order autos)) (\<lambda>_. ret ()))))))"

definition autogen_sweep ::
    "ProbeAutogenConfig \<Rightarrow> (ProbeTarget list \<Rightarrow> ProbeTarget list) \<Rightarrow> probe_db \<Rightarrow> (int \<times> int \<times> int \<times> go_error option) \<times> probe_db" where
  "autogen_sweep cfg order db =
     (case sweep_run cfg order \<lparr>ag_db = db, ag_created = 0, ag_enabled = 0, ag_disabled = 0, ag_autoCount = 0, ag_desired = {}\<rparr> of
        (r, s) \<Rightarrow> ((ag_created s, ag_enabled s, ag_disabled s, case r of Inl err \<Rightarrow> Some err | Inr _ \<Rightarrow> None), ag_db s))"

subsection \<open>Names are unique by construction\<close>

lemma itoa_digits: "0 \<le> i \<Longrightarrow> CHR ''-'' \<notin> set (itoa i)"
  using string_of_nat_digits [of "CHR ''-''" "nat i"] by (auto simp: itoa_def is_digit_def)

lemma itoa_inj: "0 \<le> i \<Longrightarrow> 0 \<le> j \<Longrightarrow> itoa i = itoa j \<Longrightarrow> i = j"
  unfolding itoa_def by (metis digits_val_nat eq_nat_nat_iff not_less option.inject)

lemma split_first: "c \<notin> set xs \<Longrightarrow> c \<notin> set ys \<Longrightarrow> xs @ c # us = ys @ c # vs \<Longrightarrow> xs = ys \<and> us = vs"
  by (induction xs arbitrary: ys) (case_tac ys; auto)+

lemma split_last:
  assumes "c \<notin> set us" "c \<notin> set vs" "xs @ c # us = ys @ c # vs"
  shows "xs = ys \<and> us = vs"
proof -
  have "rev us @ c # rev xs = rev vs @ c # rev ys" using arg_cong [OF assms(3), of rev] by simp
  then have "rev us = rev vs \<and> rev xs = rev ys" by (rule split_first [rotated 2]) (use assms(1,2) in simp_all)
  then show ?thesis by simp
qed

lemma autogenName_inj:
  assumes "0 \<le> d" "0 \<le> d'" "0 \<le> p" "0 \<le> p'" "autogenName d s p = autogenName d' s' p'"
  shows "d = d' \<and> s = s' \<and> p = p'"
proof -
  have "itoa d @ CHR ''-'' # (s @ ''-'' @ itoa p) = itoa d' @ CHR ''-'' # (s' @ ''-'' @ itoa p')"
    using assms(5) by (simp add: autogenName_def)
  then have d: "itoa d = itoa d'" "s @ CHR ''-'' # itoa p = s' @ CHR ''-'' # itoa p'"
    using split_first [OF itoa_digits [OF assms(1)] itoa_digits [OF assms(2)]] by auto
  then show ?thesis
    using split_last [OF itoa_digits [OF assms(3)] itoa_digits [OF assms(4)] d(2)] itoa_inj assms(1-4) by blast
qed

subsection \<open>What the statements of a sweep do\<close>

definition rewritten :: "(ProbeTarget \<Rightarrow> ProbeTarget) \<Rightarrow> int \<Rightarrow> probe_db \<Rightarrow> probe_db \<Rightarrow> bool" where
  "rewritten f i db db' \<longleftrightarrow> (\<exists>fs. db' = db\<lparr>db_faults := fs, db_targets := map (\<lambda>u. if pt_ID u = i then f u else u) (db_targets db)\<rparr>)"

lemma target_by_id_faults [simp]: "target_by_id (db\<lparr>db_faults := fs\<rparr>) = target_by_id db"
  by (simp add: target_by_id_def fun_eq_iff)

lemma put_target_effect:
  assumes "targets_ok db" "target_by_id db i = Some t" "pt_ID (f t) = i" "put_target (f t) db = (r, db')"
  shows "r = Inl ErrConstraint \<and> db' = db \<or>
    r = Inr (f t) \<and> db' = db\<lparr>db_targets := map (\<lambda>u. if pt_ID u = i then f u else u) (db_targets db)\<rparr>"
proof -
  have "u = t" if "u \<in> set (db_targets db)" "pt_ID u = i" for u
    using that target_by_id_SomeD [OF assms(2)] assms(1) by (auto simp: targets_ok_def distinct_map inj_on_def)
  then have eq: "map (\<lambda>u. if pt_ID u = pt_ID (f t) then f t else u) (db_targets db) = map (\<lambda>u. if pt_ID u = i then f u else u) (db_targets db)"
    using assms(3) by auto
  show ?thesis using assms(4) unfolding put_target_def eq by (auto split: if_splits)
qed

text \<open>Toggling never violates a constraint.\<close>

lemma put_target_toggle:
  assumes "targets_ok db" "target_by_id db i = Some t"
  shows "put_target (t\<lparr>pt_Enabled := e, pt_UpdatedAt := c\<rparr>) db =
    (Inr (t\<lparr>pt_Enabled := e, pt_UpdatedAt := c\<rparr>), db\<lparr>db_targets := map (\<lambda>u. if pt_ID u = i then u\<lparr>pt_Enabled := e, pt_UpdatedAt := c\<rparr> else u) (db_targets db)\<rparr>)"
proof -
  have t: "t \<in> set (db_targets db)" "pt_ID t = i" using target_by_id_SomeD [OF assms(2)] by auto
  have "target_check (t\<lparr>pt_Enabled := e, pt_UpdatedAt := c\<rparr>)" using t assms(1) by (auto simp: targets_ok_def list_all_iff target_check_def)
  moreover have "\<not> list_ex (\<lambda>u. pt_Name u = pt_Name t \<and> pt_ID u \<noteq> pt_ID t) (db_targets db)"
    using t assms(1) by (auto simp: list_ex_iff targets_ok_def distinct_map inj_on_def)
  ultimately have "put_target (t\<lparr>pt_Enabled := e, pt_UpdatedAt := c\<rparr>) db \<noteq> (Inl ErrConstraint, db)"
    by (simp add: put_target_def)
  then show ?thesis
    using put_target_effect [OF assms, of "\<lambda>t. t\<lparr>pt_Enabled := e, pt_UpdatedAt := c\<rparr>"] t(2)
    by (cases "put_target (t\<lparr>pt_Enabled := e, pt_UpdatedAt := c\<rparr>) db") auto
qed

lemma Toggle_effect:
  assumes "targets_ok db" "ToggleProbeTargetEnabled e i db = (r, db')"
  shows "r = Inl ErrDatabase \<and> quiet db db' \<or>
    r = Inr () \<and> rewritten (\<lambda>u. u\<lparr>pt_Enabled := e, pt_UpdatedAt := db_clock db\<rparr>) i db db'"
proof -
  have run: "r = Inr () \<and> db2 = db1\<lparr>db_targets := map (\<lambda>u. if pt_ID u = i then u\<lparr>pt_Enabled := e, pt_UpdatedAt := db_clock db1\<rparr> else u) (db_targets db1)\<rparr>"
    if "targets_ok db1" and eq: "(case target_by_id db1 i of None \<Rightarrow> (Inr (), db1)
        | Some t \<Rightarrow> seq (put_target (t\<lparr>pt_Enabled := e, pt_UpdatedAt := db_clock db1\<rparr>)) (\<lambda>_. ret ()) db1) = (r, db2)" for db1 db2 r
  proof (cases "target_by_id db1 i")
    case None
    then have "map (\<lambda>u. if pt_ID u = i then u\<lparr>pt_Enabled := e, pt_UpdatedAt := db_clock db1\<rparr> else u) (db_targets db1) = db_targets db1"
      by (auto simp: target_by_id_def find_None_iff intro!: map_idI)
    then show ?thesis using eq None by auto
  next
    case (Some t)
    then show ?thesis using eq put_target_toggle [OF that(1) Some, where e = e and c = "db_clock db1"] by (auto simp: seq_def ret_def)
  qed
  have ok: "targets_ok (db\<lparr>db_faults := fs\<rparr>)" for fs using assms(1) by (simp add: targets_ok_def)
  consider "r = Inl ErrDatabase" "quiet db db'"
    | fs where "(case target_by_id (db\<lparr>db_faults := fs\<rparr>) i of None \<Rightarrow> (Inr (), db\<lparr>db_faults := fs\<rparr>)
        | Some t \<Rightarrow> seq (put_target (t\<lparr>pt_Enabled := e, pt_UpdatedAt := db_clock (db\<lparr>db_faults := fs\<rparr>)\<rparr>)) (\<lambda>_. ret ()) (db\<lparr>db_faults := fs\<rparr>)) = (r, db')"
    using stmt_effect [OF assms(2) [unfolded ToggleProbeTargetEnabled_def]] by auto
  then show ?thesis
  proof cases
    case 2
    from run [OF ok this] show ?thesis by (auto simp: rewritten_def cong: if_cong)
  qed simp
qed

definition updated :: "UpdateProbeTargetParams \<Rightarrow> gotime \<Rightarrow> ProbeTarget \<Rightarrow> ProbeTarget" where
  "updated arg c t =
     t\<lparr>pt_Name := ut_Name arg, pt_Module := ut_Module arg, pt_Target := ut_Target arg,
       pt_IntervalSeconds := ut_IntervalSeconds arg, pt_TimeoutSeconds := ut_TimeoutSeconds arg,
       pt_Enabled := ut_Enabled arg, pt_Notes := ut_Notes arg, pt_Vantage := ut_Vantage arg,
       pt_Options := ut_Options arg, pt_DeviceID := ut_DeviceID arg, pt_UpdatedAt := c\<rparr>"

lemma Update_effect:
  assumes "targets_ok db" "UpdateProbeTarget arg db = (r, db')"
  shows "(\<exists>e. r = Inl e) \<and> quiet db db' \<or> (\<exists>t. r = Inr t) \<and> rewritten (updated arg (db_clock db)) (ut_ID arg) db db'"
proof -
  let ?m = "\<lambda>db. case target_by_id db (ut_ID arg) of None \<Rightarrow> (Inl ErrNoRows, db) | Some t \<Rightarrow> put_target (updated arg (db_clock db) t) db"
  have m: "UpdateProbeTarget arg = stmt ?m" unfolding UpdateProbeTarget_def updated_def ..
  have run: "(\<exists>e. r = Inl e) \<and> db2 = db1 \<or>
     (\<exists>t. r = Inr t) \<and> db2 = db1\<lparr>db_targets := map (\<lambda>u. if pt_ID u = ut_ID arg then updated arg (db_clock db1) u else u) (db_targets db1)\<rparr>"
    if "targets_ok db1" "?m db1 = (r, db2)" for db1 db2
  proof (cases "target_by_id db1 (ut_ID arg)")
    case None
    then show ?thesis using that(2) by auto
  next
    case (Some t)
    have "pt_ID (updated arg (db_clock db1) t) = ut_ID arg" using target_by_id_SomeD [OF Some] by (simp add: updated_def)
    then show ?thesis using put_target_effect [OF that(1) Some, of "updated arg (db_clock db1)"] that(2) Some by auto
  qed
  have ok: "targets_ok (db\<lparr>db_faults := fs\<rparr>)" for fs using assms(1) by (simp add: targets_ok_def)
  consider "r = Inl ErrDatabase" "quiet db db'" | fs where "?m (db\<lparr>db_faults := fs\<rparr>) = (r, db')"
    using stmt_effect [OF assms(2) [unfolded m]] by auto
  then show ?thesis
  proof cases
    case 2
    from run [OF ok this] show ?thesis by (auto simp: rewritten_def cong: if_cong)
  qed simp
qed

lemma Create_effect:
  assumes "CreateProbeTarget arg db = (r, db')"
  shows "(\<exists>e. r = Inl e) \<and> quiet db db' \<or>
    (\<exists>fs t. r = Inr t \<and> t = new_target db arg \<and> db' = db\<lparr>db_faults := fs, db_targets := db_targets db @ [t], db_target_seq := pt_ID t\<rparr>)"
proof -
  have new: "new_target (db\<lparr>db_faults := fs\<rparr>) arg = new_target db arg" for fs by (simp add: new_target_def)
  show ?thesis using stmt_effect [OF assms [unfolded CreateProbeTarget_def]] by (auto simp: Let_def new split: if_splits)
qed

subsection \<open>Other targets are left alone\<close>

definition idents :: "probe_db \<Rightarrow> (int \<times> string \<times> string) list" where
  "idents db = map (\<lambda>t. (pt_ID t, pt_Name t, pt_Source t)) (db_targets db)"

definition is_auto :: "ProbeTarget \<Rightarrow> bool" where
  "is_auto t \<longleftrightarrow> pt_Source t = ProbeSourceAuto"

text \<open>What a sweep that started in one database may have made of it.\<close>

definition auto_inv :: "probe_db \<Rightarrow> nat \<Rightarrow> probe_db \<Rightarrow> bool" where
  "auto_inv db0 n db \<longleftrightarrow> probe_inv db \<and>
     (\<exists>news. idents db = idents db0 @ news \<and> length news = n \<and> list_all (\<lambda>x. snd (snd x) = ProbeSourceAuto) news) \<and>
     filter (\<lambda>t. \<not> is_auto t) (db_targets db) = filter (\<lambda>t. \<not> is_auto t) (db_targets db0) \<and>
     db_results db = db_results db0 \<and> db_certs db = db_certs db0 \<and> db_devices db = db_devices db0 \<and> db_networks db = db_networks db0"

lemma auto_inv_start: "probe_inv db \<Longrightarrow> auto_inv db 0 db"
  by (simp add: auto_inv_def)

lemma auto_inv_quiet: "auto_inv db0 n db \<Longrightarrow> quiet db db' \<Longrightarrow> auto_inv db0 n db'"
  by (auto simp: auto_inv_def quiet_def idents_def probe_ok_defs)

lemma auto_row:
  assumes "auto_inv db0 n db" "prev \<in> set (db_targets db0)" "u \<in> set (db_targets db)" "pt_ID u = pt_ID prev"
  shows "pt_Name u = pt_Name prev" "pt_Source u = pt_Source prev"
proof -
  have "set (idents db0) \<subseteq> set (idents db)" using assms(1) by (auto simp: auto_inv_def)
  then have "(pt_ID prev, pt_Name prev, pt_Source prev) \<in> set (idents db)"
    using assms(2) unfolding idents_def by auto
  then obtain v where v: "v \<in> set (db_targets db)" "pt_ID v = pt_ID prev" "pt_Name v = pt_Name prev" "pt_Source v = pt_Source prev"
    by (auto simp: idents_def)
  moreover have "u = v" using v assms(1,3,4) by (auto simp: auto_inv_def probe_inv_def targets_ok_def distinct_map inj_on_def)
  ultimately show "pt_Name u = pt_Name prev" "pt_Source u = pt_Source prev" by simp_all
qed

lemma auto_inv_rewritten:
  assumes "auto_inv db0 n db" "prev \<in> set (db_targets db0)" "is_auto prev" "rewritten f (pt_ID prev) db db'" "probe_inv db'"
    "\<And>u. pt_ID (f u) = pt_ID u \<and> pt_Source (f u) = pt_Source u"
    "\<And>u. u \<in> set (db_targets db) \<Longrightarrow> pt_ID u = pt_ID prev \<Longrightarrow> pt_Name (f u) = pt_Name u"
  shows "auto_inv db0 n db'"
proof -
  let ?g = "\<lambda>u. if pt_ID u = pt_ID prev then f u else u"
  obtain fs where db': "db' = db\<lparr>db_faults := fs, db_targets := map ?g (db_targets db)\<rparr>" using assms(4) by (auto simp: rewritten_def)
  have ids: "idents db' = idents db" using assms(6,7) by (simp add: db' idents_def)
  have keep: "filter (\<lambda>t. \<not> is_auto t) (map ?g ts) = filter (\<lambda>t. \<not> is_auto t) ts" if "set ts \<subseteq> set (db_targets db)" for ts
    using that
  proof (induction ts)
    case (Cons u ts)
    have "is_auto u \<and> is_auto (f u)" if "pt_ID u = pt_ID prev"
      using auto_row(2) [OF assms(1,2) _ that] Cons.prems assms(3,6) by (simp add: is_auto_def)
    then show ?case using Cons by auto
  qed simp
  show ?thesis using assms(1,5) ids keep [of "db_targets db"] by (simp add: auto_inv_def db')
qed

lemma auto_inv_new:
  assumes "auto_inv db0 n db" "db' = db\<lparr>db_faults := fs, db_targets := db_targets db @ [t], db_target_seq := i\<rparr>" "is_auto t" "probe_inv db'"
  shows "auto_inv db0 (Suc n) db'"
proof -
  obtain news where "idents db = idents db0 @ news" "length news = n" "list_all (\<lambda>x. snd (snd x) = ProbeSourceAuto) news"
    using assms(1) by (auto simp: auto_inv_def)
  then have "idents db' = idents db0 @ (news @ [(pt_ID t, pt_Name t, pt_Source t)])"
    "length (news @ [(pt_ID t, pt_Name t, pt_Source t)]) = Suc n"
    "list_all (\<lambda>x. snd (snd x) = ProbeSourceAuto) (news @ [(pt_ID t, pt_Name t, pt_Source t)])"
    using assms(2,3) by (simp_all add: idents_def is_auto_def)
  then have "\<exists>news. idents db' = idents db0 @ news \<and> length news = Suc n \<and> list_all (\<lambda>x. snd (snd x) = ProbeSourceAuto) news" by blast
  moreover have "filter (\<lambda>t. \<not> is_auto t) (db_targets db') = filter (\<lambda>t. \<not> is_auto t) (db_targets db)" using assms(2,3) by simp
  ultimately show ?thesis using assms(1,4) by (simp add: auto_inv_def) (simp add: assms(2))
qed

text \<open>The programs of a sweep keep it.\<close>

lemma keeps_ag_on_db [keeps_intros]: "keeps P m \<Longrightarrow> keeps (\<lambda>s. P (ag_db s)) (ag_on_db w m)"
  by (auto simp: keeps_def ag_on_db_def split: prod.splits)

lemma keeps_ag_count [keeps_intros]:
  "keeps (\<lambda>s. P (ag_db s)) (set_state (\<lambda>s. s\<lparr>ag_disabled := f s\<rparr>))" "keeps (\<lambda>s. P (ag_db s)) (set_state (\<lambda>s. s\<lparr>ag_enabled := f s\<rparr>))"
  "keeps (\<lambda>s. P (ag_db s)) (set_state (\<lambda>s. s\<lparr>ag_autoCount := f s, ag_created := g s\<rparr>))" "keeps (\<lambda>s. P (ag_db s)) (set_state (\<lambda>s. s\<lparr>ag_autoCount := f s\<rparr>))"
  "keeps (\<lambda>s. P (ag_db s)) (set_state (\<lambda>s. s\<lparr>ag_desired := h s\<rparr>))"
  by (simp_all add: keeps_def set_state_def)

lemma auto_fault_free: "fault_free (auto_inv db0 n)"
  unfolding fault_free_def by (blast intro: auto_inv_quiet quiet_faults)

lemmas auto_reads [keeps_intros] = keeps_reads [OF auto_fault_free]

lemma auto_toggle: "t \<in> set (db_targets db0) \<Longrightarrow> is_auto t \<Longrightarrow> keeps (auto_inv db0 n) (ToggleProbeTargetEnabled e (pt_ID t))"
  unfolding keeps_def
proof (intro allI impI)
  fix db assume t: "t \<in> set (db_targets db0)" "is_auto t" and inv: "auto_inv db0 n db"
  obtain r db' where run: "ToggleProbeTargetEnabled e (pt_ID t) db = (r, db')" by fastforce
  have "probe_inv db'" using keepsD [OF keeps_updates(2), of db] inv run by (simp add: auto_inv_def) (metis snd_conv)
  then show "auto_inv db0 n (snd (ToggleProbeTargetEnabled e (pt_ID t) db))"
    using Toggle_effect [OF _ run] inv auto_inv_quiet [OF inv] auto_inv_rewritten [OF inv t] run
    by (fastforce simp: auto_inv_def probe_inv_def)
qed

lemma auto_update:
  "t \<in> set (db_targets db0) \<Longrightarrow> is_auto t \<Longrightarrow> ut_ID arg = pt_ID t \<Longrightarrow> ut_Name arg = pt_Name t \<Longrightarrow> keeps (auto_inv db0 n) (UpdateProbeTarget arg)"
  unfolding keeps_def
proof (intro allI impI)
  fix db assume t: "t \<in> set (db_targets db0)" "is_auto t" "ut_ID arg = pt_ID t" "ut_Name arg = pt_Name t" and inv: "auto_inv db0 n db"
  obtain r db' where run: "UpdateProbeTarget arg db = (r, db')" by fastforce
  have inv': "probe_inv db'" using keepsD [OF keeps_updates(1), of db] inv run by (simp add: auto_inv_def) (metis snd_conv)
  have "auto_inv db0 n db'" if "rewritten (updated arg (db_clock db)) (pt_ID t) db db'"
    by (rule auto_inv_rewritten [OF inv t(1,2) that inv']) (use auto_row(1) [OF inv t(1)] t(4) in \<open>auto simp: updated_def\<close>)
  then show "auto_inv db0 n (snd (UpdateProbeTarget arg db))"
    using Update_effect [OF _ run] inv auto_inv_quiet [OF inv] t(3) run by (auto simp: auto_inv_def probe_inv_def)
qed

lemma auto_create:
  assumes "cp_Source arg = ProbeSourceAuto"
  shows "hoare (auto_inv db0 n) (CreateProbeTarget arg) (\<lambda>r. auto_inv db0 (case r of Inl _ \<Rightarrow> n | Inr _ \<Rightarrow> Suc n))"
  unfolding hoare_def
proof (intro allI impI)
  fix db assume inv: "auto_inv db0 n db"
  obtain r db' where run: "CreateProbeTarget arg db = (r, db')" by fastforce
  have "probe_inv db'" using keepsD [OF keeps_CreateProbeTarget, of db arg] inv run by (simp add: auto_inv_def)
  moreover have "is_auto (new_target db arg)" using assms by (simp add: is_auto_def new_target_def)
  ultimately show "auto_inv db0 (case fst (CreateProbeTarget arg db) of Inl _ \<Rightarrow> n | Inr _ \<Rightarrow> Suc n) (snd (CreateProbeTarget arg db))"
    using Create_effect [OF run] auto_inv_quiet [OF inv] auto_inv_new [OF inv] run by auto
qed

subsection \<open>A sweep keeps its bounds\<close>

definition sweep_ok :: "ProbeAutogenConfig \<Rightarrow> probe_db \<Rightarrow> bool \<Rightarrow> sweeping \<Rightarrow> bool" where
  "sweep_ok cfg db0 full s \<longleftrightarrow>
     (let n0 = int (length (filter is_auto (db_targets db0))) in
      auto_inv db0 (nat (ag_created s)) (ag_db s) \<and> 0 \<le> ag_created s \<and> ag_autoCount s = n0 + ag_created s \<and>
      ag_autoCount s \<le> max n0 (ag_MaxTargets cfg) \<and> (full \<longrightarrow> ag_MaxTargets cfg \<le> ag_autoCount s))"

lemma sweep_ok_db:
  assumes "\<And>n. keeps (auto_inv db0 n) m"
  shows "keeps (sweep_ok cfg db0 full) (ag_on_db w m)"
  unfolding keeps_def
proof (intro allI impI)
  fix s assume "sweep_ok cfg db0 full s"
  then show "sweep_ok cfg db0 full (snd (ag_on_db w m s))"
    using keepsD [OF assms, of "nat (ag_created s)" "ag_db s"] by (auto simp: sweep_ok_def ag_on_db_def Let_def split: prod.splits)
qed

lemma sweep_ok_state [keeps_intros]:
  "keeps (sweep_ok cfg db0 full) (set_state (\<lambda>s. s\<lparr>ag_disabled := f s\<rparr>))" "keeps (sweep_ok cfg db0 full) (set_state (\<lambda>s. s\<lparr>ag_enabled := f s\<rparr>))"
  "keeps (sweep_ok cfg db0 full) (set_state (\<lambda>s. s\<lparr>ag_desired := h s\<rparr>))"
  by (auto simp: keeps_def set_state_def sweep_ok_def Let_def)

lemma sweep_ok_park:
  "t \<in> set (db_targets db0) \<Longrightarrow> is_auto t \<Longrightarrow> keeps (sweep_ok cfg db0 full) (park t)"
  unfolding park_def by (intro keeps_intros sweep_ok_db auto_toggle)

lemma sweep_ok_follow:
  "prev \<in> set (db_targets db0) \<Longrightarrow> is_auto prev \<Longrightarrow> keeps (sweep_ok cfg db0 full) (follow prev nm plan v d)"
  unfolding follow_def by (intro keeps_intros sweep_ok_db auto_toggle auto_update) simp_all

lemma sweep_ok_generate:
  "hoare (\<lambda>s. sweep_ok cfg db0 full s \<and> ag_autoCount s < ag_MaxTargets cfg) (generate cfg nm plan v d) (\<lambda>r. sweep_ok cfg db0 full)"
  unfolding hoare_def
proof (intro allI impI)
  fix s assume s: "sweep_ok cfg db0 full s \<and> ag_autoCount s < ag_MaxTargets cfg"
  let ?arg = "\<lparr>cp_Name = nm, cp_Module = fst plan, cp_Target = snd plan, cp_IntervalSeconds = ag_IntervalSeconds cfg, cp_TimeoutSeconds = 10,
      cp_Enabled = 1, cp_Notes = ''auto-generated from a discovered service (#606)'', cp_Vantage = v, cp_Options = [],
      cp_DeviceID = Some d, cp_Source = ProbeSourceAuto\<rparr>"
  obtain r db' where run: "CreateProbeTarget ?arg (ag_db s) = (r, db')" by fastforce
  have "auto_inv db0 (case r of Inl _ \<Rightarrow> nat (ag_created s) | Inr _ \<Rightarrow> Suc (nat (ag_created s))) db'"
    using hoareD [OF auto_create [of ?arg db0 "nat (ag_created s)"], of "ag_db s"] s run by (simp add: sweep_ok_def Let_def)
  then show "sweep_ok cfg db0 full (snd (generate cfg nm plan v d s))"
    using s run by (cases r) (auto simp: generate_def seq_def ag_on_db_def set_state_def sweep_ok_def Let_def nat_add_distrib)
qed

lemma sweep_ok_services:
  assumes "\<And>nm prev. autos nm = Some prev \<Longrightarrow> prev \<in> set (db_targets db0) \<and> is_auto prev"
  shows "keeps (sweep_ok cfg db0 full) (sweep_services cfg autos v d svcs)"
proof (induction svcs)
  case Nil
  show ?case by (simp add: keeps_intros)
next
  case (Cons svc svcs)
  obtain sn port where svc: "svc = (sn, port)" by fastforce
  let ?nm = "autogenName (dev_ID d) (to_lower sn) port" and ?plan = "autogenPlan (to_lower sn) (dev_IpAddress d) port"
  have gen: "keeps (sweep_ok cfg db0 full) (seq (get_state ag_autoCount) (\<lambda>n. if ag_MaxTargets cfg \<le> n then ret ()
      else seq (generate cfg ?nm ?plan v (dev_ID d)) (\<lambda>_. sweep_services cfg autos v d svcs)))"
  proof (rule keeps_hoare, rule hoare_seq [where R = "\<lambda>n s. sweep_ok cfg db0 full s \<and> ag_autoCount s = n"])
    show "hoare (\<lambda>s. sweep_ok cfg db0 full s \<and> ag_autoCount s = n) (if ag_MaxTargets cfg \<le> n then ret ()
      else seq (generate cfg ?nm ?plan v (dev_ID d)) (\<lambda>_. sweep_services cfg autos v d svcs)) (\<lambda>r. sweep_ok cfg db0 full)" for n
    proof (cases "ag_MaxTargets cfg \<le> n")
      case False
      have "hoare (\<lambda>s. sweep_ok cfg db0 full s \<and> ag_autoCount s = n)
         (seq (generate cfg ?nm ?plan v (dev_ID d)) (\<lambda>_. sweep_services cfg autos v d svcs)) (\<lambda>r. sweep_ok cfg db0 full)"
      proof (rule hoare_seq [where R = "\<lambda>_. sweep_ok cfg db0 full"])
        show "hoare (\<lambda>s. sweep_ok cfg db0 full s \<and> ag_autoCount s = n) (generate cfg ?nm ?plan v (dev_ID d))
           (\<lambda>r s. case r of Inl e \<Rightarrow> sweep_ok cfg db0 full s | Inr x \<Rightarrow> sweep_ok cfg db0 full s)"
          by (rule hoare_weaken [OF sweep_ok_generate]) (use False in \<open>auto split: sum.splits\<close>)
      qed (rule hoare_keeps [OF Cons.IH])
      then show ?thesis using False by simp
    qed (simp add: hoare_def ret_def)
  qed (simp add: hoare_def get_state_def)
  show ?case unfolding svc sweep_services.simps Let_def
    by (intro keeps_if Cons.IH keeps_seq sweep_ok_state)
      (auto intro!: keeps_seq Cons.IH gen sweep_ok_follow dest: assms split: option.splits)
qed

lemma sweep_ok_device:
  assumes "\<And>nm prev. autos nm = Some prev \<Longrightarrow> prev \<in> set (db_targets db0) \<and> is_auto prev"
  shows "keeps (sweep_ok cfg db0 full) (sweep_device cfg autos nets d)"
  unfolding sweep_device_def by (intro keeps_intros sweep_ok_services assms)

lemma sweep_ok_undesired:
  "t \<in> set (db_targets db0) \<Longrightarrow> is_auto t \<Longrightarrow> keeps (sweep_ok cfg db0 full) (park_undesired t)"
  unfolding park_undesired_def by (intro keeps_intros sweep_ok_park)

text \<open>The listing a sweep starts from.\<close>

definition listed_autos :: "probe_db \<Rightarrow> ProbeTarget list" where
  "listed_autos db = filter (\<lambda>t. pt_Source t = ProbeSourceAuto) (sort_by (\<lambda>a b. pt_ID a < pt_ID b) (db_targets db))"

definition autos_by_name :: "probe_db \<Rightarrow> string \<rightharpoonup> ProbeTarget" where
  "autos_by_name db = map_of (rev (map (\<lambda>t. (pt_Name t, t)) (listed_autos db)))"

lemma listed_autos_set: "set (listed_autos db) = {t \<in> set (db_targets db). is_auto t}"
  by (auto simp: listed_autos_def is_auto_def set_sort_by)

lemma autos_by_name_mem: "autos_by_name db nm = Some prev \<Longrightarrow> prev \<in> set (db_targets db) \<and> is_auto prev \<and> pt_Name prev = nm"
proof -
  assume "autos_by_name db nm = Some prev"
  then have "(nm, prev) \<in> set (rev (map (\<lambda>t. (pt_Name t, t)) (listed_autos db)))" unfolding autos_by_name_def by (rule map_of_SomeD)
  then show ?thesis using listed_autos_set [of db] by auto
qed

lemma autos_by_name_dom: "autos_by_name db nm = None \<Longrightarrow> t \<in> set (db_targets db) \<Longrightarrow> is_auto t \<Longrightarrow> pt_Name t \<noteq> nm"
  unfolding autos_by_name_def map_of_eq_None_iff using listed_autos_set [of db] by force

lemma length_filter_sort_by: "length (filter P (sort_by lt xs)) = length (filter P xs)"
proof (induction xs)
  case (Cons x xs)
  have "length (filter P (insert_by lt x ys)) = (if P x then 1 else 0) + length (filter P ys)" for ys by (induction ys) auto
  then show ?case using Cons by simp
qed simp

lemma length_listed_autos: "length (listed_autos db) = length (filter is_auto (db_targets db))"
  by (simp add: listed_autos_def length_filter_sort_by is_auto_def cong: filter_cong)

subsection \<open>A sweep converges\<close>

type_synonym item = "string \<times> string \<times> string"

definition sat :: "probe_db \<Rightarrow> item \<Rightarrow> bool" where
  "sat db it \<longleftrightarrow> (\<exists>t \<in> set (db_targets db). pt_Name t = fst it \<and> is_auto t \<and> pt_Enabled t \<noteq> 0 \<and> (pt_Module t, pt_Target t) = snd it)"

text \<open>
  The items of the services visited so far have their targets, those are the names wanted, an auto
  target that is not wanted yet is as it was listed, and a new one is wanted.
\<close>

definition conv :: "probe_db \<Rightarrow> item list \<Rightarrow> sweeping \<Rightarrow> bool" where
  "conv db0 its s \<longleftrightarrow>
     list_all (sat (ag_db s)) its \<and> ag_desired s = fst ` set its \<and>
     (\<forall>t \<in> set (db_targets db0). is_auto t \<longrightarrow> pt_Name t \<notin> ag_desired s \<longrightarrow> t \<in> set (db_targets (ag_db s))) \<and>
     (\<forall>t \<in> set (db_targets (ag_db s)). pt_ID t \<notin> pt_ID ` set (db_targets db0) \<longrightarrow> pt_Name t \<in> ag_desired s)"

definition touches :: "int \<Rightarrow> probe_db \<Rightarrow> probe_db \<Rightarrow> bool" where
  "touches i db db' \<longleftrightarrow> (\<forall>t. pt_ID t \<noteq> i \<longrightarrow> (t \<in> set (db_targets db') \<longleftrightarrow> t \<in> set (db_targets db))) \<and>
     pt_ID ` set (db_targets db') = pt_ID ` set (db_targets db)"

lemma rewritten_touches:
  assumes "rewritten f i db db'" "\<And>u. pt_ID (f u) = pt_ID u"
  shows "touches i db db'"
proof -
  let ?g = "\<lambda>u. if pt_ID u = i then f u else u"
  have set: "set (db_targets db') = ?g ` set (db_targets db)" using assms(1) by (auto simp: rewritten_def)
  have ids: "pt_ID (?g u) = pt_ID u" for u using assms(2) by simp
  have "t \<in> ?g ` S \<longleftrightarrow> t \<in> S" if "pt_ID t \<noteq> i" for t S
  proof
    assume "t \<in> ?g ` S"
    then obtain u where "u \<in> S" "t = ?g u" by blast
    then show "t \<in> S" using that ids [of u] by auto
  next
    assume "t \<in> S"
    then show "t \<in> ?g ` S" using that by (intro image_eqI [of _ _ t]) simp_all
  qed
  then show ?thesis unfolding touches_def set image_image ids by blast
qed

lemma quiet_touches: "quiet db db' \<Longrightarrow> touches i db db'"
  by (auto simp: quiet_def touches_def)

lemma touches_trans: "touches i a b \<Longrightarrow> touches i b c \<Longrightarrow> touches i a c"
  by (auto simp: touches_def)

text \<open>Following leaves the row of the target enabled and with the plan, and all other rows alone.\<close>

lemma follow_effect:
  assumes inv: "probe_inv (ag_db s)" and run: "follow prev nm plan v d s = (Inr (), s')"
    and ready: "\<And>u. u \<in> set (db_targets (ag_db s)) \<Longrightarrow> pt_ID u = pt_ID prev \<Longrightarrow>
       ((pt_Module prev, pt_Target prev) = plan \<longrightarrow> (pt_Module u, pt_Target u) = plan) \<and> (pt_Enabled prev \<noteq> 0 \<longrightarrow> pt_Enabled u \<noteq> 0)"
  shows "touches (pt_ID prev) (ag_db s) (ag_db s') \<and> ag_desired s' = ag_desired s \<and>
    (\<forall>u \<in> set (db_targets (ag_db s')). pt_ID u = pt_ID prev \<longrightarrow> (pt_Module u, pt_Target u) = plan \<and> pt_Enabled u \<noteq> 0)"
proof -
  let ?need = "pt_Module prev \<noteq> fst plan \<or> pt_Target prev \<noteq> snd plan"
  let ?arg = "\<lparr>ut_Name = pt_Name prev, ut_Module = fst plan, ut_Target = snd plan, ut_IntervalSeconds = pt_IntervalSeconds prev,
      ut_TimeoutSeconds = pt_TimeoutSeconds prev, ut_Enabled = pt_Enabled prev, ut_Notes = pt_Notes prev, ut_Vantage = v,
      ut_Options = pt_Options prev, ut_DeviceID = Some d, ut_ID = pt_ID prev\<rparr>"
  let ?up = "if ?need then seq (ag_on_db (''autogen: update '' @ nm) (UpdateProbeTarget ?arg)) (\<lambda>_. ret ()) else ret ()"
  obtain r1 s1 where s1: "?up s = (r1, s1)" by fastforce
  have r1: "r1 = Inr ()" using run s1 unfolding follow_def by (cases r1) (auto simp: seq_def)
  have up: "touches (pt_ID prev) (ag_db s) (ag_db s1) \<and> ag_desired s1 = ag_desired s \<and>
    (\<forall>u \<in> set (db_targets (ag_db s1)). pt_ID u = pt_ID prev \<longrightarrow> (pt_Module u, pt_Target u) = plan \<and> (pt_Enabled prev \<noteq> 0 \<longrightarrow> pt_Enabled u \<noteq> 0))"
  proof (cases ?need)
    case True
    obtain r2 db2 where upd: "UpdateProbeTarget ?arg (ag_db s) = (r2, db2)" by fastforce
    have s1': "s1 = s\<lparr>ag_db := db2\<rparr>" "\<exists>t. r2 = Inr t"
      using s1 upd r1 True by (auto simp: seq_def ag_on_db_def ret_def split: sum.splits if_splits)
    then have rw: "rewritten (updated ?arg (db_clock (ag_db s))) (pt_ID prev) (ag_db s) db2" using Update_effect [OF _ upd] inv by (auto simp: probe_inv_def)
    have "touches (pt_ID prev) (ag_db s) db2" using rewritten_touches [OF rw] by (simp add: updated_def)
    moreover have "(pt_Module u, pt_Target u) = plan \<and> (pt_Enabled prev \<noteq> 0 \<longrightarrow> pt_Enabled u \<noteq> 0)"
      if "u \<in> set (db_targets db2)" "pt_ID u = pt_ID prev" for u
      using rw that by (auto simp: rewritten_def updated_def split: if_splits)
    ultimately show ?thesis using s1'(1) by simp
  next
    case False
    then have "s1 = s" using s1 by (auto simp: ret_def)
    then show ?thesis using ready False by (auto simp: touches_def prod_eq_iff)
  qed
  have "keeps (\<lambda>s. probe_inv (ag_db s)) ?up" by (intro keeps_intros keeps_ag_on_db)
  then have ok1: "targets_ok (ag_db s1)" using keepsD [of "\<lambda>s. probe_inv (ag_db s)" ?up s] inv s1 by (simp add: probe_inv_def)
  show ?thesis
  proof (cases "pt_Enabled prev = 0")
    case False
    then have "s' = s1" using run s1 r1 unfolding follow_def by (simp add: seq_def ret_def)
    then show ?thesis using up False by simp
  next
    case True
    obtain r3 db3 where tg: "ToggleProbeTargetEnabled 1 (pt_ID prev) (ag_db s1) = (r3, db3)" by fastforce
    have s': "s' = s1\<lparr>ag_db := db3, ag_enabled := ag_enabled s1 + 1\<rparr>" "r3 = Inr ()"
      using run s1 r1 tg True unfolding follow_def by (cases r3; simp add: seq_def ag_on_db_def set_state_def)+
    have rw: "rewritten (\<lambda>u. u\<lparr>pt_Enabled := 1, pt_UpdatedAt := db_clock (ag_db s1)\<rparr>) (pt_ID prev) (ag_db s1) db3"
      using Toggle_effect [OF ok1 tg] s'(2) by simp
    have "touches (pt_ID prev) (ag_db s1) db3" using rewritten_touches [OF rw] by simp
    moreover have "(pt_Module u, pt_Target u) = plan \<and> pt_Enabled u \<noteq> 0" if "u \<in> set (db_targets db3)" "pt_ID u = pt_ID prev" for u
      using rw that up by (auto simp: rewritten_def split: if_splits)
    ultimately show ?thesis using up s'(1) touches_trans by auto
  qed
qed

lemma sweep_ok_inv: "sweep_ok cfg db0 full s \<Longrightarrow> auto_inv db0 (nat (ag_created s)) (ag_db s) \<and> probe_inv (ag_db s)"
  by (simp add: sweep_ok_def Let_def auto_inv_def)

lemma same_id: "probe_inv db \<Longrightarrow> u \<in> set (db_targets db) \<Longrightarrow> v \<in> set (db_targets db) \<Longrightarrow> pt_ID u = pt_ID v \<Longrightarrow> u = v"
  by (auto simp: probe_inv_def targets_ok_def distinct_map inj_on_def)

lemma same_name: "probe_inv db \<Longrightarrow> u \<in> set (db_targets db) \<Longrightarrow> v \<in> set (db_targets db) \<Longrightarrow> pt_Name u = pt_Name v \<Longrightarrow> u = v"
  by (auto simp: probe_inv_def targets_ok_def distinct_map inj_on_def)

definition functional_items :: "item list \<Rightarrow> bool" where
  "functional_items its \<longleftrightarrow> (\<forall>a \<in> set its. \<forall>b \<in> set its. fst a = fst b \<longrightarrow> a = b)"

lemma conv_follow:
  assumes ok: "sweep_ok cfg db0 full s" and db0: "probe_inv db0" and conv: "conv db0 its s"
    and prev: "prev \<in> set (db_targets db0)" "is_auto prev" "pt_Name prev = nm"
    and fit: "functional_items (its @ [(nm, plan)])"
    and run: "follow prev nm plan v d (s\<lparr>ag_desired := insert nm (ag_desired s)\<rparr>) = (Inr (), s')"
  shows "conv db0 (its @ [(nm, plan)]) s'"
proof -
  let ?s = "s\<lparr>ag_desired := insert nm (ag_desired s)\<rparr>"
  have ai: "auto_inv db0 (nat (ag_created s)) (ag_db s)" and inv: "probe_inv (ag_db s)" using sweep_ok_inv [OF ok] by auto
  have row: "pt_Name u = nm \<and> is_auto u" if "u \<in> set (db_targets (ag_db s))" "pt_ID u = pt_ID prev" for u
    using auto_row [OF ai prev(1) that] prev(2,3) by (simp add: is_auto_def)
  have ready: "((pt_Module prev, pt_Target prev) = plan \<longrightarrow> (pt_Module u, pt_Target u) = plan) \<and> (pt_Enabled prev \<noteq> 0 \<longrightarrow> pt_Enabled u \<noteq> 0)"
    if u: "u \<in> set (db_targets (ag_db ?s))" "pt_ID u = pt_ID prev" for u
  proof (cases "nm \<in> ag_desired s")
    case True
    then obtain it where "it \<in> set its" "fst it = nm" using conv by (auto simp: conv_def)
    then have "sat (ag_db s) (nm, plan)" using conv fit by (auto simp: conv_def list_all_iff functional_items_def)
    then obtain t where "t \<in> set (db_targets (ag_db s))" "pt_Name t = nm" "pt_Enabled t \<noteq> 0" "(pt_Module t, pt_Target t) = plan"
      by (auto simp: sat_def)
    moreover have "t = u" using same_name [OF inv] calculation u row [of u] by simp
    ultimately show ?thesis by simp
  next
    case False
    then have "prev \<in> set (db_targets (ag_db s))" using conv prev by (auto simp: conv_def)
    then show ?thesis using same_id [OF inv] u by force
  qed
  have E: "touches (pt_ID prev) (ag_db ?s) (ag_db s') \<and> ag_desired s' = ag_desired ?s \<and>
    (\<forall>u \<in> set (db_targets (ag_db s')). pt_ID u = pt_ID prev \<longrightarrow> (pt_Module u, pt_Target u) = plan \<and> pt_Enabled u \<noteq> 0)"
    by (rule follow_effect [OF _ run ready]) (use inv in simp)
  have eff: "touches (pt_ID prev) (ag_db s) (ag_db s')" "ag_desired s' = insert nm (ag_desired s)"
    "\<And>u. u \<in> set (db_targets (ag_db s')) \<Longrightarrow> pt_ID u = pt_ID prev \<Longrightarrow> (pt_Module u, pt_Target u) = plan \<and> pt_Enabled u \<noteq> 0"
    using E by simp_all
  have "sweep_ok cfg db0 full ?s" using ok by (auto simp: sweep_ok_def Let_def)
  then have "sweep_ok cfg db0 full s'" by (rule keeps_run [OF sweep_ok_follow [OF prev(1,2)] _ run])
  then have ai': "auto_inv db0 (nat (ag_created s')) (ag_db s')" using sweep_ok_inv by auto
  have "pt_ID prev \<in> pt_ID ` set (db_targets (ag_db s'))"
  proof -
    have "set (idents db0) \<subseteq> set (idents (ag_db s'))" using ai' by (auto simp: auto_inv_def)
    then have "fst ` set (idents db0) \<subseteq> fst ` set (idents (ag_db s'))" by (rule image_mono)
    then show ?thesis using prev(1) by (auto simp: idents_def image_image)
  qed
  then obtain w where w: "w \<in> set (db_targets (ag_db s'))" "pt_ID w = pt_ID prev" by auto
  have "sat (ag_db s') (nm, plan)"
    using w eff(3) [OF w] auto_row [OF ai' prev(1) w] prev(2,3) by (auto simp: sat_def is_auto_def)
  moreover have "sat (ag_db s') it" if "it \<in> set its" for it
  proof -
    have "sat (ag_db s) it" using conv that by (simp add: conv_def list_all_iff)
    then obtain t where t: "t \<in> set (db_targets (ag_db s))" "pt_Name t = fst it" "is_auto t" "pt_Enabled t \<noteq> 0" "(pt_Module t, pt_Target t) = snd it"
      unfolding sat_def by blast
    show ?thesis
    proof (cases "pt_ID t = pt_ID prev")
      case True
      then have "it = (nm, plan)" using row [OF t(1)] t(2) fit that by (auto simp: functional_items_def)
      then show ?thesis using calculation by simp
    next
      case False
      then have "t \<in> set (db_targets (ag_db s'))" using t(1) eff(1) by (simp add: touches_def)
      then show ?thesis using t by (auto simp: sat_def)
    qed
  qed
  moreover have "t \<in> set (db_targets (ag_db s'))" if "t \<in> set (db_targets db0)" "is_auto t" "pt_Name t \<notin> ag_desired s'" for t
  proof -
    have "t \<in> set (db_targets (ag_db s))" using that conv eff(2) by (auto simp: conv_def)
    moreover have "pt_ID t \<noteq> pt_ID prev" using same_id [OF db0 that(1) prev(1)] that(3) eff(2) prev(3) by auto
    ultimately show ?thesis using eff(1) by (simp add: touches_def)
  qed
  moreover have "pt_Name t \<in> ag_desired s'" if "t \<in> set (db_targets (ag_db s'))" "pt_ID t \<notin> pt_ID ` set (db_targets db0)" for t
  proof -
    have "pt_ID t \<noteq> pt_ID prev" using that(2) prev(1) by auto
    then have "t \<in> set (db_targets (ag_db s))" using that(1) eff(1) by (simp add: touches_def)
    then show ?thesis using that(2) conv eff(2) by (auto simp: conv_def)
  qed
  ultimately show ?thesis using eff(2) conv by (auto simp: conv_def list_all_iff)
qed

lemma conv_generate:
  assumes conv: "conv db0 its s" and run: "generate cfg nm plan v d (s\<lparr>ag_desired := insert nm (ag_desired s)\<rparr>) = (Inr (), s')"
  shows "conv db0 (its @ [(nm, plan)]) s'"
proof -
  let ?arg = "\<lparr>cp_Name = nm, cp_Module = fst plan, cp_Target = snd plan, cp_IntervalSeconds = ag_IntervalSeconds cfg, cp_TimeoutSeconds = 10,
      cp_Enabled = 1, cp_Notes = ''auto-generated from a discovered service (#606)'', cp_Vantage = v, cp_Options = [],
      cp_DeviceID = Some d, cp_Source = ProbeSourceAuto\<rparr>"
  obtain r db' where cr: "CreateProbeTarget ?arg (ag_db s) = (r, db')" by fastforce
  have s': "s' = s\<lparr>ag_db := db', ag_created := ag_created s + 1, ag_autoCount := ag_autoCount s + 1, ag_desired := insert nm (ag_desired s)\<rparr>"
    "\<exists>t. r = Inr t"
    using run cr by (auto simp: generate_def seq_def ag_on_db_def set_state_def split: sum.splits)
  have ts: "db_targets db' = db_targets (ag_db s) @ [new_target (ag_db s) ?arg]" using Create_effect [OF cr] s'(2) by auto
  have "sat db' (nm, plan)" by (auto simp: sat_def ts new_target_def is_auto_def)
  moreover have "sat db' it" if "sat (ag_db s) it" for it using that by (auto simp: sat_def ts)
  moreover have "pt_Name (new_target (ag_db s) ?arg) = nm" by (simp add: new_target_def)
  ultimately show ?thesis using conv by (auto simp: conv_def s'(1) ts list_all_iff)
qed

text \<open>The items of a device: the services that pass the filters, with their names and plans.\<close>

definition service_items :: "ProbeAutogenConfig \<Rightarrow> Device \<Rightarrow> (string \<times> int) list \<Rightarrow> item list" where
  "service_items cfg d svcs =
     map (\<lambda>(n, p). (autogenName (dev_ID d) (to_lower n) p, autogenPlan (to_lower n) (dev_IpAddress d) p))
       (filter (\<lambda>(n, p). \<not> (ag_Services cfg \<noteq> [] \<and> to_lower n \<notin> set (map (\<lambda>s. to_lower (trim_space s)) (ag_Services cfg))) \<and> 0 < p) svcs)"

definition device_items :: "ProbeAutogenConfig \<Rightarrow> Device \<Rightarrow> item list" where
  "device_items cfg d =
     (if ag_DeviceTypes cfg \<noteq> [] \<and> dev_Type d \<notin> set (ag_DeviceTypes cfg) then []
      else if dev_IpAddress d = [] then []
      else case detected (dev_DetectedServices d) of None \<Rightarrow> [] | Some svcs \<Rightarrow> service_items cfg d svcs)"

lemma functional_sub: "functional_items its \<Longrightarrow> set its' \<subseteq> set its \<Longrightarrow> functional_items its'"
  unfolding functional_items_def by blast

abbreviation capped :: "ProbeAutogenConfig \<Rightarrow> sweeping \<Rightarrow> bool" where
  "capped cfg s \<equiv> ag_MaxTargets cfg \<le> ag_autoCount s"

lemma services_conv:
  assumes db0: "probe_inv db0"
  shows "sweep_ok cfg db0 full s \<Longrightarrow> conv db0 its s \<Longrightarrow> functional_items (its @ service_items cfg d svcs) \<Longrightarrow>
    sweep_services cfg (autos_by_name db0) v d svcs s = (Inr (), s') \<Longrightarrow> capped cfg s' \<or> conv db0 (its @ service_items cfg d svcs) s'"
proof (induction svcs arbitrary: s its)
  case Nil
  then show ?case by (simp add: ret_def service_items_def)
next
  case (Cons svc svcs)
  obtain sn port where svc: "svc = (sn, port)" by fastforce
  let ?nm = "autogenName (dev_ID d) (to_lower sn) port" and ?plan = "autogenPlan (to_lower sn) (dev_IpAddress d) port"
  let ?skip = "ag_Services cfg \<noteq> [] \<and> to_lower sn \<notin> set (map (\<lambda>s. to_lower (trim_space s)) (ag_Services cfg)) \<or> port \<le> 0"
  let ?rest = "sweep_services cfg (autos_by_name db0) v d svcs"
  show ?case
  proof (cases ?skip)
    case True
    then have "service_items cfg d (svc # svcs) = service_items cfg d svcs" "?rest s = (Inr (), s')"
      using Cons.prems(4) by (auto simp: service_items_def svc Let_def split: if_splits)
    then show ?thesis using Cons.IH [of s its] Cons.prems by simp
  next
    case False
    let ?s = "s\<lparr>ag_desired := insert ?nm (ag_desired s)\<rparr>"
    have items: "service_items cfg d (svc # svcs) = (?nm, ?plan) # service_items cfg d svcs"
      using False by (auto simp: service_items_def svc)
    have okS: "sweep_ok cfg db0 full ?s" using Cons.prems(1) by (auto simp: sweep_ok_def Let_def)
    have run: "(case autos_by_name db0 ?nm of Some prev \<Rightarrow> seq (follow prev ?nm ?plan v (dev_ID d)) (\<lambda>_. ?rest)
        | None \<Rightarrow> seq (get_state ag_autoCount) (\<lambda>n. if ag_MaxTargets cfg \<le> n then ret () else seq (generate cfg ?nm ?plan v (dev_ID d)) (\<lambda>_. ?rest))) ?s = (Inr (), s')"
      using Cons.prems(4) False by (auto simp: svc Let_def seq_def set_state_def)
    have step: "capped cfg s' \<or> conv db0 (its @ service_items cfg d (svc # svcs)) s'"
      if "sweep_ok cfg db0 full s1" "conv db0 (its @ [(?nm, ?plan)]) s1" "?rest s1 = (Inr (), s')" for s1
      using Cons.IH [OF that(1,2) _ that(3)] Cons.prems(3) items by simp
    show ?thesis
    proof (cases "autos_by_name db0 ?nm")
      case (Some prev)
      then obtain s1 where s1: "follow prev ?nm ?plan v (dev_ID d) ?s = (Inr (), s1)" "?rest s1 = (Inr (), s')"
        using run seq_okD [of "follow prev ?nm ?plan v (dev_ID d)" "\<lambda>_. ?rest" ?s] by auto
      have prev: "prev \<in> set (db_targets db0)" "is_auto prev" "pt_Name prev = ?nm" using autos_by_name_mem [OF Some] by auto
      have fit: "functional_items (its @ [(?nm, ?plan)])" using Cons.prems(3) unfolding items by (rule functional_sub) auto
      have "sweep_ok cfg db0 full s1" by (rule keeps_run [OF sweep_ok_follow [OF prev(1,2)] okS s1(1)])
      then show ?thesis using step conv_follow [OF Cons.prems(1) db0 Cons.prems(2) prev fit s1(1)] s1(2) by blast
    next
      case None
      show ?thesis
      proof (cases "capped cfg s")
        case True
        then have "s' = ?s" using run None by (simp add: seq_def get_state_def ret_def)
        then show ?thesis using True by simp
      next
        case False
        then have "seq (generate cfg ?nm ?plan v (dev_ID d)) (\<lambda>_. ?rest) ?s = (Inr (), s')" using run None by (simp add: seq_def get_state_def)
        then obtain s1 where s1: "generate cfg ?nm ?plan v (dev_ID d) ?s = (Inr (), s1)" "?rest s1 = (Inr (), s')"
          using seq_okD [of "generate cfg ?nm ?plan v (dev_ID d)" "\<lambda>_. ?rest" ?s] by auto
        have "sweep_ok cfg db0 full s1" using hoareD [OF sweep_ok_generate, of cfg db0 full ?s] okS False s1(1) by (metis (no_types, lifting) not_less snd_conv sweeping.select_convs(5) sweeping.surjective sweeping.update_convs(6))
        then show ?thesis using step conv_generate [OF Cons.prems(2) s1(1)] s1(2) by blast
      qed
    qed
  qed
qed

lemma devices_conv:
  assumes db0: "probe_inv db0"
  shows "sweep_ok cfg db0 False s \<Longrightarrow> capped cfg s \<or> conv db0 its s \<Longrightarrow> functional_items (its @ concat (map (device_items cfg) ds)) \<Longrightarrow>
    for_each (sweep_device cfg (autos_by_name db0) nets) ds s = (Inr ys, s') \<Longrightarrow>
    capped cfg s' \<or> conv db0 (its @ concat (map (device_items cfg) ds)) s'"
proof (induction ds arbitrary: s its ys)
  case (Cons d ds)
  let ?f = "sweep_device cfg (autos_by_name db0) nets"
  obtain s1 ys1 where s1: "?f d s = (Inr (), s1)" "for_each ?f ds s1 = (Inr ys1, s')"
    using for_each_okD [OF Cons.prems(4)] by auto
  have autos: "autos_by_name db0 nm = Some prev \<Longrightarrow> prev \<in> set (db_targets db0) \<and> is_auto prev" for nm prev using autos_by_name_mem by blast
  have ok: "sweep_ok cfg db0 False s1" by (rule keeps_run [OF sweep_ok_device [OF autos] Cons.prems(1) s1(1)])
  have "capped cfg s1 \<or> conv db0 (its @ device_items cfg d) s1"
  proof (cases "capped cfg s")
    case True
    then have full: "sweep_ok cfg db0 True s" using Cons.prems(1) by (simp add: sweep_ok_def Let_def)
    have "sweep_ok cfg db0 True s1" by (rule keeps_run [OF sweep_ok_device [OF autos] full s1(1)])
    then show ?thesis by (simp add: sweep_ok_def Let_def)
  next
    case False
    then have conv: "conv db0 its s" using Cons.prems(2) by simp
    have fit: "functional_items (its @ device_items cfg d)" using Cons.prems(3) by (rule functional_sub) auto
    show ?thesis
    proof (cases "(ag_DeviceTypes cfg \<noteq> [] \<and> dev_Type d \<notin> set (ag_DeviceTypes cfg)) \<or> dev_IpAddress d = [] \<or> detected (dev_DetectedServices d) = None")
      case True
      then have "s1 = s" "device_items cfg d = []" using s1(1) by (auto simp: sweep_device_def device_items_def ret_def split: if_splits)
      then show ?thesis using conv by simp
    next
      case False
      then obtain svcs where svcs: "detected (dev_DetectedServices d) = Some svcs" by auto
      then have "device_items cfg d = service_items cfg d svcs"
        "sweep_services cfg (autos_by_name db0) (vantageFor nets (dev_NetworkID d)) d svcs s = (Inr (), s1)"
        using False s1(1) by (auto simp: sweep_device_def device_items_def)
      then show ?thesis using services_conv [OF db0 Cons.prems(1) conv] fit by simp
    qed
  qed
  then show ?case using Cons.IH [OF ok _ _ s1(2), of "its @ device_items cfg d"] Cons.prems(3) by simp
qed (simp add: ret_def)

subsection \<open>Parking\<close>

definition parked :: "probe_db \<Rightarrow> item list \<Rightarrow> ProbeTarget list \<Rightarrow> sweeping \<Rightarrow> bool" where
  "parked db0 its ts s \<longleftrightarrow>
     list_all (sat (ag_db s)) its \<and> ag_desired s = fst ` set its \<and>
     (\<forall>t \<in> set (db_targets db0). is_auto t \<longrightarrow> pt_Name t \<notin> ag_desired s \<longrightarrow>
        (\<forall>u \<in> set (db_targets (ag_db s)). pt_ID u = pt_ID t \<longrightarrow> u = t \<or> pt_Enabled u = 0)) \<and>
     (\<forall>t \<in> set ts. pt_Name t \<notin> ag_desired s \<longrightarrow> (\<forall>u \<in> set (db_targets (ag_db s)). pt_ID u = pt_ID t \<longrightarrow> pt_Enabled u = 0)) \<and>
     (\<forall>t \<in> set (db_targets (ag_db s)). pt_ID t \<notin> pt_ID ` set (db_targets db0) \<longrightarrow> pt_Name t \<in> ag_desired s)"

lemma conv_parked: "probe_inv (ag_db s) \<Longrightarrow> conv db0 its s \<Longrightarrow> parked db0 its [] s"
proof -
  assume inv: "probe_inv (ag_db s)" and conv: "conv db0 its s"
  have "u = t" if "t \<in> set (db_targets db0)" "is_auto t" "pt_Name t \<notin> ag_desired s" "u \<in> set (db_targets (ag_db s))" "pt_ID u = pt_ID t" for t u
    using conv that same_id [OF inv that(4) _ that(5)] by (simp add: conv_def)
  then show ?thesis using conv unfolding parked_def conv_def by auto
qed

lemma parked_step:
  assumes ok: "sweep_ok cfg db0 full s" and inv: "parked db0 its ts s"
    and t: "t \<in> set (db_targets db0)" "is_auto t" and run: "park_undesired t s = (Inr (), s')"
  shows "parked db0 its (t # ts) s'"
proof (cases "pt_Name t \<in> ag_desired s \<or> pt_Enabled t = 0")
  case True
  then have "s' = s" using run by (auto simp: park_undesired_def seq_def get_state_def ret_def)
  moreover have "pt_Enabled u = 0" if "pt_Name t \<notin> ag_desired s" "u \<in> set (db_targets (ag_db s))" "pt_ID u = pt_ID t" for u
    using inv t that True by (auto simp: parked_def)
  ultimately show ?thesis using inv by (auto simp: parked_def)
next
  case False
  have ai: "auto_inv db0 (nat (ag_created s)) (ag_db s)" and pinv: "probe_inv (ag_db s)" using sweep_ok_inv [OF ok] by auto
  obtain r db' where tg: "ToggleProbeTargetEnabled 0 (pt_ID t) (ag_db s) = (r, db')" by fastforce
  have s': "s' = s\<lparr>ag_db := db', ag_disabled := ag_disabled s + 1\<rparr>" "r = Inr ()"
    using run tg False by (cases r; simp add: park_undesired_def park_def seq_def get_state_def ag_on_db_def set_state_def)+
  have rw: "rewritten (\<lambda>u. u\<lparr>pt_Enabled := 0, pt_UpdatedAt := db_clock (ag_db s)\<rparr>) (pt_ID t) (ag_db s) db'"
    using Toggle_effect [OF _ tg] s'(2) pinv by (simp add: probe_inv_def)
  have to: "touches (pt_ID t) (ag_db s) db'" using rewritten_touches [OF rw] by simp
  have off: "pt_Enabled u = 0" if "u \<in> set (db_targets db')" "pt_ID u = pt_ID t" for u
    using rw that by (auto simp: rewritten_def split: if_splits)
  have same: "u \<in> set (db_targets db') \<longleftrightarrow> u \<in> set (db_targets (ag_db s))" if "pt_ID u \<noteq> pt_ID t" for u
    using to that by (simp add: touches_def)
  have sats: "sat db' it" if it: "it \<in> set its" for it
  proof -
    have "sat (ag_db s) it" using inv it by (simp add: parked_def list_all_iff)
    then obtain u where u: "u \<in> set (db_targets (ag_db s))" "pt_Name u = fst it" "is_auto u" "pt_Enabled u \<noteq> 0" "(pt_Module u, pt_Target u) = snd it"
      unfolding sat_def by blast
    have "pt_Name u \<in> ag_desired s" using inv it u(2) by (auto simp: parked_def)
    then have "pt_ID u \<noteq> pt_ID t" using auto_row(1) [OF ai t(1) u(1)] False by auto
    then have "u \<in> set (db_targets db')" using u(1) same by simp
    then show ?thesis using u unfolding sat_def by blast
  qed
  have olds: "u = w \<or> pt_Enabled u = 0"
    if "w \<in> set (db_targets db0)" "is_auto w" "pt_Name w \<notin> ag_desired s" "u \<in> set (db_targets db')" "pt_ID u = pt_ID w" for w u
    using off [of u] same [of u] inv that by (cases "pt_ID u = pt_ID t") (auto simp: parked_def)
  have offs: "pt_Enabled u = 0"
    if "w \<in> set (t # ts)" "pt_Name w \<notin> ag_desired s" "u \<in> set (db_targets db')" "pt_ID u = pt_ID w" for w u
    using off [of u] same [of u] inv that by (cases "pt_ID u = pt_ID t") (auto simp: parked_def)
  have news: "pt_Name u \<in> ag_desired s" if "u \<in> set (db_targets db')" "pt_ID u \<notin> pt_ID ` set (db_targets db0)" for u
  proof -
    have "pt_ID u \<noteq> pt_ID t" using that(2) t(1) by auto
    then have "u \<in> set (db_targets (ag_db s))" using same that(1) by simp
    then show ?thesis using inv that(2) unfolding parked_def by blast
  qed
  have des: "ag_db s' = db'" "ag_desired s' = ag_desired s" "ag_desired s = fst ` set its" using inv by (simp_all add: s'(1) parked_def)
  show ?thesis unfolding parked_def des(1,2) list_all_iff
    by (intro conjI ballI impI) (erule sats, rule des(3), erule (4) olds, erule (3) offs, erule (1) news)
qed

lemma parked_all:
  "sweep_ok cfg db0 full s \<Longrightarrow> parked db0 its ts s \<Longrightarrow> (\<And>t. t \<in> set us \<Longrightarrow> t \<in> set (db_targets db0) \<and> is_auto t) \<Longrightarrow>
   for_each park_undesired us s = (Inr ys, s') \<Longrightarrow> parked db0 its (rev us @ ts) s'"
proof (induction us arbitrary: s ts ys)
  case (Cons u us)
  obtain s1 ys1 where s1: "park_undesired u s = (Inr (), s1)" "for_each park_undesired us s1 = (Inr ys1, s')"
    using for_each_okD [OF Cons.prems(4)] by auto
  have u: "u \<in> set (db_targets db0)" "is_auto u" using Cons.prems(3) [of u] by auto
  have "sweep_ok cfg db0 full s1" by (rule keeps_run [OF sweep_ok_undesired [OF u] Cons.prems(1) s1(1)])
  then show ?case
    using Cons.IH [OF _ parked_step [OF Cons.prems(1,2) u s1(1)] _ s1(2)] Cons.prems(3) by auto
qed (simp add: ret_def)

subsection \<open>The sweep\<close>

abbreviation start_sweep :: "probe_db \<Rightarrow> sweeping" where
  "start_sweep db \<equiv> \<lparr>ag_db = db, ag_created = 0, ag_enabled = 0, ag_disabled = 0, ag_autoCount = 0, ag_desired = {}\<rparr>"

lemma list_targets_run:
  "\<exists>r fs. ag_on_db w ListProbeTargets (start_sweep db) = (r, (start_sweep db)\<lparr>ag_db := db\<lparr>db_faults := fs\<rparr>\<rparr>) \<and>
    (\<forall>xs. r = Inr xs \<longrightarrow> xs = sort_by (\<lambda>a b. pt_ID a < pt_ID b) (db_targets db))"
proof -
  obtain r db' where run: "ListProbeTargets db = (r, db')" by fastforce
  have "quiet db db' \<and> (\<forall>xs. r = Inr xs \<longrightarrow> xs = sort_by (\<lambda>a b. pt_ID a < pt_ID b) (db_targets db))"
    using stmt_effect [OF run [unfolded ListProbeTargets_def]] by (auto simp: get_state_def)
  then show ?thesis using run by (cases r) (auto simp: ag_on_db_def quiet_def)
qed

text \<open>What a sweep runs after its listing.\<close>

definition sweep_rest :: "ProbeAutogenConfig \<Rightarrow> (ProbeTarget list \<Rightarrow> ProbeTarget list) \<Rightarrow> probe_db \<Rightarrow> unit aprog" where
  "sweep_rest cfg order db0 =
     (if \<not> ag_Enabled cfg then
        seq (for_each (\<lambda>t. if pt_Enabled t = 1 then park t else ret ()) (order (listed_autos db0))) (\<lambda>_. ret ())
      else
        seq (ag_on_db ''autogen: list devices'' ListDevicesForProbeAutogen) (\<lambda>devices.
        seq (ag_on_db ''autogen: list networks'' ListNetworks) (\<lambda>nets.
        seq (for_each (sweep_device cfg (autos_by_name db0) nets) devices) (\<lambda>_.
        seq (for_each park_undesired (order (listed_autos db0))) (\<lambda>_. ret ())))))"

definition listed_sweep :: "probe_db \<Rightarrow> bool list \<Rightarrow> sweeping" where
  "listed_sweep db fs = (start_sweep db)\<lparr>ag_db := db\<lparr>db_faults := fs\<rparr>, ag_autoCount := int (length (listed_autos db))\<rparr>"

lemma sweep_run_cases:
  "(\<exists>err fs. sweep_run cfg order (start_sweep db) = (Inl err, (start_sweep db)\<lparr>ag_db := db\<lparr>db_faults := fs\<rparr>\<rparr>)) \<or>
   (\<exists>fs. sweep_run cfg order (start_sweep db) = sweep_rest cfg order db (listed_sweep db fs))"
proof -
  obtain r fs where run: "ag_on_db ''autogen: list targets'' ListProbeTargets (start_sweep db) = (r, (start_sweep db)\<lparr>ag_db := db\<lparr>db_faults := fs\<rparr>\<rparr>)"
    "\<And>xs. r = Inr xs \<Longrightarrow> xs = sort_by (\<lambda>a b. pt_ID a < pt_ID b) (db_targets db)"
    using list_targets_run by blast
  show ?thesis
  proof (cases r)
    case (Inl err)
    then show ?thesis using run(1) by (auto simp: sweep_run_def seq_def)
  next
    case (Inr xs)
    then have "sweep_run cfg order (start_sweep db) = sweep_rest cfg order db (listed_sweep db fs)"
      using run by (simp add: sweep_run_def seq_def set_state_def Let_def sweep_rest_def listed_sweep_def listed_autos_def autos_by_name_def)
    then show ?thesis by blast
  qed
qed

lemma listed_sweep_ok: "probe_inv db \<Longrightarrow> sweep_ok cfg db False (listed_sweep db fs)"
  using auto_inv_quiet [OF auto_inv_start quiet_faults, of db fs]
  by (simp add: sweep_ok_def listed_sweep_def length_listed_autos)

lemma sweep_rest_ok:
  assumes "\<And>xs. set (order xs) \<subseteq> set xs"
  shows "keeps (sweep_ok cfg db0 full) (sweep_rest cfg order db0)"
proof -
  have mem: "t \<in> set (db_targets db0) \<and> is_auto t" if "t \<in> set (order (listed_autos db0))" for t
    using that assms [of "listed_autos db0"] listed_autos_set [of db0] by auto
  have park: "keeps (sweep_ok cfg db0 full) (if pt_Enabled t = 1 then park t else ret ())" if "t \<in> set (order (listed_autos db0))" for t
    using mem [OF that] sweep_ok_park by (simp add: keeps_ret)
  have autos: "autos_by_name db0 nm = Some prev \<Longrightarrow> prev \<in> set (db_targets db0) \<and> is_auto prev" for nm prev using autos_by_name_mem by blast
  show ?thesis unfolding sweep_rest_def
    by (intro keeps_if keeps_seq keeps_ret keeps_for_each_in sweep_ok_db auto_reads park sweep_ok_device [OF autos] sweep_ok_undesired)
      (use mem in auto)
qed

lemma sweep_final_ok:
  assumes "probe_inv db" "\<And>xs. set (order xs) \<subseteq> set xs" "sweep_run cfg order (start_sweep db) = (r, s)"
  shows "\<exists>n. auto_inv db n (ag_db s) \<and>
    int (length (filter is_auto (db_targets db))) + int n \<le> max (int (length (filter is_auto (db_targets db)))) (ag_MaxTargets cfg)"
  using sweep_run_cases [of cfg order db]
proof (elim disjE exE)
  fix err fs assume "sweep_run cfg order (start_sweep db) = (Inl err, (start_sweep db)\<lparr>ag_db := db\<lparr>db_faults := fs\<rparr>\<rparr>)"
  then have "ag_db s = db\<lparr>db_faults := fs\<rparr>" using assms(3) by simp
  then show ?thesis using auto_inv_quiet [OF auto_inv_start [OF assms(1)] quiet_faults, of fs] by (intro exI [of _ 0]) simp
next
  fix fs assume "sweep_run cfg order (start_sweep db) = sweep_rest cfg order db (listed_sweep db fs)"
  then have "sweep_ok cfg db False s"
    using keeps_run [OF sweep_rest_ok [OF assms(2)] listed_sweep_ok [OF assms(1)]] assms(3) by metis
  then show ?thesis by (intro exI [of _ "nat (ag_created s)"]) (auto simp: sweep_ok_def Let_def)
qed

lemma autos_of_idents: "length (filter is_auto (db_targets db)) = length (filter (\<lambda>x. snd (snd x) = ProbeSourceAuto) (idents db))"
  by (simp add: idents_def filter_map o_def is_auto_def cong: filter_cong)

lemma auto_inv_count: "auto_inv db0 n db \<Longrightarrow> length (filter is_auto (db_targets db)) = length (filter is_auto (db_targets db0)) + n"
  unfolding autos_of_idents by (auto simp: auto_inv_def list_all_iff filter_id_conv)

text \<open>The items of all listed devices name their plans uniquely.\<close>

definition autogen_devices :: "probe_db \<Rightarrow> Device list" where
  "autogen_devices db = sort_by (\<lambda>a b. dev_ID a < dev_ID b) (filter (\<lambda>d. dev_DetectedServices d \<noteq> ''[]'' \<and> dev_DetectedServices d \<noteq> []) (db_devices db))"

definition wanted :: "ProbeAutogenConfig \<Rightarrow> probe_db \<Rightarrow> item list" where
  "wanted cfg db = concat (map (device_items cfg) (autogen_devices db))"

lemma device_item:
  "it \<in> set (device_items cfg d) \<Longrightarrow> \<exists>n p. 0 < p \<and> it = (autogenName (dev_ID d) n p, autogenPlan n (dev_IpAddress d) p)"
  by (auto simp: device_items_def service_items_def split: if_splits option.splits)

lemma wanted_functional:
  assumes "distinct (map dev_ID (db_devices db))" "\<And>d. d \<in> set (db_devices db) \<Longrightarrow> 0 \<le> dev_ID d"
  shows "functional_items (wanted cfg db)"
  unfolding functional_items_def
proof (intro ballI impI)
  fix a b assume ab: "a \<in> set (wanted cfg db)" "b \<in> set (wanted cfg db)" "fst a = fst b"
  obtain d d' where d: "d \<in> set (db_devices db)" "a \<in> set (device_items cfg d)" and d': "d' \<in> set (db_devices db)" "b \<in> set (device_items cfg d')"
    using ab(1,2) by (auto simp: wanted_def autogen_devices_def set_sort_by)
  obtain n p where a: "0 < p" "a = (autogenName (dev_ID d) n p, autogenPlan n (dev_IpAddress d) p)" using device_item [OF d(2)] by blast
  obtain n' p' where b: "0 < p'" "b = (autogenName (dev_ID d') n' p', autogenPlan n' (dev_IpAddress d') p')" using device_item [OF d'(2)] by blast
  have "dev_ID d = dev_ID d' \<and> n = n' \<and> p = p'"
    using autogenName_inj [of "dev_ID d" "dev_ID d'" p p' n n'] assms(2) [OF d(1)] assms(2) [OF d'(1)] a b ab(3) by simp
  moreover from this have "d = d'" using assms(1) d(1) d'(1) by (auto simp: distinct_map inj_on_def)
  ultimately show "a = b" using a(2) b(2) by simp
qed

lemma read_run: "ag_on_db w (stmt (get_state f)) s = (Inr x, s') \<Longrightarrow> \<exists>fs. s' = s\<lparr>ag_db := ag_db s\<lparr>db_faults := fs\<rparr>\<rparr> \<and> x = f (ag_db s\<lparr>db_faults := fs\<rparr>)"
proof -
  assume run: "ag_on_db w (stmt (get_state f)) s = (Inr x, s')"
  obtain r db' where r: "stmt (get_state f) (ag_db s) = (r, db')" by fastforce
  then have ok: "r = Inr x" "s' = s\<lparr>ag_db := db'\<rparr>" using run by (cases r; simp add: ag_on_db_def)+
  then show ?thesis using stmt_effect [OF r] by (auto simp: get_state_def)
qed

lemma conv_start: "conv db [] (listed_sweep db fs)"
  by (auto simp: conv_def listed_sweep_def)

text \<open>A sweep that returns no error ends with the wanted targets enabled and the others parked.\<close>

lemma sweep_rest_parked:
  assumes db: "probe_inv db" and order: "\<And>xs. set (order xs) = set xs" and on: "ag_Enabled cfg"
    and fit: "functional_items (wanted cfg db)"
    and run: "sweep_rest cfg order db (listed_sweep db fs) = (Inr (), s)" and cap: "\<not> capped cfg s"
  shows "sweep_ok cfg db False s \<and> parked db (wanted cfg db) (rev (order (listed_autos db))) s"
proof -
  let ?s0 = "listed_sweep db fs"
  obtain devices s1 nets s2 ys s3 zs where
      s1: "ag_on_db ''autogen: list devices'' ListDevicesForProbeAutogen ?s0 = (Inr devices, s1)"
    and s2: "ag_on_db ''autogen: list networks'' ListNetworks s1 = (Inr nets, s2)"
    and s3: "for_each (sweep_device cfg (autos_by_name db) nets) devices s2 = (Inr ys, s3)"
    and s4: "for_each park_undesired (order (listed_autos db)) s3 = (Inr zs, s)"
    using run on unfolding sweep_rest_def by (auto simp: ret_def dest!: seq_okD)
  have dv: "devices = autogen_devices db" and at2: "\<exists>gs. s2 = listed_sweep db gs"
    using read_run [OF s1 [unfolded ListDevicesForProbeAutogen_def]] read_run [OF s2 [unfolded ListNetworks_def]]
    by (auto simp: autogen_devices_def listed_sweep_def)
  have ok2: "sweep_ok cfg db False s2" and conv2: "conv db [] s2" using at2 listed_sweep_ok [OF db] conv_start by auto
  have autos: "autos_by_name db nm = Some prev \<Longrightarrow> prev \<in> set (db_targets db) \<and> is_auto prev" for nm prev using autos_by_name_mem by blast
  have mem: "t \<in> set (db_targets db) \<and> is_auto t" if "t \<in> set (order (listed_autos db))" for t
    using that by (simp add: order listed_autos_set)
  have k3: "keeps (sweep_ok cfg db full) (for_each (sweep_device cfg (autos_by_name db) nets) devices)" for full
    by (intro keeps_for_each sweep_ok_device [OF autos])
  have k4: "keeps (sweep_ok cfg db full) (for_each park_undesired (order (listed_autos db)))" for full
    by (intro keeps_for_each_in sweep_ok_undesired) (use mem in auto)
  have ok3: "sweep_ok cfg db False s3" by (rule keeps_run [OF k3 ok2 s3])
  have ok4: "sweep_ok cfg db False s" by (rule keeps_run [OF k4 ok3 s4])
  have "\<not> capped cfg s3"
  proof
    assume "capped cfg s3"
    then have "sweep_ok cfg db True s3" using ok3 by (simp add: sweep_ok_def Let_def)
    then have "sweep_ok cfg db True s" by (rule keeps_run [OF k4 _ s4])
    then show False using cap by (simp add: sweep_ok_def Let_def)
  qed
  then have "conv db (wanted cfg db) s3"
    using devices_conv [OF db ok2 _ _ s3, of "[]"] conv2 fit by (simp add: dv wanted_def)
  then have "parked db (wanted cfg db) [] s3" using conv_parked sweep_ok_inv [OF ok3] by blast
  then have "parked db (wanted cfg db) (rev (order (listed_autos db)) @ []) s" by (rule parked_all [OF ok3 _ mem s4])
  then show ?thesis using ok4 by simp
qed

lemma parked_exact:
  assumes ok: "sweep_ok cfg db False s" and pk: "parked db its ts s" and all: "\<And>t. t \<in> set (db_targets db) \<Longrightarrow> is_auto t \<Longrightarrow> t \<in> set ts"
  shows "(\<lambda>t. (pt_Name t, pt_Module t, pt_Target t)) ` {t \<in> set (db_targets (ag_db s)). is_auto t \<and> pt_Enabled t \<noteq> 0} = set its"
proof -
  have ai: "auto_inv db (nat (ag_created s)) (ag_db s)" and inv: "probe_inv (ag_db s)" using sweep_ok_inv [OF ok] by auto
  have sats: "\<exists>t \<in> set (db_targets (ag_db s)). is_auto t \<and> pt_Enabled t \<noteq> 0 \<and> (pt_Name t, pt_Module t, pt_Target t) = it" if "it \<in> set its" for it
  proof -
    have "sat (ag_db s) it" using pk that by (simp add: parked_def list_all_iff)
    then show ?thesis unfolding sat_def by (auto simp: prod_eq_iff)
  qed
  have "(pt_Name t, pt_Module t, pt_Target t) \<in> set its" if t: "t \<in> set (db_targets (ag_db s))" "is_auto t" "pt_Enabled t \<noteq> 0" for t
  proof -
    have "pt_Name t \<in> ag_desired s"
    proof (cases "pt_ID t \<in> pt_ID ` set (db_targets db)")
      case True
      then obtain w where w: "w \<in> set (db_targets db)" "pt_ID t = pt_ID w" by auto
      have same: "pt_Name t = pt_Name w" "is_auto w" using auto_row [OF ai w(1) t(1) w(2)] t(2) by (auto simp: is_auto_def)
      show ?thesis using pk all [OF w(1) same(2)] t w(2) same(1) unfolding parked_def by metis
    next
      case False
      then show ?thesis using pk t(1) unfolding parked_def by blast
    qed
    then obtain it where it: "it \<in> set its" "pt_Name t = fst it" using pk by (auto simp: parked_def)
    obtain u where u: "u \<in> set (db_targets (ag_db s))" "(pt_Name u, pt_Module u, pt_Target u) = it" using sats [OF it(1)] by blast
    then have "u = t" using same_name [OF inv u(1) t(1)] it(2) by auto
    then show ?thesis using u it(1) by simp
  qed
  then show ?thesis using sats by (fastforce simp: image_iff)
qed

lemma autogen_sweep_run:
  "autogen_sweep cfg order db = ((c, en, di, err), db') \<Longrightarrow>
   \<exists>r s. sweep_run cfg order (start_sweep db) = (r, s) \<and> ag_db s = db' \<and> ag_created s = c \<and> (err = None \<longleftrightarrow> r = Inr ())"
  by (cases "sweep_run cfg order (start_sweep db)") (auto simp: autogen_sweep_def split: sum.splits)

lemma is_auto_eq: "is_auto = (\<lambda>t. pt_Source t = ProbeSourceAuto)"
  by (simp add: fun_eq_iff is_auto_def)

subsection \<open>A sweep at the cap\<close>

text \<open>Following a target does not look at the names wanted so far.\<close>

definition blind :: "unit aprog \<Rightarrow> bool" where
  "blind m \<longleftrightarrow> (\<forall>s X. m (s\<lparr>ag_desired := X\<rparr>) = (fst (m s), snd (m s)\<lparr>ag_desired := X\<rparr>))"

lemma blindD: "blind m \<Longrightarrow> m s = (r, s') \<Longrightarrow> m (s\<lparr>ag_desired := X\<rparr>) = (r, s'\<lparr>ag_desired := X\<rparr>)"
  by (simp add: blind_def)

lemma blind_seq: "blind m \<Longrightarrow> blind f \<Longrightarrow> blind (seq m (\<lambda>_. f))"
  by (auto simp: blind_def seq_def split: prod.splits sum.splits)

lemma blind_on_db: "blind (seq (ag_on_db w m) (\<lambda>_. ret ()))"
  by (auto simp: blind_def seq_def ag_on_db_def ret_def split: prod.splits sum.splits)

lemma blind_toggle: "blind (seq (ag_on_db w m) (\<lambda>_. set_state (\<lambda>s. s\<lparr>ag_enabled := ag_enabled s + 1\<rparr>)))"
  by (auto simp: blind_def seq_def ag_on_db_def set_state_def split: prod.splits sum.splits)

lemma blind_park: "blind (park t)"
  by (auto simp: blind_def park_def seq_def ag_on_db_def set_state_def split: prod.splits sum.splits)

lemma blind_ret: "blind (ret ())"
  by (simp add: blind_def ret_def)

lemma blind_if: "blind m \<Longrightarrow> blind m' \<Longrightarrow> blind (if b then m else m')"
  by simp

lemma blind_follow: "blind (follow prev nm plan v d)"
  unfolding follow_def by (intro blind_seq blind_if blind_on_db blind_toggle blind_ret)

text \<open>
  At the cap the names wanted are those of the items visited and those of new services, which have no
  target; up to the latter the sweep is in the state of one that converges to the items.
\<close>

definition near :: "probe_db \<Rightarrow> item list \<Rightarrow> sweeping \<Rightarrow> bool" where
  "near db0 its s \<longleftrightarrow> conv db0 its (s\<lparr>ag_desired := fst ` set its\<rparr>) \<and>
     (\<exists>X. ag_desired s = fst ` set its \<union> X \<and> (\<forall>n \<in> X. autos_by_name db0 n = None))"

definition has_target :: "probe_db \<Rightarrow> item \<Rightarrow> bool" where
  "has_target db it \<longleftrightarrow> list_ex (\<lambda>t. pt_Source t = ProbeSourceAuto \<and> pt_Name t = fst it) (db_targets db)"

lemma has_target_iff: "has_target db it \<longleftrightarrow> autos_by_name db (fst it) \<noteq> None"
proof -
  have "autos_by_name db (fst it) \<noteq> None \<longleftrightarrow> fst it \<in> fst ` set (rev (map (\<lambda>t. (pt_Name t, t)) (listed_autos db)))"
    unfolding autos_by_name_def by (simp add: map_of_eq_None_iff del: set_rev)
  also have "\<dots> \<longleftrightarrow> has_target db it"
    using listed_autos_set [of db] by (auto simp: has_target_def list_ex_iff is_auto_def image_iff)
  finally show ?thesis ..
qed

lemma near_services:
  assumes db0: "probe_inv db0"
  shows "sweep_ok cfg db0 True s \<Longrightarrow> near db0 its s \<Longrightarrow> functional_items (its @ service_items cfg d svcs) \<Longrightarrow>
    sweep_services cfg (autos_by_name db0) v d svcs s = (Inr (), s') \<Longrightarrow> near db0 (its @ takeWhile (has_target db0) (service_items cfg d svcs)) s'"
proof (induction svcs arbitrary: s its)
  case Nil
  then show ?case by (simp add: ret_def service_items_def)
next
  case (Cons svc svcs)
  obtain sn port where svc: "svc = (sn, port)" by fastforce
  let ?nm = "autogenName (dev_ID d) (to_lower sn) port" and ?plan = "autogenPlan (to_lower sn) (dev_IpAddress d) port"
  let ?skip = "ag_Services cfg \<noteq> [] \<and> to_lower sn \<notin> set (map (\<lambda>s. to_lower (trim_space s)) (ag_Services cfg)) \<or> port \<le> 0"
  let ?rest = "sweep_services cfg (autos_by_name db0) v d svcs"
  show ?case
  proof (cases ?skip)
    case True
    then have "service_items cfg d (svc # svcs) = service_items cfg d svcs" "?rest s = (Inr (), s')"
      using Cons.prems(4) by (auto simp: service_items_def svc Let_def split: if_splits)
    then show ?thesis using Cons.IH [of s its] Cons.prems by simp
  next
    case False
    let ?s = "s\<lparr>ag_desired := insert ?nm (ag_desired s)\<rparr>"
    have items: "service_items cfg d (svc # svcs) = (?nm, ?plan) # service_items cfg d svcs"
      using False by (auto simp: service_items_def svc)
    have okS: "sweep_ok cfg db0 True ?s" using Cons.prems(1) by (auto simp: sweep_ok_def Let_def)
    have run: "(case autos_by_name db0 ?nm of Some prev \<Rightarrow> seq (follow prev ?nm ?plan v (dev_ID d)) (\<lambda>_. ?rest)
        | None \<Rightarrow> seq (get_state ag_autoCount) (\<lambda>n. if ag_MaxTargets cfg \<le> n then ret () else seq (generate cfg ?nm ?plan v (dev_ID d)) (\<lambda>_. ?rest))) ?s = (Inr (), s')"
      using Cons.prems(4) False by (auto simp: svc Let_def seq_def set_state_def)
    obtain X where X: "ag_desired s = fst ` set its \<union> X" "\<forall>n \<in> X. autos_by_name db0 n = None"
      and conv: "conv db0 its (s\<lparr>ag_desired := fst ` set its\<rparr>)" using Cons.prems(2) by (auto simp: near_def)
    show ?thesis
    proof (cases "autos_by_name db0 ?nm")
      case (Some prev)
      then obtain s1 where s1: "follow prev ?nm ?plan v (dev_ID d) ?s = (Inr (), s1)" "?rest s1 = (Inr (), s')"
        using run seq_okD [of "follow prev ?nm ?plan v (dev_ID d)" "\<lambda>_. ?rest" ?s] by auto
      have prev: "prev \<in> set (db_targets db0)" "is_auto prev" "pt_Name prev = ?nm" using autos_by_name_mem [OF Some] by auto
      have fit: "functional_items (its @ [(?nm, ?plan)])" using Cons.prems(3) unfolding items by (rule functional_sub) auto
      let ?c = "s\<lparr>ag_desired := fst ` set its\<rparr>" and ?D = "insert ?nm (fst ` set its)"
      have run': "follow prev ?nm ?plan v (dev_ID d) (?c\<lparr>ag_desired := insert ?nm (ag_desired ?c)\<rparr>) = (Inr (), s1\<lparr>ag_desired := ?D\<rparr>)"
        using blindD [OF blind_follow s1(1), of ?D] by simp
      have "sweep_ok cfg db0 True ?c" using Cons.prems(1) by (auto simp: sweep_ok_def Let_def)
      then have c1: "conv db0 (its @ [(?nm, ?plan)]) (s1\<lparr>ag_desired := ?D\<rparr>)" by (rule conv_follow [OF _ db0 conv prev fit run'])
      have "s1 = s1\<lparr>ag_desired := ag_desired ?s\<rparr>" using blindD [OF blind_follow s1(1), of "ag_desired ?s"] s1(1) by simp
      then have d1: "ag_desired s1 = ag_desired ?s" by (metis sweeping.select_convs(6) sweeping.surjective sweeping.update_convs(6))
      have D: "fst ` set (its @ [(?nm, ?plan)]) = ?D" by simp
      have "ag_desired s1 = ?D \<union> X" using d1 X(1) by simp
      then have "near db0 (its @ [(?nm, ?plan)]) s1" unfolding near_def D using c1 X(2) by blast
      moreover have "sweep_ok cfg db0 True s1" by (rule keeps_run [OF sweep_ok_follow [OF prev(1,2)] okS s1(1)])
      moreover have "has_target db0 (?nm, ?plan)" using Some by (simp add: has_target_iff)
      ultimately show ?thesis using Cons.IH [of s1 "its @ [(?nm, ?plan)]"] Cons.prems(3) s1(2) by (simp add: items)
    next
      case None
      have "capped cfg s" using Cons.prems(1) by (simp add: sweep_ok_def Let_def)
      then have s': "s' = ?s" using run None by (simp add: seq_def get_state_def ret_def)
      have "\<not> has_target db0 (?nm, ?plan)" using None by (simp add: has_target_iff)
      moreover have "near db0 its ?s"
        unfolding near_def using conv X None by (auto intro!: exI [of _ "insert ?nm X"])
      ultimately show ?thesis by (simp add: items s')
    qed
  qed
qed

definition capped_items :: "ProbeAutogenConfig \<Rightarrow> probe_db \<Rightarrow> Device \<Rightarrow> item list" where
  "capped_items cfg db d = takeWhile (has_target db) (device_items cfg d)"

lemma near_devices:
  assumes db0: "probe_inv db0"
  shows "sweep_ok cfg db0 True s \<Longrightarrow> near db0 its s \<Longrightarrow> functional_items (its @ concat (map (device_items cfg) ds)) \<Longrightarrow>
    for_each (sweep_device cfg (autos_by_name db0) nets) ds s = (Inr ys, s') \<Longrightarrow>
    near db0 (its @ concat (map (capped_items cfg db0) ds)) s'"
proof (induction ds arbitrary: s its ys)
  case (Cons d ds)
  let ?f = "sweep_device cfg (autos_by_name db0) nets"
  obtain s1 ys1 where s1: "?f d s = (Inr (), s1)" "for_each ?f ds s1 = (Inr ys1, s')"
    using for_each_okD [OF Cons.prems(4)] by auto
  have autos: "autos_by_name db0 nm = Some prev \<Longrightarrow> prev \<in> set (db_targets db0) \<and> is_auto prev" for nm prev using autos_by_name_mem by blast
  have ok: "sweep_ok cfg db0 True s1" by (rule keeps_run [OF sweep_ok_device [OF autos] Cons.prems(1) s1(1)])
  have sub: "set (capped_items cfg db0 d) \<subseteq> set (device_items cfg d)" by (auto simp: capped_items_def dest: set_takeWhileD)
  have fit: "functional_items (its @ device_items cfg d)" using Cons.prems(3) by (rule functional_sub) auto
  have "near db0 (its @ capped_items cfg db0 d) s1"
  proof (cases "(ag_DeviceTypes cfg \<noteq> [] \<and> dev_Type d \<notin> set (ag_DeviceTypes cfg)) \<or> dev_IpAddress d = [] \<or> detected (dev_DetectedServices d) = None")
    case True
    then have "s1 = s" "device_items cfg d = []" using s1(1) by (auto simp: sweep_device_def device_items_def ret_def split: if_splits)
    then show ?thesis using Cons.prems(2) by (simp add: capped_items_def)
  next
    case False
    then obtain svcs where svcs: "detected (dev_DetectedServices d) = Some svcs" by auto
    then have "device_items cfg d = service_items cfg d svcs"
      "sweep_services cfg (autos_by_name db0) (vantageFor nets (dev_NetworkID d)) d svcs s = (Inr (), s1)"
      using False s1(1) by (auto simp: sweep_device_def device_items_def)
    then show ?thesis using near_services [OF db0 Cons.prems(1,2)] fit by (simp add: capped_items_def)
  qed
  moreover have "functional_items ((its @ capped_items cfg db0 d) @ concat (map (device_items cfg) ds))"
    using Cons.prems(3) by (rule functional_sub) (use sub in auto)
  ultimately show ?case using Cons.IH [OF ok _ _ s1(2), of "its @ capped_items cfg db0 d"] by simp
qed (simp add: ret_def)

text \<open>Parking with the additional names is parking without them.\<close>

lemma park_near:
  assumes "ag_desired s = D \<union> X" "\<forall>n \<in> X. autos_by_name db0 n = None" "t \<in> set (db_targets db0)" "is_auto t" "park_undesired t s = (Inr (), s')"
  shows "park_undesired t (s\<lparr>ag_desired := D\<rparr>) = (Inr (), s'\<lparr>ag_desired := D\<rparr>) \<and> ag_desired s' = ag_desired s"
proof -
  have "pt_Name t \<notin> X" using assms(2-4) autos_by_name_dom by blast
  then have same: "pt_Name t \<in> ag_desired s \<longleftrightarrow> pt_Name t \<in> D" using assms(1) by auto
  have "ag_desired (snd (park t s)) = ag_desired s"
    by (auto simp: park_def seq_def ag_on_db_def set_state_def split: prod.splits sum.splits)
  then show ?thesis
    using assms(5) same blindD [OF blind_park, of t s "Inr ()" s' D]
    by (auto simp: park_undesired_def seq_def get_state_def ret_def split: if_splits)
qed

lemma parks_near:
  assumes "\<forall>n \<in> X. autos_by_name db0 n = None" "\<And>t. t \<in> set us \<Longrightarrow> t \<in> set (db_targets db0) \<and> is_auto t"
  shows "ag_desired s = D \<union> X \<Longrightarrow> for_each park_undesired us s = (Inr ys, s') \<Longrightarrow>
    \<exists>zs. for_each park_undesired us (s\<lparr>ag_desired := D\<rparr>) = (Inr zs, s'\<lparr>ag_desired := D\<rparr>)"
  using assms(2)
proof (induction us arbitrary: s ys)
  case (Cons u us)
  obtain s1 ys1 where s1: "park_undesired u s = (Inr (), s1)" "for_each park_undesired us s1 = (Inr ys1, s')"
    using for_each_okD [OF Cons.prems(2)] by auto
  have "park_undesired u (s\<lparr>ag_desired := D\<rparr>) = (Inr (), s1\<lparr>ag_desired := D\<rparr>) \<and> ag_desired s1 = ag_desired s"
    using park_near [OF Cons.prems(1) assms(1) _ _ s1(1)] Cons.prems(3) by simp
  then show ?case using Cons.IH [OF _ s1(2)] Cons.prems(1,3) by (force simp: seq_def ret_def)
qed (simp add: ret_def)

lemma sweep_ok_desired: "sweep_ok cfg db0 full (s\<lparr>ag_desired := X\<rparr>) = sweep_ok cfg db0 full s"
  by (simp add: sweep_ok_def Let_def)

lemma capped_parked:
  assumes db: "probe_inv db" and order: "\<And>xs. set (order xs) = set xs" and on: "ag_Enabled cfg"
    and fit: "functional_items (wanted cfg db)"
    and run: "sweep_rest cfg order db (listed_sweep db fs) = (Inr (), s)" and cap: "ag_MaxTargets cfg \<le> int (length (listed_autos db))"
  shows "\<exists>D. sweep_ok cfg db False (s\<lparr>ag_desired := D\<rparr>) \<and>
    parked db (concat (map (capped_items cfg db) (autogen_devices db))) (rev (order (listed_autos db))) (s\<lparr>ag_desired := D\<rparr>)"
proof -
  let ?s0 = "listed_sweep db fs" and ?its = "concat (map (capped_items cfg db) (autogen_devices db))"
  obtain devices s1 nets s2 ys s3 zs where
      s1: "ag_on_db ''autogen: list devices'' ListDevicesForProbeAutogen ?s0 = (Inr devices, s1)"
    and s2: "ag_on_db ''autogen: list networks'' ListNetworks s1 = (Inr nets, s2)"
    and s3: "for_each (sweep_device cfg (autos_by_name db) nets) devices s2 = (Inr ys, s3)"
    and s4: "for_each park_undesired (order (listed_autos db)) s3 = (Inr zs, s)"
    using run on unfolding sweep_rest_def by (auto simp: ret_def dest!: seq_okD)
  have dv: "devices = autogen_devices db" and at2: "\<exists>gs. s2 = listed_sweep db gs"
    using read_run [OF s1 [unfolded ListDevicesForProbeAutogen_def]] read_run [OF s2 [unfolded ListNetworks_def]]
    by (auto simp: autogen_devices_def listed_sweep_def)
  have full: "sweep_ok cfg db True s2" using at2 listed_sweep_ok [OF db] cap by (auto simp: sweep_ok_def listed_sweep_def Let_def)
  have near2: "near db [] s2" using at2 conv_start by (auto simp: near_def listed_sweep_def)
  have autos: "autos_by_name db nm = Some prev \<Longrightarrow> prev \<in> set (db_targets db) \<and> is_auto prev" for nm prev using autos_by_name_mem by blast
  have mem: "t \<in> set (db_targets db) \<and> is_auto t" if "t \<in> set (order (listed_autos db))" for t
    using that by (simp add: order listed_autos_set)
  have k3: "keeps (sweep_ok cfg db True) (for_each (sweep_device cfg (autos_by_name db) nets) devices)"
    by (intro keeps_for_each sweep_ok_device [OF autos])
  have k4: "keeps (sweep_ok cfg db True) (for_each park_undesired (order (listed_autos db)))"
    by (intro keeps_for_each_in sweep_ok_undesired) (use mem in auto)
  have ok3: "sweep_ok cfg db True s3" by (rule keeps_run [OF k3 full s3])
  have ok4: "sweep_ok cfg db True s" by (rule keeps_run [OF k4 ok3 s4])
  have "near db ([] @ concat (map (capped_items cfg db) devices)) s3"
    by (rule near_devices [OF db full near2 _ s3]) (use fit in \<open>simp add: dv wanted_def\<close>)
  then have "near db ?its s3" by (simp add: dv)
  then obtain X where X: "ag_desired s3 = fst ` set ?its \<union> X" "\<forall>n \<in> X. autos_by_name db n = None"
    and conv: "conv db ?its (s3\<lparr>ag_desired := fst ` set ?its\<rparr>)" unfolding near_def by blast
  let ?D = "fst ` set ?its"
  obtain ws where parks: "for_each park_undesired (order (listed_autos db)) (s3\<lparr>ag_desired := ?D\<rparr>) = (Inr ws, s\<lparr>ag_desired := ?D\<rparr>)"
    using parks_near [OF X(2) mem X(1) s4] by blast
  have ok3': "sweep_ok cfg db True (s3\<lparr>ag_desired := ?D\<rparr>)" using ok3 by (simp add: sweep_ok_desired)
  then have "parked db ?its [] (s3\<lparr>ag_desired := ?D\<rparr>)" using conv_parked [OF _ conv] sweep_ok_inv by blast
  then have "parked db ?its (rev (order (listed_autos db)) @ []) (s\<lparr>ag_desired := ?D\<rparr>)" by (rule parked_all [OF ok3' _ mem parks])
  moreover have "sweep_ok cfg db False (s\<lparr>ag_desired := ?D\<rparr>)" using ok4 by (simp add: sweep_ok_def Let_def)
  ultimately show ?thesis by (intro exI [of _ ?D]) simp
qed

subsection \<open>Properties\<close>

text \<open>
  C27.  Whatever statements fail on the way, a sweep keeps the invariant of the database, leaves every
  target that is not its own as it was, writes no result and no certificate, deletes nothing, and
  never lets its own targets outgrow the configured cap unless they already did before.
\<close>

theorem autogen_touches_own:
  assumes "probe_inv db" "\<And>xs. set (order xs) = set xs"
  shows "case autogen_sweep cfg order db of (res, db') \<Rightarrow>
    probe_inv db' \<and>
    filter (\<lambda>t. pt_Source t \<noteq> ProbeSourceAuto) (db_targets db') = filter (\<lambda>t. pt_Source t \<noteq> ProbeSourceAuto) (db_targets db) \<and>
    db_results db' = db_results db \<and> db_certs db' = db_certs db \<and>
    pt_ID ` set (db_targets db) \<subseteq> pt_ID ` set (db_targets db') \<and>
    int (length (filter (\<lambda>t. pt_Source t = ProbeSourceAuto) (db_targets db'))) \<le>
      max (int (length (filter (\<lambda>t. pt_Source t = ProbeSourceAuto) (db_targets db)))) (ag_MaxTargets cfg)"
proof -
  obtain c en di err db' where res: "autogen_sweep cfg order db = ((c, en, di, err), db')" by (metis prod_cases5 prod.collapse)
  obtain r s where run: "sweep_run cfg order (start_sweep db) = (r, s)" "ag_db s = db'" using autogen_sweep_run [OF res] by blast
  obtain n where n: "auto_inv db n db'" "int (length (filter is_auto (db_targets db))) + int n \<le> max (int (length (filter is_auto (db_targets db)))) (ag_MaxTargets cfg)"
    using sweep_final_ok [OF assms(1) _ run(1)] assms(2) run(2) by auto
  have "pt_ID ` set (db_targets db) = fst ` set (idents db)" for db by (auto simp: idents_def image_image)
  then have "pt_ID ` set (db_targets db) \<subseteq> pt_ID ` set (db_targets db')" using n(1) by (auto simp: auto_inv_def)
  then show ?thesis using n auto_inv_count [OF n(1)] unfolding res by (simp add: auto_inv_def is_auto_eq)
qed

text \<open>
  C26.  A sweep that returns no error, ran with the feature on and stayed below its cap has converged:
  the targets of its own that are enabled are exactly those of the services the scans found on the
  devices that pass the filters, each with the module and the address of its service.
\<close>

theorem autogen_converges:
  assumes "probe_inv db" "\<And>xs. set (order xs) = set xs" "ag_Enabled cfg"
    and "distinct (map dev_ID (db_devices db))" "\<And>d. d \<in> set (db_devices db) \<Longrightarrow> 0 \<le> dev_ID d"
    and "autogen_sweep cfg order db = ((c, en, di, None), db')"
    and "int (length (filter (\<lambda>t. pt_Source t = ProbeSourceAuto) (db_targets db))) + c < ag_MaxTargets cfg"
  shows "(\<lambda>t. (pt_Name t, pt_Module t, pt_Target t)) `
      {t \<in> set (db_targets db'). pt_Source t = ProbeSourceAuto \<and> pt_Enabled t \<noteq> 0} = set (wanted cfg db)"
proof -
  obtain r s where run: "sweep_run cfg order (start_sweep db) = (Inr (), s)" "ag_db s = db'" "ag_created s = c"
    using autogen_sweep_run [OF assms(6)] by auto
  obtain fs where rest: "sweep_rest cfg order db (listed_sweep db fs) = (Inr (), s)"
    using sweep_run_cases [of cfg order db] run(1) by auto
  have ok: "sweep_ok cfg db False s"
    by (rule keeps_run [OF sweep_rest_ok listed_sweep_ok [OF assms(1)] rest]) (simp add: assms(2))
  have "\<not> capped cfg s" using ok run(3) assms(7) by (simp add: sweep_ok_def Let_def is_auto_eq)
  then have "parked db (wanted cfg db) (rev (order (listed_autos db))) s"
    using sweep_rest_parked [OF assms(1,2,3) wanted_functional [OF assms(4,5)] rest] by blast
  then show ?thesis
    using parked_exact [OF ok] run(2) assms(2) listed_autos_set [of db] by (simp add: is_auto_def)
qed

text \<open>An inventory with one device, which runs two services, and a policy.\<close>

definition demo_policy :: ProbeAutogenConfig where
  "demo_policy = \<lparr>ag_Enabled = True, ag_Services = [], ag_DeviceTypes = [], ag_IntervalSeconds = 300, ag_MaxTargets = 5, ag_SweepIntervalMinutes = 15\<rparr>"

definition demo_device :: Device where
  "demo_device = \<lparr>dev_ID = 1, dev_DeviceUuid = ''u'', dev_Name = ''box'', dev_Type = ''pc'', dev_Brand = [], dev_Model = [],
     dev_Status = ''online'', dev_IpAddress = ''10.0.0.5'', dev_MacAddress = [], dev_OpenPorts = [],
     dev_DetectedServices = ''[{\"name\":\"HTTP\",\"port\":80},{\"name\":\"ssh\",\"port\":22}]'',
     dev_PrometheusUrl = [], dev_NodeExporterUrl = [], dev_ScanAttributes = [], dev_NetworkID = None\<rparr>"

definition demo_inventory :: probe_db where
  "demo_inventory = demo_db\<lparr>db_devices := [demo_device]\<rparr>"

lemma demo_inventory_inv: "probe_inv demo_inventory"
  using demo_db_inv by (simp add: demo_inventory_def probe_ok_defs)

lemma demo_sweep: "fst (autogen_sweep demo_policy id demo_inventory) = (2, 0, 0, None)"
  by code_simp

theorem autogen_touches_own_witness:
  "probe_inv (snd (autogen_sweep demo_policy id demo_inventory)) \<and>
   filter (\<lambda>t. pt_Source t \<noteq> ProbeSourceAuto) (db_targets (snd (autogen_sweep demo_policy id demo_inventory))) =
     filter (\<lambda>t. pt_Source t \<noteq> ProbeSourceAuto) (db_targets demo_inventory)"
  using autogen_touches_own [of demo_inventory id demo_policy] demo_inventory_inv by (simp add: split_beta)

theorem autogen_converges_witness:
  "(\<lambda>t. (pt_Name t, pt_Module t, pt_Target t)) `
      {t \<in> set (db_targets (snd (autogen_sweep demo_policy id demo_inventory))). pt_Source t = ProbeSourceAuto \<and> pt_Enabled t \<noteq> 0} =
   {(''auto-d1-http-80'', ''http'', ''http://10.0.0.5:80/''), (''auto-d1-ssh-22'', ''tcp'', ''10.0.0.5:22'')}"
proof -
  let ?res = "autogen_sweep demo_policy id demo_inventory"
  have "?res = ((2, 0, 0, None), snd ?res)" using demo_sweep by (metis prod.collapse)
  moreover have "int (length (filter (\<lambda>t. pt_Source t = ProbeSourceAuto) (db_targets demo_inventory))) + 2 < ag_MaxTargets demo_policy" by code_simp
  moreover have "set (wanted demo_policy demo_inventory) =
      {(''auto-d1-http-80'', ''http'', ''http://10.0.0.5:80/''), (''auto-d1-ssh-22'', ''tcp'', ''10.0.0.5:22'')}" by code_simp
  ultimately show ?thesis
    using autogen_converges [of demo_inventory id demo_policy 2 0 0 "snd ?res"] demo_inventory_inv
    by (simp add: demo_policy_def demo_inventory_def demo_device_def)
qed

text \<open>
  C28.  At the cap a sweep does more than skip new services.  When the sweep starts with as many targets of its own as
  the cap allows and returns no error, the ones enabled in the end are, for each device, those of
  the services listed before the first service that has no target yet.  The targets of services
  listed after it are parked although the services are still there.
\<close>

theorem autogen_cap_parks:
  assumes "probe_inv db" "\<And>xs. set (order xs) = set xs" "ag_Enabled cfg"
    and "distinct (map dev_ID (db_devices db))" "\<And>d. d \<in> set (db_devices db) \<Longrightarrow> 0 \<le> dev_ID d"
    and "autogen_sweep cfg order db = ((c, en, di, None), db')"
    and "ag_MaxTargets cfg \<le> int (length (filter (\<lambda>t. pt_Source t = ProbeSourceAuto) (db_targets db)))"
  shows "(\<lambda>t. (pt_Name t, pt_Module t, pt_Target t)) `
      {t \<in> set (db_targets db'). pt_Source t = ProbeSourceAuto \<and> pt_Enabled t \<noteq> 0} =
    (\<Union>d \<in> set (autogen_devices db). set (takeWhile (has_target db) (device_items cfg d)))"
proof -
  obtain r s where run: "sweep_run cfg order (start_sweep db) = (Inr (), s)" "ag_db s = db'" "ag_created s = c"
    using autogen_sweep_run [OF assms(6)] by auto
  obtain fs where rest: "sweep_rest cfg order db (listed_sweep db fs) = (Inr (), s)"
    using sweep_run_cases [of cfg order db] run(1) by auto
  have "ag_MaxTargets cfg \<le> int (length (listed_autos db))" using assms(7) by (simp add: length_listed_autos is_auto_eq)
  from capped_parked [OF assms(1-3) wanted_functional [OF assms(4,5)] rest this] obtain D where
    D: "sweep_ok cfg db False (s\<lparr>ag_desired := D\<rparr>)"
      "parked db (concat (map (capped_items cfg db) (autogen_devices db))) (rev (order (listed_autos db))) (s\<lparr>ag_desired := D\<rparr>)" by blast
  then show ?thesis
    using parked_exact [OF D] run(2) assms(2) listed_autos_set [of db] by (simp add: is_auto_def capped_items_def)
qed

text \<open>The device had one service, which has its target, when a second one shows up before it.\<close>

definition demo_full :: probe_db where
  "demo_full = (snd (autogen_sweep (demo_policy\<lparr>ag_MaxTargets := 1\<rparr>) id
     (demo_inventory\<lparr>db_devices := [demo_device\<lparr>dev_DetectedServices := ''[{\"name\":\"ssh\",\"port\":22}]''\<rparr>]\<rparr>)))\<lparr>db_devices := [demo_device]\<rparr>"

lemma autogen_sweep_inv: "probe_inv db \<Longrightarrow> probe_inv (snd (autogen_sweep cfg id db))"
proof -
  assume db: "probe_inv db"
  obtain c en di err db' where res: "autogen_sweep cfg id db = ((c, en, di, err), db')" by (metis prod_cases5 prod.collapse)
  then obtain r s where run: "sweep_run cfg id (start_sweep db) = (r, s)" "ag_db s = db'" using autogen_sweep_run by blast
  obtain n where "auto_inv db n (ag_db s)" using sweep_final_ok [OF db _ run(1)] by auto
  then show "probe_inv (snd (autogen_sweep cfg id db))" using run(2) res by (simp add: auto_inv_def)
qed

lemma demo_full_inv: "probe_inv demo_full"
proof -
  have "probe_inv (demo_inventory\<lparr>db_devices := ds\<rparr>)" for ds using demo_inventory_inv by (simp add: probe_ok_defs)
  from autogen_sweep_inv [OF this] show ?thesis unfolding demo_full_def by (simp add: probe_ok_defs)
qed

theorem autogen_cap_parks_witness:
  "map (\<lambda>t. (pt_Name t, pt_Enabled t)) (filter (\<lambda>t. pt_Source t = ProbeSourceAuto) (db_targets demo_full)) = [(''auto-d1-ssh-22'', 1)] \<and>
   (''auto-d1-ssh-22'', ''tcp'', ''10.0.0.5:22'') \<in> set (wanted (demo_policy\<lparr>ag_MaxTargets := 1\<rparr>) demo_full) \<and>
   {t \<in> set (db_targets (snd (autogen_sweep (demo_policy\<lparr>ag_MaxTargets := 1\<rparr>) id demo_full))). pt_Source t = ProbeSourceAuto \<and> pt_Enabled t \<noteq> 0} = {}"
proof -
  let ?cfg = "demo_policy\<lparr>ag_MaxTargets := 1\<rparr>"
  let ?res = "autogen_sweep ?cfg id demo_full"
  have autos: "map (\<lambda>t. (pt_Name t, pt_Enabled t)) (filter (\<lambda>t. pt_Source t = ProbeSourceAuto) (db_targets demo_full)) = [(''auto-d1-ssh-22'', 1)]"
    and want: "(''auto-d1-ssh-22'', ''tcp'', ''10.0.0.5:22'') \<in> set (wanted ?cfg demo_full)"
    and res: "fst ?res = (0, 0, 1, None)"
    and none: "concat (map (\<lambda>d. takeWhile (has_target demo_full) (device_items ?cfg d)) (autogen_devices demo_full)) = []"
    and dev: "map dev_ID (db_devices demo_full) = [1]"
    by code_simp+
  have "?res = ((0, 0, 1, None), snd ?res)" using res by (metis prod.collapse)
  moreover have "ag_MaxTargets ?cfg \<le> int (length (filter (\<lambda>t. pt_Source t = ProbeSourceAuto) (db_targets demo_full)))"
    using arg_cong [OF autos, of length] by simp
  moreover have "distinct (map dev_ID (db_devices demo_full))" "\<And>d. d \<in> set (db_devices demo_full) \<Longrightarrow> 0 \<le> dev_ID d"
    using dev by (auto simp: map_eq_Cons_conv)
  ultimately have "(\<lambda>t. (pt_Name t, pt_Module t, pt_Target t)) `
      {t \<in> set (db_targets (snd ?res)). pt_Source t = ProbeSourceAuto \<and> pt_Enabled t \<noteq> 0} =
      (\<Union>d \<in> set (autogen_devices demo_full). set (takeWhile (has_target demo_full) (device_items ?cfg d)))"
    using autogen_cap_parks [of demo_full id ?cfg 0 0 1 "snd ?res"] demo_full_inv by (simp add: demo_policy_def)
  also have "\<dots> = {}" using none by auto
  finally show ?thesis using autos want by simp
qed

end
