(* ===== verification/Agent_Command.thy ===== *)
theory Agent_Command
  imports Cidrutil Probe_Service
begin

section \<open>The command channel to the agents\<close>

text \<open>
  \<^verbatim>\<open>internal/service/agent_command_service.go\<close> over the tables \<^verbatim>\<open>agent_commands\<close>, \<^verbatim>\<open>networks\<close> and \<^verbatim>\<open>agent_status\<close>: the
  admission of commands with the boundary check of scans, the coalescing of the queue, and the
  transitions an agent reports.
\<close>

subsection \<open>Statements\<close>

definition new_command :: "probe_db \<Rightarrow> string \<Rightarrow> string \<Rightarrow> string \<Rightarrow> AgentCommand" where
  "new_command db agentID command payload =
     \<lparr>ac_ID = db_command_seq db + 1, ac_AgentID = agentID, ac_Command = command, ac_Payload = payload,
      ac_Status = ''pending'', ac_CreatedAt = db_clock db, ac_AcknowledgedAt = None, ac_Result = None\<rparr>"

definition CreateAgentCommand :: "string \<Rightarrow> string \<Rightarrow> string \<Rightarrow> AgentCommand pprog" where
  "CreateAgentCommand agentID command payload =
     stmt (\<lambda>db. let c = new_command db agentID command payload in
       (Inr c, db\<lparr>db_commands := db_commands db @ [c], db_command_seq := ac_ID c\<rparr>))"

definition pending_of :: "string \<Rightarrow> string \<Rightarrow> AgentCommand \<Rightarrow> bool" where
  "pending_of agentID command c \<longleftrightarrow> ac_AgentID c = agentID \<and> ac_Command c = command \<and> ac_Status c = ''pending''"

definition DeletePendingAgentCommandsByCommand :: "string \<Rightarrow> string \<Rightarrow> int pprog" where
  "DeletePendingAgentCommandsByCommand agentID command =
     stmt (\<lambda>db. (Inr (int (length (filter (pending_of agentID command) (db_commands db)))),
       db\<lparr>db_commands := filter (\<lambda>c. \<not> pending_of agentID command c) (db_commands db)\<rparr>))"

definition GetPendingAgentCommandByPayload :: "string \<Rightarrow> string \<Rightarrow> string \<Rightarrow> AgentCommand pprog" where
  "GetPendingAgentCommandByPayload agentID command payload =
     stmt (\<lambda>db. (case sort_by (\<lambda>a b. ac_ID b < ac_ID a)
         (filter (\<lambda>c. pending_of agentID command c \<and> ac_Payload c = payload) (db_commands db)) of
       [] \<Rightarrow> Inl ErrNoRows | c # _ \<Rightarrow> Inr c, db))"

definition ListPendingAgentCommands :: "string \<Rightarrow> int \<Rightarrow> AgentCommand list pprog" where
  "ListPendingAgentCommands agentID limit =
     stmt (get_state (\<lambda>db. sql_page limit 0
       (sort_by (\<lambda>a b. ac_ID a < ac_ID b) (filter (\<lambda>c. ac_AgentID c = agentID \<and> ac_Status c = ''pending'') (db_commands db)))))"

definition ListAllAgentCommands :: "int \<Rightarrow> int \<Rightarrow> AgentCommand list pprog" where
  "ListAllAgentCommands limit offset =
     stmt (get_state (\<lambda>db. sql_page limit offset (sort_by (\<lambda>a b. ac_ID b < ac_ID a) (db_commands db))))"

definition CountAgentCommands :: "int pprog" where
  "CountAgentCommands = stmt (get_state (\<lambda>db. int (length (db_commands db))))"

definition AckAgentCommand :: "int \<Rightarrow> unit pprog" where
  "AckAgentCommand i =
     stmt (\<lambda>db. (Inr (), db\<lparr>db_commands := map (\<lambda>c. if ac_ID c = i \<and> ac_Status c = ''pending''
        then c\<lparr>ac_Status := ''acknowledged'', ac_AcknowledgedAt := Some (db_clock db)\<rparr> else c) (db_commands db)\<rparr>))"

text \<open>The status column admits four values; an update to another one fails when it meets a row.\<close>

definition command_check :: "string \<Rightarrow> bool" where
  "command_check status \<longleftrightarrow> status \<in> set [''pending'', ''acknowledged'', ''done'', ''failed'']"

definition CompleteAgentCommand :: "string \<Rightarrow> string option \<Rightarrow> int \<Rightarrow> unit pprog" where
  "CompleteAgentCommand status res i =
     stmt (\<lambda>db. if \<not> command_check status \<and> list_ex (\<lambda>c. ac_ID c = i) (db_commands db) then (Inl ErrConstraint, db)
       else (Inr (), db\<lparr>db_commands := map (\<lambda>c. if ac_ID c = i then c\<lparr>ac_Status := status, ac_Result := res\<rparr> else c) (db_commands db)\<rparr>))"

definition DeleteAgentCommand :: "int \<Rightarrow> int pprog" where
  "DeleteAgentCommand i =
     stmt (\<lambda>db. (Inr (int (length (filter (\<lambda>c. ac_ID c = i) (db_commands db)))),
       db\<lparr>db_commands := filter (\<lambda>c. ac_ID c \<noteq> i) (db_commands db)\<rparr>))"

definition GetNetworkByAgentID :: "string \<Rightarrow> Network pprog" where
  "GetNetworkByAgentID agentID =
     stmt (\<lambda>db. (case find (\<lambda>n. net_AgentID n = Some agentID) (db_networks db) of None \<Rightarrow> Inl ErrNoRows | Some n \<Rightarrow> Inr n, db))"

definition upsert_agent_status :: "AgentStatus \<Rightarrow> unit pprog" where
  "upsert_agent_status arg =
     stmt (\<lambda>db. (Inr (),
       if list_ex (\<lambda>a. as_AgentID a = as_AgentID arg) (db_agents db)
       then db\<lparr>db_agents := map (\<lambda>a. if as_AgentID a = as_AgentID arg then arg else a) (db_agents db)\<rparr>
       else db\<lparr>db_agents := db_agents db @ [arg]\<rparr>))"

subsection \<open>The service\<close>

record AgentCommandService =
  cs_remoteOpsEnabled :: bool
  cs_allowReservedTargets :: bool

definition NewAgentCommandService :: "bool \<Rightarrow> bool \<Rightarrow> AgentCommandService" where
  "NewAgentCommandService remoteOpsEnabled allowReservedTargets =
     \<lparr>cs_remoteOpsEnabled = remoteOpsEnabled, cs_allowReservedTargets = allowReservedTargets\<rparr>"

definition ErrAgentIDRequired :: go_error where
  "ErrAgentIDRequired = Sentinel ''ErrAgentIDRequired''"

definition ErrRemoteOpsDisabled :: go_error where
  "ErrRemoteOpsDisabled = Sentinel ''ErrRemoteOpsDisabled''"

definition ErrUnknownCommand :: go_error where
  "ErrUnknownCommand = Sentinel ''ErrUnknownCommand''"

definition OpsCommands :: "string list" where
  "OpsCommands = [''restart'', ''config-reload'', ''logs-tail'']"

definition ValidCommands :: "string list" where
  "ValidCommands = [''scan'', ''probe'', ''restart'', ''config-reload'', ''logs-tail'']"

definition IsOpsCommand :: "string \<Rightarrow> bool" where
  "IsOpsCommand command \<longleftrightarrow> command \<in> set OpsCommands"

text \<open>
  A payload is a map of arbitrary values.  The service looks at a text under one key and prints the
  map; any other value is given by what it is printed as, which may fail.  An absent map prints as
  \<^verbatim>\<open>null\<close>, a map that cannot be printed as the empty text, since the error is dropped.
\<close>

datatype payload_value = PText string | PPrinted "string option"

type_synonym payload = "(string \<times> payload_value) list option"

fun print_value :: "payload_value \<Rightarrow> string option" where
  "print_value (PText s) = Some (json_quote s)"
| "print_value (PPrinted r) = r"

definition marshal_payload :: "payload \<Rightarrow> string" where
  "marshal_payload p =
     (case p of
        None \<Rightarrow> ''null''
      | Some kvs \<Rightarrow>
          if list_all (\<lambda>(k, v). print_value v \<noteq> None) (sorted_map kvs)
          then print_object (\<lambda>v. the (print_value v)) kvs else [])"

definition payload_text :: "string \<Rightarrow> payload \<Rightarrow> string" where
  "payload_text k p =
     (case p of None \<Rightarrow> [] | Some kvs \<Rightarrow> (case map_of (rev kvs) k of Some (PText s) \<Rightarrow> s | _ \<Rightarrow> []))"

text \<open>The rejections of the boundary check, by what their texts are made of.\<close>

datatype boundary_reason =
    InvalidScanTargets cidr_error
  | InvalidAgentNetwork string
  | OutsideNetwork string string "string list" int int

definition maxSample :: nat where
  "maxSample = 8"

text \<open>
  The check against the network of the agent, and the whole check; \<^term>\<open>None\<close> in place of a verdict is an
  expansion that does not return.
\<close>

definition check_boundary :: "string \<Rightarrow> Network \<Rightarrow> boundary_reason option option" where
  "check_boundary targets net =
     (let cidr = (case net_Cidr net of None \<Rightarrow> [] | Some c \<Rightarrow> c) in
      case ParseNetwork cidr of
        Inl e \<Rightarrow> if e = ErrEmptyCIDR then Some None else Some (Some (InvalidAgentNetwork cidr))
      | Inr ipNet \<Rightarrow>
          (case PartitionTargets targets (Some ipNet) of
             None \<Rightarrow> None
           | Some (Inl e) \<Rightarrow> Some (Some (InvalidScanTargets e))
           | Some (Inr (ins, outs)) \<Rightarrow>
               if outs \<noteq> [] then
                 Some (Some (OutsideNetwork (net_Name net) cidr
                   (if maxSample < length outs then take maxSample outs @ [''...''] else outs)
                   (int (length outs)) (int (length ins) + int (length outs))))
               else Some None))"

definition validateScanTargets :: "AgentCommandService \<Rightarrow> string \<Rightarrow> payload \<Rightarrow> boundary_reason option option pprog" where
  "validateScanTargets svc agentID payload =
     (let targets = trim_space (payload_text ''targets'' payload) in
      if targets = [] then ret (Some None)
      else case ValidateTargetsFor targets (cs_allowReservedTargets svc) of
             Some e \<Rightarrow> ret (Some (Some (InvalidScanTargets e)))
           | None \<Rightarrow>
               seq (outcome (GetNetworkByAgentID agentID)) (\<lambda>r.
                 case r of Inl _ \<Rightarrow> ret (Some None) | Inr net \<Rightarrow> ret (check_boundary targets net)))"

text \<open>Enqueueing; a \<^verbatim>\<open>BoundaryError\<close> is the left value, the stored or coalesced row the right one.\<close>

definition coalesce :: "string \<Rightarrow> string \<Rightarrow> string \<Rightarrow> AgentCommand option pprog" where
  "coalesce agentID command payload =
     (if command = ''probe'' then
        seq (outcome (DeletePendingAgentCommandsByCommand agentID command)) (\<lambda>_. ret None)
      else if command = ''scan'' then
        seq (outcome (GetPendingAgentCommandByPayload agentID command payload)) (\<lambda>r.
          case r of Inr existing \<Rightarrow> ret (Some existing) | Inl _ \<Rightarrow> ret None)
      else ret None)"

definition store_command :: "string \<Rightarrow> string \<Rightarrow> string \<Rightarrow> AgentCommand pprog" where
  "store_command agentID command payload =
     seq (coalesce agentID command payload) (\<lambda>existing.
       case existing of Some c \<Rightarrow> ret c | None \<Rightarrow> CreateAgentCommand agentID command payload)"

definition Enqueue :: "AgentCommandService \<Rightarrow> string \<Rightarrow> string \<Rightarrow> payload \<Rightarrow> (boundary_reason + AgentCommand) pprog" where
  "Enqueue svc agentID command0 payload =
     (if agentID = [] then raise ErrAgentIDRequired
      else let command = (if command0 = [] then ''scan'' else command0) in
      if command \<notin> set ValidCommands then raise (Wrapped command ErrUnknownCommand)
      else if IsOpsCommand command \<and> \<not> cs_remoteOpsEnabled svc then raise ErrRemoteOpsDisabled
      else
        seq (if command = ''scan'' then validateScanTargets svc agentID payload else ret (Some None)) (\<lambda>verdict.
          case verdict of
            None \<Rightarrow> raise (Panic ''does not return'')
          | Some (Some reason) \<Rightarrow> ret (Inl reason)
          | Some None \<Rightarrow> seq (store_command agentID command (marshal_payload payload)) (\<lambda>c. ret (Inr c))))"

definition Ack :: "int \<Rightarrow> unit pprog" where
  "Ack i = AckAgentCommand i"

definition Complete :: "int \<Rightarrow> string \<Rightarrow> string \<Rightarrow> unit pprog" where
  "Complete i status res =
     CompleteAgentCommand (if status \<noteq> ''done'' \<and> status \<noteq> ''failed'' then ''done'' else status) (Some res) i"

record AgentMeta =
  am_Version :: string
  am_GoVersion :: string
  am_Hostname :: string
  am_UptimeSec :: int
  am_ScansTotal :: int
  am_FingerprintRev :: string
  am_SupportedModules :: "string list"

definition UpsertAgentStatus :: "string \<Rightarrow> AgentMeta option \<Rightarrow> rat \<Rightarrow> gotime \<Rightarrow> unit pprog" where
  "UpsertAgentStatus agentID meta clockOffset now =
     (let m = (case meta of Some m \<Rightarrow> m | None \<Rightarrow> \<lparr>am_Version = [], am_GoVersion = [], am_Hostname = [], am_UptimeSec = 0,
            am_ScansTotal = 0, am_FingerprintRev = [], am_SupportedModules = []\<rparr>)
      in upsert_agent_status \<lparr>as_AgentID = agentID, as_Version = am_Version m, as_GoVersion = am_GoVersion m, as_Hostname = am_Hostname m,
           as_UptimeSeconds = am_UptimeSec m, as_ClockOffsetSeconds = clockOffset, as_ScansTotal = am_ScansTotal m,
           as_FingerprintRev = am_FingerprintRev m, as_SupportedModules = join_with '','' (am_SupportedModules m), as_LastReportAt = now\<rparr>)"

subsection \<open>The boundary check\<close>

lemma stmt_no_faults: "db_faults db = [] \<Longrightarrow> stmt m db = m db"
  by (simp add: stmt_def)

text \<open>What an agent's network says about a specification, and the verdict that follows from it.\<close>

definition agent_network :: "probe_db \<Rightarrow> string \<Rightarrow> ipnet option" where
  "agent_network db agentID =
     (case find (\<lambda>n. net_AgentID n = Some agentID) (db_networks db) of
        None \<Rightarrow> None
      | Some net \<Rightarrow> (case ParseNetwork (case net_Cidr net of None \<Rightarrow> [] | Some c \<Rightarrow> c) of Inl _ \<Rightarrow> None | Inr n \<Rightarrow> Some n))"

lemma PartitionTargets_returns: "PartitionTargets t (Some n) \<noteq> None"
  using expansion_returns [of t] by (auto simp: PartitionTargets_def split: sum.splits)

lemma check_boundary_returns: "\<exists>v. check_boundary t net = Some v"
  by (auto simp: check_boundary_def Let_def PartitionTargets_returns split: sum.split option.split)

lemma validateScanTargets_returns: "db_faults db = [] \<Longrightarrow> \<exists>v. validateScanTargets svc agentID p db = (Inr (Some v), db)"
  using check_boundary_returns
  by (auto simp: validateScanTargets_def GetNetworkByAgentID_def stmt_no_faults Let_def seq_def outcome_def ret_def split: option.split)

text \<open>The verdict when no statement fails and the agent's network has a block.\<close>

lemma validateScanTargets_network:
  assumes "db_faults db = []" "agent_network db agentID = Some n" "trim_space (payload_text ''targets'' p) = t" "t \<noteq> []"
  shows "\<exists>v. validateScanTargets svc agentID p db = (Inr (Some v), db) \<and>
    (v = None \<longrightarrow> (\<exists>ips. ExpandTargets t = Some (Inr ips) \<and> list_all (\<lambda>ip. contains_opt n (ParseIP ip)) ips))"
proof -
  obtain net where net: "find (\<lambda>n. net_AgentID n = Some agentID) (db_networks db) = Some net"
      "ParseNetwork (case net_Cidr net of None \<Rightarrow> [] | Some c \<Rightarrow> c) = Inr n"
    using assms(2) by (auto simp: agent_network_def split: option.splits sum.splits)
  then have get: "GetNetworkByAgentID agentID db = (Inr net, db)" using assms(1) by (simp add: GetNetworkByAgentID_def stmt_no_faults)
  obtain v where v: "check_boundary t net = Some v" using check_boundary_returns by blast
  have "\<exists>ips. ExpandTargets t = Some (Inr ips) \<and> list_all (\<lambda>ip. contains_opt n (ParseIP ip)) ips" if "v = None"
    using v net(2) that
    by (auto simp: check_boundary_def PartitionTargets_def partitionLoop_filter list_all_iff filter_empty_conv Let_def
        split: option.splits sum.splits if_splits)
  then show ?thesis using v get assms(3,4)
    by (cases "ValidateTargetsFor t (cs_allowReservedTargets svc)")
      (auto simp: validateScanTargets_def Let_def seq_def outcome_def ret_def)
qed

lemma expands_validates: "ExpandTargets t = Some (Inr ips) \<Longrightarrow> ValidateTargetsFor t False = None"
proof -
  assume a: "ExpandTargets t = Some (Inr ips)"
  then have "trim_space t \<noteq> []" by (auto simp: ExpandTargets_def ExpandTargetsFor_def)
  then show ?thesis
    using expandParts_validateParts [OF ExpandTargets_parts [OF a [unfolded ExpandTargets_def]]] by (simp add: ValidateTargetsFor_def)
qed

text \<open>An enqueue that gets past its guards stores the command; for a scan the verdict decides.\<close>

lemma Enqueue_scan:
  assumes "agentID \<noteq> []" "cmd = [] \<or> cmd = ''scan''"
  shows "Enqueue svc agentID cmd p =
    seq (validateScanTargets svc agentID p) (\<lambda>verdict. case verdict of
       None \<Rightarrow> raise (Panic ''does not return'')
     | Some (Some reason) \<Rightarrow> ret (Inl reason)
     | Some None \<Rightarrow> seq (store_command agentID ''scan'' (marshal_payload p)) (\<lambda>c. ret (Inr c)))"
  using assms by (auto simp: Enqueue_def Let_def ValidCommands_def IsOpsCommand_def OpsCommands_def)

lemma Enqueue_probe:
  "agentID \<noteq> [] \<Longrightarrow> Enqueue svc agentID ''probe'' p = seq (store_command agentID ''probe'' (marshal_payload p)) (\<lambda>c. ret (Inr c))"
  by (rule ext) (simp add: Enqueue_def Let_def ValidCommands_def IsOpsCommand_def OpsCommands_def seq_def ret_def)

text \<open>The rows of the queue after a store, when no statement fails.\<close>

lemma store_probe:
  assumes "db_faults db = []"
  shows "store_command agentID ''probe'' payload db =
    (let c = new_command db agentID ''probe'' payload in
     (Inr c, db\<lparr>db_commands := filter (\<lambda>c. \<not> pending_of agentID ''probe'' c) (db_commands db) @ [c], db_command_seq := ac_ID c\<rparr>))"
  using assms by (simp add: store_command_def coalesce_def seq_def outcome_def ret_def stmt_no_faults DeletePendingAgentCommandsByCommand_def
      CreateAgentCommand_def new_command_def Let_def)

lemma sort_by_Nil_iff: "sort_by lt xs = [] \<longleftrightarrow> xs = []"
  by (metis length_0_conv length_sort_by)

lemma new_command_simps [simp]:
  "ac_ID (new_command db a c p) = db_command_seq db + 1" "ac_AgentID (new_command db a c p) = a" "ac_Command (new_command db a c p) = c"
  "ac_Payload (new_command db a c p) = p" "ac_Status (new_command db a c p) = ''pending''"
  by (simp_all add: new_command_def)

lemma CreateAgentCommand_run:
  "db_faults db = [] \<Longrightarrow> CreateAgentCommand a c p db =
    (Inr (new_command db a c p), db\<lparr>db_commands := db_commands db @ [new_command db a c p], db_command_seq := db_command_seq db + 1\<rparr>)"
  by (simp add: CreateAgentCommand_def stmt_no_faults Let_def)

lemma coalesce_other:
  assumes "db_faults db = []" "command \<noteq> ''probe''"
  shows "\<exists>r. coalesce agentID command payload db = (Inr r, db) \<and>
    (case r of None \<Rightarrow> \<not> (command = ''scan'' \<and> (\<exists>c \<in> set (db_commands db). pending_of agentID command c \<and> ac_Payload c = payload))
     | Some c \<Rightarrow> command = ''scan'' \<and> c \<in> set (db_commands db) \<and> pending_of agentID command c \<and> ac_Payload c = payload)"
proof (cases "command = ''scan''")
  case True
  let ?rows = "sort_by (\<lambda>a b. ac_ID b < ac_ID a) (filter (\<lambda>c. pending_of agentID command c \<and> ac_Payload c = payload) (db_commands db))"
  have set: "set ?rows = {c \<in> set (db_commands db). pending_of agentID command c \<and> ac_Payload c = payload}" by (simp add: set_sort_by)
  have run: "coalesce agentID command payload db = (Inr (case ?rows of [] \<Rightarrow> None | c # _ \<Rightarrow> Some c), db)"
    using True assms(1) by (simp add: coalesce_def GetPendingAgentCommandByPayload_def seq_def outcome_def ret_def stmt_no_faults split: list.split)
  show ?thesis
  proof (cases ?rows)
    case Nil
    then have "\<not> (\<exists>c \<in> set (db_commands db). pending_of agentID command c \<and> ac_Payload c = payload)" using set by auto
    moreover have "coalesce agentID command payload db = (Inr None, db)" using run unfolding Nil by simp
    ultimately show ?thesis by simp
  next
    case (Cons c cs)
    then have "c \<in> set ?rows" by simp
    then have "c \<in> set (db_commands db) \<and> pending_of agentID command c \<and> ac_Payload c = payload" unfolding set by simp
    moreover have "coalesce agentID command payload db = (Inr (Some c), db)" using run unfolding Cons by simp
    ultimately show ?thesis using True by simp
  qed
next
  case False
  then show ?thesis using assms(2) by (simp add: coalesce_def ret_def)
qed

lemma store_other:
  assumes "db_faults db = []" "command \<noteq> ''probe''"
  shows "\<exists>c. store_command agentID command payload db =
     (Inr c, if command = ''scan'' \<and> (\<exists>c \<in> set (db_commands db). pending_of agentID command c \<and> ac_Payload c = payload) then db
       else db\<lparr>db_commands := db_commands db @ [new_command db agentID command payload], db_command_seq := db_command_seq db + 1\<rparr>) \<and>
     ac_AgentID c = agentID \<and> ac_Command c = command \<and> ac_Payload c = payload \<and> ac_Status c = ''pending''"
proof -
  obtain r where r: "coalesce agentID command payload db = (Inr r, db)"
    "case r of None \<Rightarrow> \<not> (command = ''scan'' \<and> (\<exists>c \<in> set (db_commands db). pending_of agentID command c \<and> ac_Payload c = payload))
     | Some c \<Rightarrow> command = ''scan'' \<and> c \<in> set (db_commands db) \<and> pending_of agentID command c \<and> ac_Payload c = payload"
    using coalesce_other [OF assms] by blast
  show ?thesis
  proof (cases r)
    case None
    then show ?thesis using r CreateAgentCommand_run [OF assms(1)] by (simp add: store_command_def seq_def)
  next
    case (Some c)
    then show ?thesis using r by (auto simp: store_command_def seq_def ret_def pending_of_def)
  qed
qed

subsection \<open>The queue stays coalesced\<close>

definition coalesce_key :: "AgentCommand \<Rightarrow> string \<times> string \<times> string" where
  "coalesce_key c = (ac_AgentID c, ac_Command c, if ac_Command c = ''probe'' then [] else ac_Payload c)"

definition waiting :: "AgentCommand list \<Rightarrow> AgentCommand list" where
  "waiting cs = filter (\<lambda>c. ac_Status c = ''pending'' \<and> ac_Command c \<in> set [''probe'', ''scan'']) cs"

definition admitted :: "AgentCommandService \<Rightarrow> AgentCommand \<Rightarrow> bool" where
  "admitted svc c \<longleftrightarrow> command_check (ac_Status c) \<and> ac_AgentID c \<noteq> [] \<and> ac_Command c \<in> set ValidCommands \<and>
     (IsOpsCommand (ac_Command c) \<longrightarrow> cs_remoteOpsEnabled svc)"

definition queue_inv :: "AgentCommandService \<Rightarrow> probe_db \<Rightarrow> bool" where
  "queue_inv svc db \<longleftrightarrow>
     distinct (map ac_ID (db_commands db)) \<and> list_all (\<lambda>c. ac_ID c \<le> db_command_seq db) (db_commands db) \<and>
     list_all (admitted svc) (db_commands db) \<and>
     distinct (map coalesce_key (waiting (db_commands db)))"

datatype command_op = CmdEnqueue string string payload | CmdAck int | CmdComplete int string string

definition run_command_op :: "AgentCommandService \<Rightarrow> command_op \<Rightarrow> probe_db \<Rightarrow> probe_db" where
  "run_command_op svc opr db =
     (case opr of
        CmdEnqueue agentID command payload \<Rightarrow> snd (Enqueue svc agentID command payload db)
      | CmdAck i \<Rightarrow> snd (Ack i db)
      | CmdComplete i status res \<Rightarrow> snd (Complete i status res db))"

lemma queue_inv_append:
  assumes "queue_inv svc db" "agentID \<noteq> []" "command \<in> set ValidCommands" "IsOpsCommand command \<longrightarrow> cs_remoteOpsEnabled svc"
    and "coalesce_key (new_command db agentID command payload) \<notin> coalesce_key ` set (waiting rows)"
    and "\<exists>P. rows = filter P (db_commands db)"
  shows "queue_inv svc (db\<lparr>db_commands := rows @ [new_command db agentID command payload], db_command_seq := db_command_seq db + 1\<rparr>)"
proof -
  let ?c = "new_command db agentID command payload"
  obtain P where rows: "rows = filter P (db_commands db)" using assms(6) by blast
  have ids: "distinct (map ac_ID rows)" "\<And>c. c \<in> set rows \<Longrightarrow> ac_ID c \<le> db_command_seq db"
    using assms(1) rows by (auto simp: queue_inv_def list_all_iff distinct_map_filter)
  have "waiting rows = filter P (waiting (db_commands db))" by (simp add: rows waiting_def conj_commute cong: filter_cong) 
  then have keys: "distinct (map coalesce_key (waiting rows))" using assms(1) by (simp add: queue_inv_def distinct_map_filter)
  have c: "ac_ID ?c = db_command_seq db + 1" "ac_Status ?c = ''pending''" "ac_AgentID ?c = agentID" "ac_Command ?c = command"
    by (simp_all add: new_command_def)
  have "distinct (map ac_ID (rows @ [?c]))" using ids c(1) by force
  moreover have "list_all (\<lambda>c. ac_ID c \<le> db_command_seq db + 1) (rows @ [?c])" using ids(2) c(1) by (force simp: list_all_iff)
  moreover have "admitted svc ?c" using assms(2-4) c by (simp add: admitted_def command_check_def)
  then have "list_all (admitted svc) (rows @ [?c])" using assms(1) by (simp add: queue_inv_def list_all_iff rows)
  moreover have "distinct (map coalesce_key (waiting (rows @ [?c])))"
    using keys assms(5) by (simp add: waiting_def)
  ultimately show ?thesis by (simp add: queue_inv_def)
qed

lemma queue_inv_status:
  assumes "queue_inv svc db"
    and "\<And>c. ac_ID (f c) = ac_ID c \<and> ac_AgentID (f c) = ac_AgentID c \<and> ac_Command (f c) = ac_Command c \<and> ac_Payload (f c) = ac_Payload c \<and>
       (command_check (ac_Status c) \<longrightarrow> command_check (ac_Status (f c))) \<and> (ac_Status (f c) = ''pending'' \<longrightarrow> f c = c)"
  shows "queue_inv svc (db\<lparr>db_commands := map f (db_commands db)\<rparr>)"
proof -
  have key: "coalesce_key (f c) = coalesce_key c" for c using assms(2) [of c] by (simp add: coalesce_key_def)
  have same: "f c = c" if "ac_Status (f c) = ''pending''" for c using assms(2) [of c] that by blast
  have sub: "set (waiting (map f cs)) \<subseteq> set (waiting cs)" for cs
  proof
    fix x assume "x \<in> set (waiting (map f cs))"
    then obtain c where c: "c \<in> set cs" "x = f c" "ac_Status x = ''pending''" "ac_Command x \<in> set [''probe'', ''scan'']" by (auto simp: waiting_def)
    then have "x = c" using same [of c] by simp
    then show "x \<in> set (waiting cs)" using c by (simp add: waiting_def)
  qed
  have "distinct (map coalesce_key (waiting (map f cs)))" if "distinct (map coalesce_key (waiting cs))" for cs
    using that
  proof (induction cs)
    case (Cons c cs)
    have IH: "distinct (map coalesce_key (waiting (map f cs)))" using Cons by (simp add: waiting_def split: if_splits)
    show ?case
    proof (cases "waiting [f c] = []")
      case True
      then have "waiting (map f (c # cs)) = waiting (map f cs)" by (auto simp: waiting_def split: if_splits)
      then show ?thesis using IH by simp
    next
      case False
      then have c: "f c = c" "waiting (c # cs) = c # waiting cs" "waiting (map f (c # cs)) = c # waiting (map f cs)"
        using same [of c] by (auto simp: waiting_def split: if_splits)
      then show ?thesis using IH Cons.prems sub [of cs] by auto
    qed
  qed (simp add: waiting_def)
  moreover have "map ac_ID (map f cs) = map ac_ID cs" for cs using assms(2) by simp
  moreover have "admitted svc c \<Longrightarrow> admitted svc (f c)" for c using assms(2) [of c] by (simp add: admitted_def)
  ultimately show ?thesis using assms by (simp add: queue_inv_def list_all_iff del: map_map)
qed

lemma queue_inv_store:
  assumes inv: "queue_inv svc db" and ff: "db_faults db = []"
    and ok: "agentID \<noteq> []" "command \<in> set ValidCommands" "IsOpsCommand command \<longrightarrow> cs_remoteOpsEnabled svc"
    and run: "store_command agentID command payload db = (r, db')"
  shows "queue_inv svc db' \<and> db_faults db' = []"
proof (cases "command = ''probe''")
  case True
  let ?rows = "filter (\<lambda>c. \<not> pending_of agentID ''probe'' c) (db_commands db)"
  have "coalesce_key (new_command db agentID ''probe'' payload) \<notin> coalesce_key ` set (waiting ?rows)"
    by (auto simp: coalesce_key_def new_command_def waiting_def pending_of_def)
  then have "queue_inv svc (db\<lparr>db_commands := ?rows @ [new_command db agentID ''probe'' payload], db_command_seq := db_command_seq db + 1\<rparr>)"
    using ok(2,3) True by (intro queue_inv_append [OF inv ok(1)]) auto
  moreover have "db' = db\<lparr>db_commands := ?rows @ [new_command db agentID ''probe'' payload], db_command_seq := db_command_seq db + 1\<rparr>"
    using run unfolding True store_probe [OF ff] by (simp add: Let_def new_command_def)
  ultimately show ?thesis using ff by simp
next
  case False
  show ?thesis
  proof (cases "db' = db")
    case new: False
    have db': "db' = db\<lparr>db_commands := db_commands db @ [new_command db agentID command payload], db_command_seq := db_command_seq db + 1\<rparr>"
      and fresh: "\<not> (command = ''scan'' \<and> (\<exists>c \<in> set (db_commands db). pending_of agentID command c \<and> ac_Payload c = payload))"
      using store_other [OF ff False, of agentID payload] run new by (auto split: if_splits)
    have "coalesce_key (new_command db agentID command payload) \<notin> coalesce_key ` set (waiting (db_commands db))"
      using fresh False by (auto simp: coalesce_key_def new_command_def waiting_def pending_of_def)
    then have "queue_inv svc db'" unfolding db' by (intro queue_inv_append [OF inv ok]) (auto intro: exI [of _ "\<lambda>_. True"])
    then show ?thesis using ff by (simp add: db')
  qed (use inv ff in simp)
qed

lemma Enqueue_admitted:
  assumes "agentID \<noteq> []" "cmd = (if cmd0 = [] then ''scan'' else cmd0)" "cmd \<in> set ValidCommands" "IsOpsCommand cmd \<longrightarrow> cs_remoteOpsEnabled svc"
  shows "Enqueue svc agentID cmd0 p =
    seq (if cmd = ''scan'' then validateScanTargets svc agentID p else ret (Some None)) (\<lambda>verdict. case verdict of
       None \<Rightarrow> raise (Panic ''does not return'')
     | Some (Some reason) \<Rightarrow> ret (Inl reason)
     | Some None \<Rightarrow> seq (store_command agentID cmd (marshal_payload p)) (\<lambda>c. ret (Inr c)))"
proof -
  have "\<not> (IsOpsCommand cmd \<and> \<not> cs_remoteOpsEnabled svc)" using assms(4) by blast
  then show ?thesis using assms(1,3) unfolding Enqueue_def Let_def assms(2) [symmetric] by (simp only: if_False not_not simp_thms)
qed

lemma queue_inv_Enqueue:
  assumes inv: "queue_inv svc db" and ff: "db_faults db = []" and run: "Enqueue svc agentID cmd0 p db = (r, db')"
  shows "queue_inv svc db' \<and> db_faults db' = []"
proof -
  define cmd where "cmd = (if cmd0 = [] then ''scan'' else cmd0)"
  show ?thesis
  proof (cases "agentID = [] \<or> cmd \<notin> set ValidCommands \<or> (IsOpsCommand cmd \<and> \<not> cs_remoteOpsEnabled svc)")
    case True
    then have "\<exists>err. Enqueue svc agentID cmd0 p = raise err" unfolding Enqueue_def Let_def cmd_def [symmetric] by auto
    then show ?thesis using inv ff run by (auto simp: raise_def)
  next
    case False
    then have ok: "agentID \<noteq> []" "cmd \<in> set ValidCommands" "IsOpsCommand cmd \<longrightarrow> cs_remoteOpsEnabled svc" by auto
    obtain v where v: "(if cmd = ''scan'' then validateScanTargets svc agentID p else ret (Some None)) db = (Inr (Some v), db)"
      using validateScanTargets_returns [OF ff, of svc agentID p] by (cases "cmd = ''scan''") (auto simp: ret_def)
    obtain r1 db1 where st: "store_command agentID cmd (marshal_payload p) db = (r1, db1)" by fastforce
    have "queue_inv svc db1 \<and> db_faults db1 = []" by (rule queue_inv_store [OF inv ff ok st])
    moreover have "db' = db \<or> db' = db1"
      using run v st unfolding Enqueue_admitted [OF ok(1) cmd_def ok(2,3)] by (cases v; cases r1) (auto simp: seq_def ret_def)
    ultimately show ?thesis using inv ff by auto
  qed
qed

lemma queue_inv_op:
  assumes "queue_inv svc db" "db_faults db = []"
  shows "queue_inv svc (run_command_op svc opr db) \<and> db_faults (run_command_op svc opr db) = []"
proof (cases opr)
  case (CmdEnqueue a c p)
  then show ?thesis using queue_inv_Enqueue [OF assms] by (cases "Enqueue svc a c p db") (auto simp: run_command_op_def)
next
  case (CmdAck i)
  then show ?thesis using assms
    by (auto simp: run_command_op_def Ack_def AckAgentCommand_def stmt_no_faults command_check_def intro!: queue_inv_status)
next
  case (CmdComplete i st res)
  then show ?thesis using assms
    by (auto simp: run_command_op_def Complete_def CompleteAgentCommand_def stmt_no_faults command_check_def intro!: queue_inv_status)
qed

lemma queue_inv_ops:
  "queue_inv svc db \<Longrightarrow> db_faults db = [] \<Longrightarrow> queue_inv svc (fold (run_command_op svc) ops db) \<and> db_faults (fold (run_command_op svc) ops db) = []"
  by (induction ops arbitrary: db) (simp_all add: queue_inv_op)

subsection \<open>Properties\<close>

text \<open>
  C30.  A scan command that names targets is admitted only inside the network of its agent, provided the agent is bound to a
  network with a readable block and no statement fails: every address the specification expands to
  then lies in the block, and the stored command carries the payload that was checked.  Without a
  network, without a block or when the network cannot be looked up the code admits the command
  after the syntactic validation alone.
\<close>

theorem scan_stays_inside:
  assumes "db_faults db = []" "agent_network db agentID = Some n" "trim_space (payload_text ''targets'' p) \<noteq> []"
    and "cmd = [] \<or> cmd = ''scan''" "fst (Enqueue svc agentID cmd p db) = Inr (Inr row)"
  shows "\<exists>ips. ExpandTargets (trim_space (payload_text ''targets'' p)) = Some (Inr ips) \<and>
    list_all (\<lambda>ip. contains_opt n (ParseIP ip)) ips \<and>
    ac_AgentID row = agentID \<and> ac_Command row = ''scan'' \<and> ac_Payload row = marshal_payload p \<and> ac_Status row = ''pending''"
proof -
  have "agentID \<noteq> []" using assms(5) by (auto simp: Enqueue_def raise_def)
  note enq = Enqueue_scan [OF this assms(4), of svc p]
  obtain v where v: "validateScanTargets svc agentID p db = (Inr (Some v), db)"
      "v = None \<longrightarrow> (\<exists>ips. ExpandTargets (trim_space (payload_text ''targets'' p)) = Some (Inr ips) \<and> list_all (\<lambda>ip. contains_opt n (ParseIP ip)) ips)"
    using validateScanTargets_network [OF assms(1,2) refl assms(3), of svc] by blast
  have none: "v = None" using assms(5) v(1) unfolding enq by (cases v) (simp_all add: seq_def ret_def)
  obtain c db' where "store_command agentID ''scan'' (marshal_payload p) db = (Inr c, db')" "ac_AgentID c = agentID"
      "ac_Command c = ''scan''" "ac_Payload c = marshal_payload p" "ac_Status c = ''pending''"
    using store_other [OF assms(1), of "''scan''" agentID "marshal_payload p"] by auto
  then show ?thesis using assms(5) v none unfolding enq by (auto simp: seq_def ret_def)
qed

text \<open>
  C31.  While statements succeed the queue stays coalesced whatever is enqueued, acknowledged and completed:
  at most one probe plan waits per agent, no scan waits twice, only known commands are stored, and
  none of the remote operations unless they are switched on.
\<close>

theorem queue_coalesced:
  assumes "db_faults db = []" "db_commands db = []"
  shows "queue_inv svc (fold (run_command_op svc) ops db)"
  using queue_inv_ops [of svc db ops] assms by (simp add: queue_inv_def waiting_def)

text \<open>
  C32.  The switch that allows reserved targets has no effect for an agent whose network has a block: what
  the strict validation refuses is refused, because the partition along the block expands strictly.
\<close>

theorem reserved_switch_without_effect:
  assumes "db_faults db = []" "agent_network db agentID = Some n" "agentID \<noteq> []" "cmd = [] \<or> cmd = ''scan''"
    and "ValidateTargets (trim_space (payload_text ''targets'' p)) \<noteq> None" "trim_space (payload_text ''targets'' p) \<noteq> []"
  shows "\<exists>reason. Enqueue svc agentID cmd p db = (Inr (Inl reason), db)"
proof -
  obtain v where v: "validateScanTargets svc agentID p db = (Inr (Some v), db)"
      "v = None \<longrightarrow> (\<exists>ips. ExpandTargets (trim_space (payload_text ''targets'' p)) = Some (Inr ips) \<and> list_all (\<lambda>ip. contains_opt n (ParseIP ip)) ips)"
    using validateScanTargets_network [OF assms(1,2) refl assms(6), of svc] by blast
  then obtain reason where "v = Some reason" using assms(5) expands_validates by (cases v) (auto simp: ValidateTargets_def)
  then show ?thesis using v(1) unfolding Enqueue_scan [OF assms(3,4)] by (simp add: seq_def ret_def)
qed

text \<open>A fleet of one agent that is bound to a network with a block.\<close>

definition fleet_db :: "string \<Rightarrow> probe_db" where
  "fleet_db cidr = demo_db\<lparr>db_networks := [\<lparr>net_ID = 1, net_Name = ''lan'', net_Cidr = Some cidr, net_AgentID = Some ''a1''\<rparr>]\<rparr>"

definition scan_of :: "string \<Rightarrow> payload" where
  "scan_of targets = Some [(''targets'', PText targets)]"

lemma fleet_db_quiet: "db_faults (fleet_db cidr) = []" "db_commands (fleet_db cidr) = []"
  by (simp_all add: fleet_db_def demo_db_def empty_probe_db_def)

theorem scan_stays_inside_witness:
  "\<exists>n row ips. agent_network (fleet_db ''10.0.0.0/24'') ''a1'' = Some n \<and>
     fst (Enqueue (NewAgentCommandService False False) ''a1'' ''scan'' (scan_of ''10.0.0.1,10.0.0.9'') (fleet_db ''10.0.0.0/24'')) = Inr (Inr row) \<and>
     ExpandTargets ''10.0.0.1,10.0.0.9'' = Some (Inr ips) \<and> list_all (\<lambda>ip. contains_opt n (ParseIP ip)) ips \<and> ac_Command row = ''scan''"
proof -
  let ?db = "fleet_db ''10.0.0.0/24''" and ?svc = "NewAgentCommandService False False" and ?p = "scan_of ''10.0.0.1,10.0.0.9''"
  have t: "trim_space (payload_text ''targets'' ?p) = ''10.0.0.1,10.0.0.9''" by code_simp
  have "agent_network ?db ''a1'' \<noteq> None" by code_simp
  then obtain n where n: "agent_network ?db ''a1'' = Some n" by blast
  have "case fst (Enqueue ?svc ''a1'' ''scan'' ?p ?db) of Inr (Inr row) \<Rightarrow> True | _ \<Rightarrow> False" by code_simp
  then obtain row where row: "fst (Enqueue ?svc ''a1'' ''scan'' ?p ?db) = Inr (Inr row)" by (auto split: sum.splits)
  show ?thesis using scan_stays_inside [OF fleet_db_quiet(1) n _ _ row] n row unfolding t by auto
qed

theorem queue_coalesced_witness:
  "let svc = NewAgentCommandService False False;
       ops = [CmdEnqueue ''a1'' ''probe'' None, CmdEnqueue ''a1'' ''scan'' (scan_of ''10.0.0.1''), CmdEnqueue ''a1'' [] (scan_of ''10.0.0.1''),
              CmdEnqueue ''a1'' ''restart'' None, CmdAck 1, CmdEnqueue ''a1'' ''probe'' None, CmdEnqueue ''a1'' ''probe'' (Some []), CmdComplete 1 ''ok'' []];
       db = fold (run_command_op svc) ops (fleet_db ''10.0.0.0/24'')
   in queue_inv svc db \<and>
      map (\<lambda>c. (ac_ID c, ac_Command c, ac_Status c)) (db_commands db) = [(1, ''probe'', ''done''), (2, ''scan'', ''pending''), (4, ''probe'', ''pending'')]"
proof -
  have "map (\<lambda>c. (ac_ID c, ac_Command c, ac_Status c))
     (db_commands (fold (run_command_op (NewAgentCommandService False False))
        [CmdEnqueue ''a1'' ''probe'' None, CmdEnqueue ''a1'' ''scan'' (scan_of ''10.0.0.1''), CmdEnqueue ''a1'' [] (scan_of ''10.0.0.1''),
         CmdEnqueue ''a1'' ''restart'' None, CmdAck 1, CmdEnqueue ''a1'' ''probe'' None, CmdEnqueue ''a1'' ''probe'' (Some []), CmdComplete 1 ''ok'' []]
        (fleet_db ''10.0.0.0/24''))) = [(1, ''probe'', ''done''), (2, ''scan'', ''pending''), (4, ''probe'', ''pending'')]"
    by code_simp
  then show ?thesis using queue_coalesced [OF fleet_db_quiet] by (simp only: Let_def)
qed

theorem reserved_switch_without_effect_witness:
  "ValidateTargetsFor ''127.0.0.1'' True = None \<and>
   (\<exists>reason. Enqueue (NewAgentCommandService False True) ''a1'' ''scan'' (scan_of ''127.0.0.1'') (fleet_db ''127.0.0.0/8'') =
     (Inr (Inl reason), fleet_db ''127.0.0.0/8''))"
proof
  show "ValidateTargetsFor ''127.0.0.1'' True = None" by code_simp
  let ?p = "scan_of ''127.0.0.1''"
  have t: "trim_space (payload_text ''targets'' ?p) = ''127.0.0.1''" by code_simp
  have "agent_network (fleet_db ''127.0.0.0/8'') ''a1'' \<noteq> None" by code_simp
  then obtain n where n: "agent_network (fleet_db ''127.0.0.0/8'') ''a1'' = Some n" by blast
  have "ValidateTargets ''127.0.0.1'' \<noteq> None" by code_simp
  then show "\<exists>reason. Enqueue (NewAgentCommandService False True) ''a1'' ''scan'' ?p (fleet_db ''127.0.0.0/8'') = (Inr (Inl reason), fleet_db ''127.0.0.0/8'')"
    using reserved_switch_without_effect [OF fleet_db_quiet(1) n, of "''scan''" ?p] unfolding t by simp
qed

end
