(* ===== verification/Probe_Dispatch.thy ===== *)
theory Probe_Dispatch
  imports Agent_Command
begin

section \<open>Synthetic probing: plans for the agents\<close>

text \<open>
  \<^verbatim>\<open>internal/service/probetarget/dispatcher.go\<close>, without the ingestion of results, which belongs to the engine: the
  dispatcher derives a plan per agent from the enabled targets and enqueues it as a command when it
  has changed or was sent long ago.  The digest of a plan (SHA-256 in the code) and the order in which
  the map of plans is visited are parameters.
\<close>

record Spec =
  sp_ID :: int
  sp_Name :: string
  sp_Module :: string
  sp_Target :: string
  sp_IntervalSeconds :: int
  sp_TimeoutSeconds :: int
  sp_Vantage :: string
  sp_Options :: string

definition planRefreshInterval :: int where
  "planRefreshInterval = 300 * second"

definition legacySupportedModules :: "string list" where
  "legacySupportedModules = [''icmp'', ''http'', ''tls'']"

record AgentDispatcher =
  dp_db :: probe_db
  dp_lastFingerprint :: "string \<rightharpoonup> string"
  dp_lastSentAt :: "string \<rightharpoonup> gotime"
  dp_lastHeldBack :: "string \<rightharpoonup> int"

definition NewAgentDispatcher :: "probe_db \<Rightarrow> AgentDispatcher" where
  "NewAgentDispatcher db =
     \<lparr>dp_db = db, dp_lastFingerprint = Map.empty, dp_lastSentAt = Map.empty, dp_lastHeldBack = Map.empty\<rparr>"

text \<open>The text of a plan: the fields in their order, options as the raw text they are stored as, if there are any.\<close>

definition marshal_spec :: "Spec \<Rightarrow> string option" where
  "marshal_spec s =
     (let fields = [(''id'', itoa (sp_ID s)), (''name'', json_quote (sp_Name s)), (''module'', json_quote (sp_Module s)),
         (''target'', json_quote (sp_Target s)), (''interval_seconds'', itoa (sp_IntervalSeconds s)),
         (''timeout_seconds'', itoa (sp_TimeoutSeconds s)), (''vantage'', json_quote (sp_Vantage s))] @
         (if sp_Options s = [] then [] else [(''options'', json_compact (sp_Options s))])
      in if sp_Options s \<noteq> [] \<and> json_parse (sp_Options s) = None then None
         else Some (''{'' @ join_with '','' (map (\<lambda>(k, v). json_quote k @ '':'' @ v) fields) @ ''}''))"

definition marshal_specs :: "Spec list \<Rightarrow> string option" where
  "marshal_specs specs =
     (if list_all (\<lambda>s. marshal_spec s \<noteq> None) specs
      then Some (''['' @ join_with '','' (map (\<lambda>s. the (marshal_spec s)) specs) @ '']'') else None)"

definition PlanFingerprint :: "(string \<Rightarrow> string) \<Rightarrow> Spec list \<Rightarrow> string" where
  "PlanFingerprint digest specs = digest (case marshal_specs specs of Some b \<Rightarrow> b | None \<Rightarrow> [])"

definition agentVantageFor :: "string \<Rightarrow> string \<Rightarrow> string" where
  "agentVantageFor planVantage agentID =
     (if planVantage = ProbeVantageAll then ProbeVantageAgentPrefix @ agentID else planVantage)"

definition spec_of :: "string \<Rightarrow> ProbeTarget \<Rightarrow> Spec" where
  "spec_of agentID t =
     \<lparr>sp_ID = pt_ID t, sp_Name = pt_Name t, sp_Module = pt_Module t, sp_Target = pt_Target t,
      sp_IntervalSeconds = pt_IntervalSeconds t, sp_TimeoutSeconds = pt_TimeoutSeconds t,
      sp_Vantage = agentVantageFor (pt_Vantage t) agentID,
      sp_Options = (if trim_space (pt_Options t) \<noteq> [] then pt_Options t else [])\<rparr>"

definition plan_specs :: "string \<Rightarrow> ProbeTarget list \<Rightarrow> Spec list" where
  "plan_specs agentID ts = sort_by (\<lambda>a b. sp_ID a < sp_ID b) (map (spec_of agentID) ts)"

definition plan_payload :: "(string \<Rightarrow> string) \<Rightarrow> Spec list \<Rightarrow> payload" where
  "plan_payload digest specs =
     Some [(''targets'', PPrinted (marshal_specs specs)), (''fingerprint'', PText (PlanFingerprint digest specs))]"

definition dp_on_db :: "'a pprog \<Rightarrow> (AgentDispatcher, 'a) prog" where
  "dp_on_db m d = (case m (dp_db d) of (r, db) \<Rightarrow> (r, d\<lparr>dp_db := db\<rparr>))"

text \<open>Sending a plan.  A zero time of a plan that was never sent is far in the past.\<close>

definition sendPlan ::
    "AgentCommandService \<Rightarrow> (string \<Rightarrow> string) \<Rightarrow> gotime \<Rightarrow> string \<Rightarrow> ProbeTarget list \<Rightarrow> (AgentDispatcher, unit) prog" where
  "sendPlan svc digest now agentID ts =
     (let specs = plan_specs agentID ts; fp = PlanFingerprint digest specs in
      seq (get_state (\<lambda>d. (case dp_lastFingerprint d agentID of None \<Rightarrow> [] | Some f \<Rightarrow> f,
             case dp_lastSentAt d agentID of None \<Rightarrow> False | Some t \<Rightarrow> time_sub now t < planRefreshInterval))) (\<lambda>(lastFp, recent).
      if fp = lastFp \<and> (specs = [] \<or> recent) then ret ()
      else
        seq (outcome (dp_on_db (Enqueue svc agentID ''probe'' (plan_payload digest specs)))) (\<lambda>r.
          case r of
            Inr (Inr _) \<Rightarrow>
              set_state (\<lambda>d. d\<lparr>dp_lastFingerprint := (dp_lastFingerprint d)(agentID \<mapsto> fp), dp_lastSentAt := (dp_lastSentAt d)(agentID \<mapsto> now)\<rparr>)
          | Inr (Inl _) \<Rightarrow> raise (Errorf ''enqueue probe plan'')
          | Inl err \<Rightarrow> raise (Wrapped ''enqueue probe plan'' err))))"

definition agents_of :: "Network list \<Rightarrow> string list" where
  "agents_of nets =
     map (\<lambda>n. trim_space (the (net_AgentID n))) (filter (\<lambda>n. net_AgentID n \<noteq> None \<and> trim_space (the (net_AgentID n)) \<noteq> []) nets)"

definition knownAgents :: "(AgentDispatcher, string list) prog" where
  "knownAgents =
     seq (outcome (dp_on_db ListNetworks)) (\<lambda>r. case r of Inl _ \<Rightarrow> ret [] | Inr nets \<Rightarrow> ret (agents_of nets))"

definition capability_set :: "string \<Rightarrow> string list" where
  "capability_set s = filter (\<lambda>m. m \<noteq> []) (map trim_space (split_on (CHR '','') s))"

definition capabilities_of :: "AgentStatus list \<Rightarrow> string \<rightharpoonup> string list" where
  "capabilities_of rows =
     map_of (rev (map (\<lambda>a. (as_AgentID a, capability_set (as_SupportedModules a)))
       (filter (\<lambda>a. trim_space (as_SupportedModules a) \<noteq> [] \<and> capability_set (as_SupportedModules a) \<noteq> []) rows)))"

definition agentCapabilities :: "(AgentDispatcher, string \<rightharpoonup> string list) prog" where
  "agentCapabilities =
     seq (outcome (dp_on_db ListAgentStatus)) (\<lambda>r. case r of Inl _ \<Rightarrow> ret Map.empty | Inr rows \<Rightarrow> ret (capabilities_of rows))"

definition agentSupports :: "(string \<rightharpoonup> string list) \<Rightarrow> string \<Rightarrow> string \<Rightarrow> bool" where
  "agentSupports caps agentID mdl =
     (case caps agentID of Some set_ \<Rightarrow> mdl \<in> set set_ | None \<Rightarrow> mdl \<in> set legacySupportedModules)"

text \<open>The maps the tick fills: the targets shipped to each agent, and how many were held back.\<close>

record shipping =
  sh_perAgent :: "(string \<times> ProbeTarget list) list"
  sh_heldBack :: "string \<Rightarrow> int"

fun add_target :: "string \<Rightarrow> ProbeTarget \<Rightarrow> (string \<times> ProbeTarget list) list \<Rightarrow> (string \<times> ProbeTarget list) list" where
  "add_target a t [] = [(a, [t])]"
| "add_target a t ((b, ts) # rest) = (if a = b then (b, ts @ [t]) # rest else (b, ts) # add_target a t rest)"

definition ship :: "(string \<rightharpoonup> string list) \<Rightarrow> ProbeTarget \<Rightarrow> string \<Rightarrow> shipping \<Rightarrow> shipping" where
  "ship caps t agentID sh =
     (if \<not> agentSupports caps agentID (pt_Module t) then sh\<lparr>sh_heldBack := (sh_heldBack sh)(agentID := sh_heldBack sh agentID + 1)\<rparr>
      else sh\<lparr>sh_perAgent := add_target agentID t (sh_perAgent sh)\<rparr>)"

definition recipients :: "string list \<Rightarrow> ProbeTarget \<Rightarrow> string list" where
  "recipients agents t =
     (if pt_Vantage t = ProbeVantageAll then agents
      else if has_prefix (pt_Vantage t) ProbeVantageAgentPrefix then
        (let agentID = drop (length ProbeVantageAgentPrefix) (pt_Vantage t) in if agentID = [] then [] else [agentID])
      else [])"

definition ship_targets :: "string list \<Rightarrow> (string \<rightharpoonup> string list) \<Rightarrow> ProbeTarget list \<Rightarrow> shipping" where
  "ship_targets agents caps ts =
     fold (\<lambda>t. fold (ship caps t) (recipients agents t)) ts \<lparr>sh_perAgent = [], sh_heldBack = (\<lambda>_. 0)\<rparr>"

text \<open>Errors of a send are logged and the loop goes on.\<close>

definition try_send :: "AgentCommandService \<Rightarrow> (string \<Rightarrow> string) \<Rightarrow> gotime \<Rightarrow> string \<Rightarrow> ProbeTarget list \<Rightarrow> (AgentDispatcher, unit) prog" where
  "try_send svc digest now agentID ts = seq (outcome (sendPlan svc digest now agentID ts)) (\<lambda>_. ret ())"

definition clear_plan ::
    "AgentCommandService \<Rightarrow> (string \<Rightarrow> string) \<Rightarrow> gotime \<Rightarrow> (string \<times> ProbeTarget list) list \<Rightarrow> string \<Rightarrow> (AgentDispatcher, unit) prog" where
  "clear_plan svc digest now perAgent agentID =
     (if agentID \<in> fst ` set perAgent then ret ()
      else seq (get_state (\<lambda>d. dp_lastFingerprint d agentID)) (\<lambda>f.
        if f = None \<or> f = Some [] then ret () else try_send svc digest now agentID []))"

definition note_held_back :: "(string \<Rightarrow> int) \<Rightarrow> string \<Rightarrow> (AgentDispatcher, unit) prog" where
  "note_held_back heldBack agentID =
     set_state (\<lambda>d. if (case dp_lastHeldBack d agentID of None \<Rightarrow> 0 | Some n \<Rightarrow> n) \<noteq> heldBack agentID
       then d\<lparr>dp_lastHeldBack := (dp_lastHeldBack d)(agentID \<mapsto> heldBack agentID)\<rparr> else d)"

definition dispatch_tick ::
    "AgentCommandService \<Rightarrow> (string \<Rightarrow> string) \<Rightarrow> (string list \<Rightarrow> string list) \<Rightarrow> gotime \<Rightarrow> (AgentDispatcher, unit) prog" where
  "dispatch_tick svc digest order now =
     seq (dp_on_db ListEnabledProbeTargets) (\<lambda>targets.
     seq knownAgents (\<lambda>agents.
     seq agentCapabilities (\<lambda>caps.
       let sh = ship_targets agents caps targets; perAgent = sh_perAgent sh in
       seq (for_each (\<lambda>a. try_send svc digest now a (the (map_of perAgent a))) (order (map fst perAgent))) (\<lambda>_.
       seq (for_each (clear_plan svc digest now perAgent) agents) (\<lambda>_.
       seq (for_each (note_held_back (sh_heldBack sh)) agents) (\<lambda>_. ret ()))))))"

definition DispatchTick ::
    "AgentCommandService \<Rightarrow> (string \<Rightarrow> string) \<Rightarrow> (string list \<Rightarrow> string list) \<Rightarrow> gotime \<Rightarrow> AgentDispatcher \<Rightarrow> AgentDispatcher" where
  "DispatchTick svc digest order now d = snd (dispatch_tick svc digest order now d)"

subsection \<open>What a tick plans\<close>

text \<open>The plan of one agent: the supported targets that name it, as often as they do.\<close>

definition plan_for :: "string list \<Rightarrow> (string \<rightharpoonup> string list) \<Rightarrow> ProbeTarget list \<Rightarrow> string \<Rightarrow> ProbeTarget list" where
  "plan_for agents caps ts a =
     concat (map (\<lambda>t. replicate (count_list (recipients agents t) a) t) (filter (\<lambda>t. agentSupports caps a (pt_Module t)) ts))"

definition plan_at :: "(string \<times> ProbeTarget list) list \<Rightarrow> string \<Rightarrow> ProbeTarget list" where
  "plan_at per a = (case map_of per a of None \<Rightarrow> [] | Some ts \<Rightarrow> ts)"

lemma map_of_add_target: "map_of (add_target a t per) b = (if b = a then Some (plan_at per a @ [t]) else map_of per b)"
  by (induction a t per rule: add_target.induct) (auto simp: plan_at_def)

lemma plan_at_ship:
  "plan_at (sh_perAgent (ship caps t r sh)) a =
    plan_at (sh_perAgent sh) a @ (if r = a \<and> agentSupports caps a (pt_Module t) then [t] else [])"
  by (auto simp: ship_def plan_at_def map_of_add_target)

lemma plan_at_ships:
  "plan_at (sh_perAgent (fold (ship caps t) rs sh)) a =
    plan_at (sh_perAgent sh) a @ (if agentSupports caps a (pt_Module t) then replicate (count_list rs a) t else [])"
proof (induction rs arbitrary: sh)
  case (Cons r rs)
  have "[t] @ replicate n t = replicate (Suc n) t" for n by simp
  then show ?case using Cons by (auto simp: plan_at_ship)
qed simp

lemma plan_at_targets:
  "plan_at (sh_perAgent (fold (\<lambda>t. fold (ship caps t) (recipients agents t)) ts sh)) a =
    plan_at (sh_perAgent sh) a @ plan_for agents caps ts a"
  by (induction ts arbitrary: sh) (auto simp: plan_at_ships plan_for_def)

text \<open>Every listed agent has something in its plan.\<close>

definition filled :: "(string \<times> ProbeTarget list) list \<Rightarrow> bool" where
  "filled per \<longleftrightarrow> (\<forall>a ts. map_of per a = Some ts \<longrightarrow> ts \<noteq> [] \<and> a \<noteq> [])"

lemma filled_ship: "filled (sh_perAgent sh) \<Longrightarrow> r \<noteq> [] \<Longrightarrow> filled (sh_perAgent (ship caps t r sh))"
  by (auto simp: filled_def ship_def map_of_add_target)

lemma filled_ships: "filled (sh_perAgent sh) \<Longrightarrow> [] \<notin> set rs \<Longrightarrow> filled (sh_perAgent (fold (ship caps t) rs sh))"
  by (induction rs arbitrary: sh) (auto simp: filled_ship)

lemma filled_targets:
  "filled (sh_perAgent sh) \<Longrightarrow> [] \<notin> set agents \<Longrightarrow> filled (sh_perAgent (fold (\<lambda>t. fold (ship caps t) (recipients agents t)) ts sh))"
proof (induction ts arbitrary: sh)
  case (Cons t ts)
  have "[] \<notin> set (recipients agents t)" using Cons.prems(2) by (auto simp: recipients_def Let_def)
  then show ?case using Cons filled_ships [OF Cons.prems(1)] by simp
qed simp

lemma agents_of_ne: "[] \<notin> set (agents_of nets)"
  by (auto simp: agents_of_def)

lemma shipped:
  assumes "[] \<notin> set agents"
  shows "a \<in> fst ` set (sh_perAgent (ship_targets agents caps ts)) \<longleftrightarrow> plan_for agents caps ts a \<noteq> []"
    "plan_for agents caps ts a \<noteq> [] \<Longrightarrow> a \<noteq> [] \<and> the (map_of (sh_perAgent (ship_targets agents caps ts)) a) = plan_for agents caps ts a"
proof -
  let ?per = "sh_perAgent (ship_targets agents caps ts)"
  have at: "plan_at ?per a = plan_for agents caps ts a" by (simp add: ship_targets_def plan_at_targets) (simp add: plan_at_def)
  have fill: "filled ?per" unfolding ship_targets_def by (rule filled_targets [OF _ assms]) (simp add: filled_def)
  have key: "a \<in> fst ` set ?per \<longleftrightarrow> map_of ?per a \<noteq> None" by (simp add: map_of_eq_None_iff)
  show "a \<in> fst ` set ?per \<longleftrightarrow> plan_for agents caps ts a \<noteq> []"
    unfolding key using at fill by (cases "map_of ?per a") (auto simp: plan_at_def filled_def)
  show "plan_for agents caps ts a \<noteq> [] \<Longrightarrow> a \<noteq> [] \<and> the (map_of ?per a) = plan_for agents caps ts a"
    using at fill by (cases "map_of ?per a") (auto simp: plan_at_def filled_def)
qed

subsection \<open>Sending\<close>

text \<open>The newest plan stored for an agent, and what the memory of the dispatcher says about it.\<close>

definition newest :: "probe_db \<Rightarrow> string \<Rightarrow> string option" where
  "newest db a =
     (let cs = filter (\<lambda>c. ac_AgentID c = a \<and> ac_Command c = ''probe'') (db_commands db)
      in if cs = [] then None else Some (ac_Payload (last cs)))"

definition holds_plan :: "(string \<Rightarrow> string) \<Rightarrow> probe_db \<Rightarrow> string \<Rightarrow> string \<Rightarrow> bool" where
  "holds_plan digest db a fp \<longleftrightarrow>
     (\<exists>specs. fp = PlanFingerprint digest specs \<and> newest db a = Some (marshal_payload (plan_payload digest specs)))"

definition disp_inv :: "(string \<Rightarrow> string) \<Rightarrow> AgentDispatcher \<Rightarrow> bool" where
  "disp_inv digest d \<longleftrightarrow> db_faults (dp_db d) = [] \<and> dom (dp_lastSentAt d) = dom (dp_lastFingerprint d) \<and>
     (\<forall>a f. dp_lastFingerprint d a = Some f \<longrightarrow> holds_plan digest (dp_db d) a f)"

text \<open>The tables a dispatcher reads.\<close>

definition same_tables :: "probe_db \<Rightarrow> probe_db \<Rightarrow> bool" where
  "same_tables db db' \<longleftrightarrow> db_targets db' = db_targets db \<and> db_networks db' = db_networks db \<and> db_agents db' = db_agents db"

lemma same_tables_refl [simp]: "same_tables db db"
  by (simp add: same_tables_def)

lemma same_tables_trans: "same_tables a b \<Longrightarrow> same_tables b c \<Longrightarrow> same_tables a c"
  by (simp add: same_tables_def)

lemma store_probe_newest:
  assumes "db_faults db = []" "store_command a ''probe'' payload db = (r, db')"
  shows "\<exists>c. r = Inr c \<and> db_faults db' = [] \<and> same_tables db db' \<and> newest db' a = Some payload \<and> (\<forall>b. b \<noteq> a \<longrightarrow> newest db' b = newest db b)"
proof -
  have db': "db' = db\<lparr>db_commands := filter (\<lambda>c. \<not> pending_of a ''probe'' c) (db_commands db) @ [new_command db a ''probe'' payload],
      db_command_seq := db_command_seq db + 1\<rparr>" "r = Inr (new_command db a ''probe'' payload)"
    using assms(2) unfolding store_probe [OF assms(1)] by (auto simp: Let_def)
  have "filter (\<lambda>c. ac_AgentID c = b \<and> ac_Command c = ''probe'') (filter (\<lambda>c. \<not> pending_of a ''probe'' c) cs) =
      filter (\<lambda>c. ac_AgentID c = b \<and> ac_Command c = ''probe'') cs" if "b \<noteq> a" for b cs
    using that by (induction cs) (auto simp: pending_of_def)
  then have "newest db' b = newest db b" if "b \<noteq> a" for b using that by (simp add: newest_def db'(1))
  moreover have "newest db' a = Some payload" by (simp add: newest_def db'(1))
  ultimately show ?thesis using db' assms(1) by (simp add: same_tables_def)
qed

text \<open>A send leaves the agent with the fingerprint of its plan and every other agent alone.\<close>

definition delivers :: "(string \<Rightarrow> string) \<Rightarrow> AgentDispatcher \<Rightarrow> AgentDispatcher \<Rightarrow> bool" where
  "delivers digest d d' \<longleftrightarrow> disp_inv digest d' \<and> same_tables (dp_db d) (dp_db d')"

lemma sendPlan_effect:
  assumes inv: "disp_inv digest d" and a: "a \<noteq> []" and dig: "\<And>x. digest x \<noteq> []" and run: "sendPlan svc digest now a ts d = (r, d')"
  shows "r = Inr () \<and> delivers digest d d' \<and> dp_lastFingerprint d' = (dp_lastFingerprint d)(a \<mapsto> PlanFingerprint digest (plan_specs a ts))"
proof -
  let ?specs = "plan_specs a ts" and ?fp = "PlanFingerprint digest (plan_specs a ts)"
  let ?skip = "dp_lastFingerprint d a = Some ?fp \<and> (?specs = [] \<or> (case dp_lastSentAt d a of None \<Rightarrow> False | Some t \<Rightarrow> time_sub now t < planRefreshInterval))"
  have fp: "?fp \<noteq> []" using dig by (simp add: PlanFingerprint_def)
  have ff: "db_faults (dp_db d) = []" using inv by (simp add: disp_inv_def)
  have eq: "(?fp = (case dp_lastFingerprint d a of None \<Rightarrow> [] | Some f \<Rightarrow> f)) \<longleftrightarrow> dp_lastFingerprint d a = Some ?fp"
    using fp by (auto split: option.splits)
  show ?thesis
  proof (cases ?skip)
    case True
    then have "r = Inr ()" "d' = d" using run by (auto simp: sendPlan_def Let_def seq_def get_state_def ret_def)
    then show ?thesis using True inv by (auto simp: delivers_def fun_upd_idem)
  next
    case False
    obtain r1 db1 where st: "store_command a ''probe'' (marshal_payload (plan_payload digest ?specs)) (dp_db d) = (r1, db1)" by fastforce
    obtain c where c: "r1 = Inr c" "db_faults db1 = []" "same_tables (dp_db d) db1"
        "newest db1 a = Some (marshal_payload (plan_payload digest ?specs))" "\<forall>b. b \<noteq> a \<longrightarrow> newest db1 b = newest (dp_db d) b"
      using store_probe_newest [OF ff st] by blast
    have enq: "Enqueue svc a ''probe'' (plan_payload digest ?specs) (dp_db d) = (Inr (Inr c), db1)"
      unfolding Enqueue_probe [OF a] using st c(1) by (simp add: seq_def ret_def)
    have d': "r = Inr ()" "d' = d\<lparr>dp_db := db1, dp_lastFingerprint := (dp_lastFingerprint d)(a \<mapsto> ?fp), dp_lastSentAt := (dp_lastSentAt d)(a \<mapsto> now)\<rparr>"
      using run False unfolding sendPlan_def Let_def
      by (auto simp: seq_def get_state_def eq outcome_def dp_on_db_def enq set_state_def)
    have "holds_plan digest db1 b f" if "((dp_lastFingerprint d)(a \<mapsto> ?fp)) b = Some f" for b f
      using that c inv by (cases "b = a") (auto simp: holds_plan_def disp_inv_def)
    then show ?thesis using d' c(2,3) inv by (simp add: delivers_def disp_inv_def)
  qed
qed

lemma delivers_refl: "disp_inv digest d \<Longrightarrow> delivers digest d d"
  by (simp add: delivers_def)

lemma delivers_trans: "delivers digest a b \<Longrightarrow> delivers digest b c \<Longrightarrow> delivers digest a c"
  by (auto simp: delivers_def intro: same_tables_trans)

text \<open>The loops of a tick.\<close>

lemma send_all:
  assumes dig: "\<And>x. digest x \<noteq> []" and ne: "[] \<notin> set as" and inv: "disp_inv digest d"
    and run: "for_each (\<lambda>a. try_send svc digest now a (plan a)) as d = (r, d')"
  shows "(\<exists>ys. r = Inr ys) \<and> delivers digest d d' \<and>
    (\<forall>a. dp_lastFingerprint d' a = (if a \<in> set as then Some (PlanFingerprint digest (plan_specs a (plan a))) else dp_lastFingerprint d a))"
  using ne inv run
proof (induction as arbitrary: d r d')
  case Nil
  then show ?case by (auto simp: ret_def delivers_refl)
next
  case (Cons x xs)
  obtain r1 d1 where s: "sendPlan svc digest now x (plan x) d = (r1, d1)" by fastforce
  have 1: "r1 = Inr ()" "delivers digest d d1" "dp_lastFingerprint d1 = (dp_lastFingerprint d)(x \<mapsto> PlanFingerprint digest (plan_specs x (plan x)))"
    using sendPlan_effect [OF Cons.prems(2) _ dig s] Cons.prems(1) by auto
  obtain r2 d2 where f: "for_each (\<lambda>a. try_send svc digest now a (plan a)) xs d1 = (r2, d2)" by fastforce
  have "disp_inv digest d1" using 1(2) by (simp add: delivers_def)
  then have 2: "\<exists>ys. r2 = Inr ys" "delivers digest d1 d2"
    "\<And>a. dp_lastFingerprint d2 a = (if a \<in> set xs then Some (PlanFingerprint digest (plan_specs a (plan a))) else dp_lastFingerprint d1 a)"
    using Cons.IH [OF _ _ f] Cons.prems(1) by auto
  have "try_send svc digest now x (plan x) d = (Inr (), d1)" using s by (simp add: try_send_def seq_def outcome_def ret_def)
  then have "d' = d2" "\<exists>ys. r = Inr ys" using Cons.prems(3) f 2(1) by (auto simp: seq_def ret_def)
  then show ?case using 1 2 delivers_trans by auto
qed

lemma clear_all:
  assumes dig: "\<And>x. digest x \<noteq> []" and ne: "[] \<notin> set as" and inv: "disp_inv digest d"
    and run: "for_each (clear_plan svc digest now per) as d = (r, d')"
  shows "(\<exists>ys. r = Inr ys) \<and> delivers digest d d' \<and>
    (\<forall>a. dp_lastFingerprint d' a = (if a \<in> set as \<and> a \<notin> fst ` set per \<and> dp_lastFingerprint d a \<noteq> None
       then Some (PlanFingerprint digest []) else dp_lastFingerprint d a))"
  using ne inv run
proof (induction as arbitrary: d r d')
  case Nil
  then show ?case by (auto simp: ret_def delivers_refl)
next
  case (Cons x xs)
  obtain r1 d1 where s: "clear_plan svc digest now per x d = (r1, d1)" by fastforce
  have nil: "plan_specs x [] = []" by (simp add: plan_specs_def)
  have nofp: "dp_lastFingerprint d x \<noteq> Some []"
    using Cons.prems(2) dig unfolding disp_inv_def holds_plan_def PlanFingerprint_def by metis
  have 1: "r1 = Inr ()" "delivers digest d d1"
    "dp_lastFingerprint d1 = (if x \<notin> fst ` set per \<and> dp_lastFingerprint d x \<noteq> None
      then (dp_lastFingerprint d)(x \<mapsto> PlanFingerprint digest []) else dp_lastFingerprint d)"
  proof -
    have "r1 = Inr () \<and> delivers digest d d1 \<and> dp_lastFingerprint d1 = (if x \<notin> fst ` set per \<and> dp_lastFingerprint d x \<noteq> None
      then (dp_lastFingerprint d)(x \<mapsto> PlanFingerprint digest []) else dp_lastFingerprint d)"
    proof (cases "x \<notin> fst ` set per \<and> dp_lastFingerprint d x \<noteq> None")
      case True
      obtain r2 d2 where p: "sendPlan svc digest now x [] d = (r2, d2)" by fastforce
      have "r1 = Inr ()" "d1 = d2" using s True p nofp by (auto simp: clear_plan_def try_send_def seq_def outcome_def get_state_def ret_def)
      moreover have "x \<noteq> []" using Cons.prems(1) by auto
      ultimately show ?thesis using sendPlan_effect [OF Cons.prems(2) _ dig p] True nil by simp
    next
      case False
      then have "r1 = Inr ()" "d1 = d" using s by (auto simp: clear_plan_def seq_def get_state_def ret_def split: if_splits)
      then show ?thesis using False delivers_refl [OF Cons.prems(2)] by auto
    qed
    then show "r1 = Inr ()" "delivers digest d d1"
      "dp_lastFingerprint d1 = (if x \<notin> fst ` set per \<and> dp_lastFingerprint d x \<noteq> None
        then (dp_lastFingerprint d)(x \<mapsto> PlanFingerprint digest []) else dp_lastFingerprint d)" by blast+
  qed
  obtain r2 d2 where f: "for_each (clear_plan svc digest now per) xs d1 = (r2, d2)" by fastforce
  have "disp_inv digest d1" using 1(2) by (simp add: delivers_def)
  then have 2: "\<exists>ys. r2 = Inr ys" "delivers digest d1 d2"
    "\<And>a. dp_lastFingerprint d2 a = (if a \<in> set xs \<and> a \<notin> fst ` set per \<and> dp_lastFingerprint d1 a \<noteq> None
       then Some (PlanFingerprint digest []) else dp_lastFingerprint d1 a)"
    using Cons.IH [OF _ _ f] Cons.prems(1) by auto
  have "d' = d2" "\<exists>ys. r = Inr ys" using Cons.prems(3) s f 1(1) 2(1) by (auto simp: seq_def ret_def)
  then show ?case using 1(2) 2(2) delivers_trans by (auto simp: 2(3) 1(3))
qed

lemma note_all:
  "for_each (note_held_back h) as d = (r, d') \<Longrightarrow> disp_inv digest d \<Longrightarrow>
    (\<exists>ys. r = Inr ys) \<and> delivers digest d d' \<and> dp_lastFingerprint d' = dp_lastFingerprint d"
proof (induction as arbitrary: d r d')
  case (Cons x xs)
  obtain d1 where d1: "note_held_back h x d = (Inr (), d1)" by (simp add: note_held_back_def set_state_def)
  then have "d1 = d \<or> (\<exists>m. d1 = d\<lparr>dp_lastHeldBack := m\<rparr>)" by (auto simp: note_held_back_def set_state_def split: if_splits)
  then have 1: "delivers digest d d1" "dp_lastFingerprint d1 = dp_lastFingerprint d"
    using Cons.prems(2) unfolding delivers_def disp_inv_def by (elim disjE exE; simp)+
  obtain r2 d2 where f: "for_each (note_held_back h) xs d1 = (r2, d2)" by fastforce
  have "disp_inv digest d1" using 1(1) by (simp add: delivers_def)
  then have 2: "\<exists>ys. r2 = Inr ys" "delivers digest d1 d2" "dp_lastFingerprint d2 = dp_lastFingerprint d1" using Cons.IH [OF f] by auto
  have "d' = d2" "\<exists>ys. r = Inr ys" using Cons.prems(1) d1 f 2(1) by (auto simp: seq_def ret_def)
  then show ?case using 1 2 delivers_trans by auto
qed (auto simp: ret_def delivers_refl)

text \<open>The plan the tables call for.\<close>

definition known_of :: "probe_db \<Rightarrow> string list" where
  "known_of db = agents_of (sort_by (\<lambda>a b. net_ID a < net_ID b) (db_networks db))"

definition current_plan :: "probe_db \<Rightarrow> string \<Rightarrow> ProbeTarget list" where
  "current_plan db a =
     plan_for (known_of db) (capabilities_of (sort_by (\<lambda>a b. as_LastReportAt a < as_LastReportAt b) (db_agents db)))
       (filter (\<lambda>t. pt_Enabled t = 1) (db_targets db)) a"

lemma current_plan_cong: "same_tables db db' \<Longrightarrow> current_plan db' = current_plan db \<and> known_of db' = known_of db"
  by (auto simp: same_tables_def current_plan_def known_of_def fun_eq_iff)

lemma dp_read: "db_faults (dp_db d) = [] \<Longrightarrow> dp_on_db (stmt (get_state f)) d = (Inr (f (dp_db d)), d)"
  by (simp add: dp_on_db_def stmt_def get_state_def)

definition current_shipping :: "probe_db \<Rightarrow> shipping" where
  "current_shipping db =
     ship_targets (known_of db) (capabilities_of (sort_by (\<lambda>a b. as_LastReportAt a < as_LastReportAt b) (db_agents db)))
       (filter (\<lambda>t. pt_Enabled t = 1) (db_targets db))"

lemma current_shipping:
  "a \<in> fst ` set (sh_perAgent (current_shipping db)) \<longleftrightarrow> current_plan db a \<noteq> []"
  "current_plan db a \<noteq> [] \<Longrightarrow> a \<noteq> [] \<and> the (map_of (sh_perAgent (current_shipping db)) a) = current_plan db a"
proof -
  have ne: "[] \<notin> set (known_of db)" by (simp add: known_of_def agents_of_ne)
  show "a \<in> fst ` set (sh_perAgent (current_shipping db)) \<longleftrightarrow> current_plan db a \<noteq> []"
    unfolding current_shipping_def current_plan_def by (rule shipped(1) [OF ne])
  show "current_plan db a \<noteq> [] \<Longrightarrow> a \<noteq> [] \<and> the (map_of (sh_perAgent (current_shipping db)) a) = current_plan db a"
    unfolding current_shipping_def current_plan_def by (rule shipped(2) [OF ne])
qed

text \<open>A tick whose reads succeed is its three loops.\<close>

lemma dispatch_tick_loops:
  assumes "db_faults (dp_db d) = []"
  shows "dispatch_tick svc digest order now d =
    (let sh = current_shipping (dp_db d); agents = known_of (dp_db d); per = sh_perAgent sh in
     seq (for_each (\<lambda>a. try_send svc digest now a (the (map_of per a))) (order (map fst per))) (\<lambda>_.
     seq (for_each (clear_plan svc digest now per) agents) (\<lambda>_.
     seq (for_each (note_held_back (sh_heldBack sh)) agents) (\<lambda>_. ret ()))) d)"
proof -
  have "dp_on_db ListEnabledProbeTargets d = (Inr (filter (\<lambda>t. pt_Enabled t = 1) (db_targets (dp_db d))), d)"
    "knownAgents d = (Inr (known_of (dp_db d)), d)"
    "agentCapabilities d = (Inr (capabilities_of (sort_by (\<lambda>a b. as_LastReportAt a < as_LastReportAt b) (db_agents (dp_db d)))), d)"
    by (simp_all add: dp_read [OF assms] ListEnabledProbeTargets_def knownAgents_def ListNetworks_def known_of_def
        agentCapabilities_def ListAgentStatus_def seq_def outcome_def ret_def)
  then show ?thesis unfolding dispatch_tick_def by (simp add: seq_def [of "dp_on_db ListEnabledProbeTargets"] seq_def [of knownAgents]
        seq_def [of agentCapabilities] Let_def current_shipping_def)
qed

lemma DispatchTick_effect:
  assumes inv: "disp_inv digest d" and dig: "\<And>x. digest x \<noteq> []" and order: "\<And>xs. set (order xs) = set xs"
    and d': "d' = DispatchTick svc digest order now d"
  shows "delivers digest d d' \<and>
    (\<forall>a. dp_lastFingerprint d' a =
      (if current_plan (dp_db d) a \<noteq> [] then Some (PlanFingerprint digest (plan_specs a (current_plan (dp_db d) a)))
       else if a \<in> set (known_of (dp_db d)) \<and> dp_lastFingerprint d a \<noteq> None then Some (PlanFingerprint digest [])
       else dp_lastFingerprint d a))"
proof -
  have ff: "db_faults (dp_db d) = []" using inv by (simp add: disp_inv_def)
  define sh where "sh = current_shipping (dp_db d)"
  note keys = current_shipping(1) [of _ "dp_db d", folded sh_def] and val = current_shipping(2) [of "dp_db d", folded sh_def]
  have ne: "[] \<notin> set (known_of (dp_db d))" by (simp add: known_of_def agents_of_ne)
  let ?as = "order (map fst (sh_perAgent sh))" and ?agents = "known_of (dp_db d)"
  have as: "set ?as = fst ` set (sh_perAgent sh)" by (simp add: order)
  obtain r1 d1 where 1: "for_each (\<lambda>a. try_send svc digest now a (the (map_of (sh_perAgent sh) a))) ?as d = (r1, d1)" by fastforce
  have "[] \<notin> set ?as" unfolding as keys using val by blast
  note e1 = send_all [OF dig this inv 1]
  obtain r2 d2 where 2: "for_each (clear_plan svc digest now (sh_perAgent sh)) ?agents d1 = (r2, d2)" by fastforce
  have "disp_inv digest d1" using e1 by (simp add: delivers_def)
  note e2 = clear_all [OF dig ne this 2]
  obtain r3 d3 where 3: "for_each (note_held_back (sh_heldBack sh)) ?agents d2 = (r3, d3)" by fastforce
  have "disp_inv digest d2" using e2 by (simp add: delivers_def)
  note e3 = note_all [OF 3 this]
  have d3: "d' = d3"
    using e1 e2 e3 1 2 3 unfolding d' DispatchTick_def dispatch_tick_loops [OF ff]
    by (auto simp: seq_def Let_def sh_def [symmetric] ret_def)
  then have "delivers digest d d'" using e1 e2 e3 delivers_trans by blast
  moreover have "dp_lastFingerprint d' a =
      (if current_plan (dp_db d) a \<noteq> [] then Some (PlanFingerprint digest (plan_specs a (current_plan (dp_db d) a)))
       else if a \<in> set ?agents \<and> dp_lastFingerprint d a \<noteq> None then Some (PlanFingerprint digest [])
       else dp_lastFingerprint d a)" for a
    using d3 e1 e2 e3 val [of a] unfolding as keys by auto
  ultimately show ?thesis by blast
qed

text \<open>A send that finds its plan known and recent changes nothing.\<close>

lemma send_still:
  assumes "dp_lastFingerprint d a = Some (PlanFingerprint digest (plan_specs a ts))"
    and "plan_specs a ts = [] \<or> (\<exists>t. dp_lastSentAt d a = Some t \<and> time_sub now t < planRefreshInterval)"
  shows "try_send svc digest now a ts d = (Inr (), d)"
  using assms by (auto simp: try_send_def sendPlan_def seq_def outcome_def get_state_def ret_def Let_def)

lemma for_each_still: "(\<And>x. x \<in> set xs \<Longrightarrow> f x s = (Inr y, s)) \<Longrightarrow> \<exists>ys. for_each f xs s = (Inr ys, s)"
  by (induction xs) (auto simp: seq_def ret_def)

lemma notes_db: "dp_db (snd (for_each (note_held_back h) as d)) = dp_db d"
proof -
  have "keeps (\<lambda>s. dp_db s = dp_db d) (for_each (note_held_back h) as)"
    by (intro keeps_for_each) (simp add: keeps_def note_held_back_def set_state_def)
  then show ?thesis by (simp add: keeps_def)
qed

subsection \<open>Runs of the dispatcher\<close>

text \<open>
  Between the ticks targets, networks and agent snapshots change in any way, and agents acknowledge and
  complete commands.
\<close>

datatype dispatch_event =
    Tick gotime
  | Tables "ProbeTarget list" "Network list" "AgentStatus list"
  | Acked int
  | Completed int string string

definition run_event ::
    "AgentCommandService \<Rightarrow> (string \<Rightarrow> string) \<Rightarrow> (string list \<Rightarrow> string list) \<Rightarrow> dispatch_event \<Rightarrow> AgentDispatcher \<Rightarrow> AgentDispatcher" where
  "run_event svc digest order ev d =
     (case ev of
        Tick now \<Rightarrow> DispatchTick svc digest order now d
      | Tables ts ns as \<Rightarrow> d\<lparr>dp_db := (dp_db d)\<lparr>db_targets := ts, db_networks := ns, db_agents := as\<rparr>\<rparr>
      | Acked i \<Rightarrow> d\<lparr>dp_db := snd (Ack i (dp_db d))\<rparr>
      | Completed i status res \<Rightarrow> d\<lparr>dp_db := snd (Complete i status res (dp_db d))\<rparr>)"

lemma newest_map:
  assumes "\<And>c. ac_AgentID (f c) = ac_AgentID c \<and> ac_Command (f c) = ac_Command c \<and> ac_Payload (f c) = ac_Payload c"
  shows "newest (db\<lparr>db_commands := map f (db_commands db)\<rparr>) = newest db"
proof -
  have "filter (\<lambda>c. ac_AgentID c = a \<and> ac_Command c = ''probe'') (map f cs) = map f (filter (\<lambda>c. ac_AgentID c = a \<and> ac_Command c = ''probe'') cs)" for a cs
    using assms by (induction cs) auto
  then show ?thesis using assms by (simp add: newest_def fun_eq_iff Let_def last_map)
qed

lemma disp_inv_db:
  "disp_inv digest d \<Longrightarrow> db_faults db = [] \<Longrightarrow> newest db = newest (dp_db d) \<Longrightarrow> disp_inv digest (d\<lparr>dp_db := db\<rparr>)"
  by (simp add: disp_inv_def holds_plan_def)

lemma disp_inv_event:
  assumes inv: "disp_inv digest d" and "\<And>x. digest x \<noteq> []" "\<And>xs. set (order xs) = set xs"
  shows "disp_inv digest (run_event svc digest order ev d)"
proof (cases ev)
  case (Tick now)
  then show ?thesis using DispatchTick_effect [OF assms refl] by (simp add: run_event_def delivers_def)
next
  case (Tables ts ns as)
  have "newest ((dp_db d)\<lparr>db_targets := ts, db_networks := ns, db_agents := as\<rparr>) = newest (dp_db d)" by (simp add: newest_def fun_eq_iff)
  then show ?thesis using Tables inv by (simp add: run_event_def disp_inv_db) (simp add: disp_inv_def holds_plan_def)
next
  case (Acked i)
  have ff: "db_faults (dp_db d) = []" using inv by (simp add: disp_inv_def)
  let ?f = "\<lambda>c. if ac_ID c = i \<and> ac_Status c = ''pending'' then c\<lparr>ac_Status := ''acknowledged'', ac_AcknowledgedAt := Some (db_clock (dp_db d))\<rparr> else c"
  have eq: "snd (Ack i (dp_db d)) = (dp_db d)\<lparr>db_commands := map ?f (db_commands (dp_db d))\<rparr>" using ff by (simp add: Ack_def AckAgentCommand_def stmt_no_faults)
  show ?thesis unfolding Acked run_event_def dispatch_event.case eq by (intro disp_inv_db [OF inv] newest_map) (simp_all add: ff)
next
  case (Completed i status res)
  have ff: "db_faults (dp_db d) = []" using inv by (simp add: disp_inv_def)
  let ?st = "if status \<noteq> ''done'' \<and> status \<noteq> ''failed'' then ''done'' else status"
  let ?f = "\<lambda>c. if ac_ID c = i then c\<lparr>ac_Status := ?st, ac_Result := Some res\<rparr> else c"
  have eq: "snd (Complete i status res (dp_db d)) = (dp_db d)\<lparr>db_commands := map ?f (db_commands (dp_db d))\<rparr>"
    using ff by (simp add: Complete_def CompleteAgentCommand_def stmt_no_faults command_check_def)
  show ?thesis unfolding Completed run_event_def dispatch_event.case eq by (intro disp_inv_db [OF inv] newest_map) (simp_all add: ff)
qed

lemma disp_inv_run:
  assumes "\<And>x. digest x \<noteq> []" "\<And>xs. set (order xs) = set xs"
  shows "disp_inv digest d \<Longrightarrow> disp_inv digest (fold (run_event svc digest order) evs d)"
  by (induction evs arbitrary: d) (simp_all add: disp_inv_event assms)

lemma disp_inv_new: "db_faults db = [] \<Longrightarrow> disp_inv digest (NewAgentDispatcher db)"
  by (simp add: disp_inv_def NewAgentDispatcher_def)

subsection \<open>Properties\<close>

text \<open>
  C33.  Plans reach the queue: after every tick of a run without failing statements, whatever changed in between, the
  newest plan stored for an agent is the one its targets, its capabilities and its networks call for,
  up to a collision of the digest.  An agent of a known network that has nothing left to probe holds
  the empty plan, unless this dispatcher never sent it one.
\<close>

theorem plans_delivered:
  assumes "db_faults db = []" "\<And>x. digest x \<noteq> []" "\<And>xs. set (order xs) = set xs"
    and "d = DispatchTick svc digest order now (fold (run_event svc digest order) evs (NewAgentDispatcher db))"
  shows "(current_plan (dp_db d) a \<noteq> [] \<longrightarrow>
      holds_plan digest (dp_db d) a (PlanFingerprint digest (plan_specs a (current_plan (dp_db d) a)))) \<and>
    (current_plan (dp_db d) a = [] \<and> a \<in> set (known_of (dp_db d)) \<longrightarrow>
      dp_lastFingerprint d a = None \<or> holds_plan digest (dp_db d) a (PlanFingerprint digest []))"
proof -
  let ?d = "fold (run_event svc digest order) evs (NewAgentDispatcher db)"
  have "disp_inv digest ?d" by (rule disp_inv_run [OF assms(2,3) disp_inv_new [OF assms(1)]])
  note eff = DispatchTick_effect [OF this assms(2,3,4)]
  have inv: "disp_inv digest d" and tabs: "current_plan (dp_db ?d) = current_plan (dp_db d)" "known_of (dp_db ?d) = known_of (dp_db d)"
    using eff current_plan_cong by (auto simp: delivers_def)
  then show ?thesis using eff unfolding disp_inv_def by (auto split: if_splits) 
qed

text \<open>
  C34.  A steady fleet costs no traffic: a tick over the same tables, while every plan that was sent is younger than
  the refresh interval, enqueues nothing.
\<close>

theorem steady_tick_quiet:
  assumes "db_faults db = []" "\<And>x. digest x \<noteq> []" "\<And>xs. set (order xs) = set xs"
    and "d = DispatchTick svc digest order now (fold (run_event svc digest order) evs (NewAgentDispatcher db))"
    and "\<And>a t. dp_lastSentAt d a = Some t \<Longrightarrow> time_sub now' t < planRefreshInterval"
  shows "db_commands (dp_db (DispatchTick svc digest order now' d)) = db_commands (dp_db d)"
proof -
  let ?d = "fold (run_event svc digest order) evs (NewAgentDispatcher db)" and ?sh = "current_shipping (dp_db d)"
  have "disp_inv digest ?d" by (rule disp_inv_run [OF assms(2,3) disp_inv_new [OF assms(1)]])
  note eff = DispatchTick_effect [OF this assms(2,3,4)]
  have inv: "disp_inv digest d" and tabs: "current_plan (dp_db ?d) = current_plan (dp_db d)" "known_of (dp_db ?d) = known_of (dp_db d)"
    using eff current_plan_cong by (auto simp: delivers_def)
  have ff: "db_faults (dp_db d) = []" using inv by (simp add: disp_inv_def)
  have fp: "dp_lastFingerprint d a = Some (PlanFingerprint digest (plan_specs a (current_plan (dp_db d) a)))" if "current_plan (dp_db d) a \<noteq> []" for a
    using eff that unfolding tabs by simp
  have cl: "dp_lastFingerprint d a = None \<or> dp_lastFingerprint d a = Some (PlanFingerprint digest (plan_specs a []))"
    if "current_plan (dp_db d) a = []" "a \<in> set (known_of (dp_db d))" for a
    using eff that unfolding tabs by (auto simp: plan_specs_def split: if_splits)
  have young: "\<exists>t. dp_lastSentAt d a = Some t \<and> time_sub now' t < planRefreshInterval" if "dp_lastFingerprint d a \<noteq> None" for a
  proof -
    have "a \<in> dom (dp_lastSentAt d)" using inv that by (auto simp: disp_inv_def)
    then show ?thesis using assms(5) by blast
  qed
  have "try_send svc digest now' a (the (map_of (sh_perAgent ?sh) a)) d = (Inr (), d)" if "a \<in> set (order (map fst (sh_perAgent ?sh)))" for a
    using that [unfolded assms(3) list.set_map] current_shipping(2) [of "dp_db d" a] fp [of a] young [of a] unfolding current_shipping(1) by (auto intro!: send_still)
  then have 1: "\<exists>ys. for_each (\<lambda>a. try_send svc digest now' a (the (map_of (sh_perAgent ?sh) a))) (order (map fst (sh_perAgent ?sh))) d = (Inr ys, d)"
    by (intro for_each_still [where y = "()"]) simp
  have "clear_plan svc digest now' (sh_perAgent ?sh) a d = (Inr (), d)" if "a \<in> set (known_of (dp_db d))" for a
    using cl [OF _ that] send_still [of d a digest "[]" now' svc] current_shipping(1) [of a "dp_db d"]
    by (auto simp: clear_plan_def seq_def get_state_def ret_def plan_specs_def)
  then have 2: "\<exists>zs. for_each (clear_plan svc digest now' (sh_perAgent ?sh)) (known_of (dp_db d)) d = (Inr zs, d)"
    by (intro for_each_still [where y = "()"]) simp
  have "dp_db (snd (dispatch_tick svc digest order now' d)) = dp_db (snd (for_each (note_held_back (sh_heldBack ?sh)) (known_of (dp_db d)) d))"
    unfolding dispatch_tick_loops [OF ff] Let_def using 1 2 by (auto simp: seq_def ret_def split: prod.splits sum.splits)
  then show ?thesis by (simp add: DispatchTick_def notes_db)
qed

text \<open>A target for every agent, and a digest that only marks its input.\<close>

definition shared_target :: ProbeTarget where
  "shared_target = demo_target\<lparr>pt_Module := ''http'', pt_Target := ''http://a/'', pt_Vantage := ProbeVantageAll\<rparr>"

definition mark :: "string \<Rightarrow> string" where
  "mark s = CHR ''h'' # s"

definition demo_fleet :: probe_db where
  "demo_fleet = (fleet_db ''10.0.0.0/24'')\<lparr>db_targets := [shared_target]\<rparr>"

definition demo_dispatcher :: AgentDispatcher where
  "demo_dispatcher = DispatchTick (NewAgentCommandService False False) mark id 0 (NewAgentDispatcher demo_fleet)"

lemma demo_fleet_quiet: "db_faults demo_fleet = []"
  by (simp add: demo_fleet_def fleet_db_quiet)

theorem plans_delivered_witness:
  "current_plan (dp_db demo_dispatcher) ''a1'' = [shared_target] \<and>
   holds_plan mark (dp_db demo_dispatcher) ''a1'' (PlanFingerprint mark (plan_specs ''a1'' [shared_target]))"
proof -
  have "current_plan (dp_db demo_dispatcher) ''a1'' = [shared_target]" by code_simp
  then show ?thesis
    using plans_delivered [of demo_fleet mark id demo_dispatcher "NewAgentCommandService False False" 0 "[]" "''a1''"] demo_fleet_quiet
    by (simp add: mark_def demo_dispatcher_def)
qed

text \<open>After the first tick every plan was sent at its time.\<close>

definition sent_at :: "gotime \<Rightarrow> AgentDispatcher \<Rightarrow> bool" where
  "sent_at now d \<longleftrightarrow> (\<forall>a t. dp_lastSentAt d a = Some t \<longrightarrow> t = now)"

lemma sent_at_db: "keeps (sent_at now) (dp_on_db m)"
  by (auto simp: keeps_def dp_on_db_def sent_at_def split: prod.splits)

lemma keeps_case_prod: "(\<And>x y. keeps P (f x y)) \<Longrightarrow> keeps P (case p of (x, y) \<Rightarrow> f x y)"
  by (cases p) simp

lemma sent_at_record:
  "keeps (sent_at now) (set_state (\<lambda>d. d\<lparr>dp_lastFingerprint := f d, dp_lastSentAt := (dp_lastSentAt d)(a \<mapsto> now)\<rparr>))"
  by (auto simp: keeps_def set_state_def sent_at_def)

lemma sent_at_send: "keeps (sent_at now) (try_send svc digest now a ts)"
  unfolding try_send_def sendPlan_def Let_def
  by (intro keeps_seq keeps_outcome keeps_get_state keeps_ret keeps_case_prod keeps_if keeps_sum keeps_raise sent_at_db sent_at_record)

lemma sent_at_tick: "keeps (sent_at now) (dispatch_tick svc digest order now)"
proof -
  have "keeps (sent_at now) (note_held_back h a)" for h a
    by (auto simp: keeps_def note_held_back_def set_state_def sent_at_def)
  then show ?thesis unfolding dispatch_tick_def knownAgents_def agentCapabilities_def clear_plan_def Let_def
    by (intro keeps_seq keeps_outcome keeps_get_state keeps_ret keeps_if keeps_sum keeps_for_each sent_at_db sent_at_send)
qed

theorem steady_tick_quiet_witness:
  "length (db_commands (dp_db demo_dispatcher)) = 1 \<and>
   db_commands (dp_db (DispatchTick (NewAgentCommandService False False) mark id (60 * second) demo_dispatcher)) = db_commands (dp_db demo_dispatcher)"
proof
  show "length (db_commands (dp_db demo_dispatcher)) = 1" by code_simp
  have "sent_at 0 demo_dispatcher" unfolding demo_dispatcher_def DispatchTick_def
    by (rule keepsD [OF sent_at_tick]) (simp add: sent_at_def NewAgentDispatcher_def)
  then have "t = 0" if "dp_lastSentAt demo_dispatcher a = Some t" for a t using that by (auto simp: sent_at_def)
  then have "time_sub (60 * second) t < planRefreshInterval" if "dp_lastSentAt demo_dispatcher a = Some t" for a t
    using that by (fastforce simp: time_sub_def planRefreshInterval_def second_def)
  then show "db_commands (dp_db (DispatchTick (NewAgentCommandService False False) mark id (60 * second) demo_dispatcher)) = db_commands (dp_db demo_dispatcher)"
    using steady_tick_quiet [of demo_fleet mark id demo_dispatcher "NewAgentCommandService False False" 0 "[]" "60 * second"] demo_fleet_quiet
    by (simp add: mark_def demo_dispatcher_def)
qed

subsection \<open>Agents nothing addresses any more\<close>

lemma Enqueue_newest:
  assumes "b \<noteq> a" "b \<noteq> []"
  shows "keeps (\<lambda>d. db_faults (dp_db d) = [] \<and> newest (dp_db d) a = x) (dp_on_db (Enqueue svc b ''probe'' p))"
  unfolding keeps_def
proof (intro allI impI)
  fix d :: AgentDispatcher
  assume d: "db_faults (dp_db d) = [] \<and> newest (dp_db d) a = x"
  obtain r db' where st: "store_command b ''probe'' (marshal_payload p) (dp_db d) = (r, db')" by fastforce
  obtain c where "r = Inr c" "db_faults db' = []" "newest db' a = newest (dp_db d) a"
    using store_probe_newest [OF _ st] d assms(1) by auto
  then show "db_faults (dp_db (snd (dp_on_db (Enqueue svc b ''probe'' p) d))) = [] \<and> newest (dp_db (snd (dp_on_db (Enqueue svc b ''probe'' p) d))) a = x"
    using d st unfolding Enqueue_probe [OF assms(2)] dp_on_db_def by (simp add: seq_def ret_def)
qed

lemma try_send_newest:
  assumes "b \<noteq> a" "b \<noteq> []"
  shows "keeps (\<lambda>d. db_faults (dp_db d) = [] \<and> newest (dp_db d) a = x) (try_send svc digest now b ts)"
proof -
  have "keeps (\<lambda>d. db_faults (dp_db d) = [] \<and> newest (dp_db d) a = x)
      (set_state (\<lambda>d. d\<lparr>dp_lastFingerprint := f d, dp_lastSentAt := g d\<rparr>))" for f g
    by (simp add: keeps_def set_state_def)
  then show ?thesis unfolding try_send_def sendPlan_def Let_def
    by (intro keeps_seq keeps_outcome keeps_get_state keeps_ret keeps_case_prod keeps_if keeps_sum keeps_raise Enqueue_newest [OF assms])
qed

text \<open>A tick leaves the newest plan of an agent alone when nothing is planned for it and no network is bound to it.\<close>

lemma tick_newest:
  assumes order: "\<And>xs. set (order xs) = set xs" and ff: "db_faults (dp_db d) = []"
    and plan: "current_plan (dp_db d) a = []" and unbound: "a \<notin> set (known_of (dp_db d))"
  shows "newest (dp_db (DispatchTick svc digest order now d)) a = newest (dp_db d) a"
proof -
  let ?P = "\<lambda>d'. db_faults (dp_db d') = [] \<and> newest (dp_db d') a = newest (dp_db d) a"
  define sh where "sh = current_shipping (dp_db d)"
  have ne: "[] \<notin> set (known_of (dp_db d))" by (simp add: known_of_def agents_of_ne)
  have as: "b \<noteq> a \<and> b \<noteq> []" if "b \<in> set (order (map fst (sh_perAgent sh)))" for b
    using that current_shipping [where a = b and db = "dp_db d"] plan by (auto simp: order sh_def)
  have "keeps ?P (clear_plan svc digest now (sh_perAgent sh) b)" if "b \<in> set (known_of (dp_db d))" for b
    unfolding clear_plan_def using that ne unbound by (intro keeps_if keeps_seq keeps_get_state keeps_ret try_send_newest) auto
  moreover have "keeps ?P (note_held_back h b)" for h b by (simp add: keeps_def note_held_back_def set_state_def)
  moreover have "keeps ?P (try_send svc digest now b (the (map_of (sh_perAgent sh) b)))" if "b \<in> set (order (map fst (sh_perAgent sh)))" for b
    using as [OF that] by (intro try_send_newest) auto
  ultimately have "keeps ?P (seq (for_each (\<lambda>a. try_send svc digest now a (the (map_of (sh_perAgent sh) a))) (order (map fst (sh_perAgent sh)))) (\<lambda>_.
     seq (for_each (clear_plan svc digest now (sh_perAgent sh)) (known_of (dp_db d))) (\<lambda>_.
     seq (for_each (note_held_back (sh_heldBack sh)) (known_of (dp_db d))) (\<lambda>_. ret ()))))"
    by (intro keeps_seq keeps_for_each_in keeps_ret) auto
  from keepsD [OF this, of d] show ?thesis
    unfolding DispatchTick_def dispatch_tick_loops [OF ff] by (simp add: ff Let_def sh_def)
qed

text \<open>Settling a command changes neither the plans nor the tables.\<close>

lemma newest_settled:
  assumes "db_faults db = []"
  shows "newest (snd (Ack i db)) = newest db \<and> db_targets (snd (Ack i db)) = db_targets db \<and> db_networks (snd (Ack i db)) = db_networks db"
    "newest (snd (Complete i status res db)) = newest db \<and> db_targets (snd (Complete i status res db)) = db_targets db \<and>
     db_networks (snd (Complete i status res db)) = db_networks db"
proof -
  have "snd (Ack i db) = db\<lparr>db_commands := map (\<lambda>c. if ac_ID c = i \<and> ac_Status c = ''pending''
      then c\<lparr>ac_Status := ''acknowledged'', ac_AcknowledgedAt := Some (db_clock db)\<rparr> else c) (db_commands db)\<rparr>"
    using assms by (simp add: Ack_def AckAgentCommand_def stmt_no_faults)
  then show "newest (snd (Ack i db)) = newest db \<and> db_targets (snd (Ack i db)) = db_targets db \<and> db_networks (snd (Ack i db)) = db_networks db"
    by (simp add: newest_map)
  have "snd (Complete i status res db) = db\<lparr>db_commands := map (\<lambda>c. if ac_ID c = i
      then c\<lparr>ac_Status := if status \<noteq> ''done'' \<and> status \<noteq> ''failed'' then ''done'' else status, ac_Result := Some res\<rparr> else c) (db_commands db)\<rparr>"
    using assms by (simp add: Complete_def CompleteAgentCommand_def stmt_no_faults command_check_def)
  then show "newest (snd (Complete i status res db)) = newest db \<and> db_targets (snd (Complete i status res db)) = db_targets db \<and>
     db_networks (snd (Complete i status res db)) = db_networks db" by (simp add: newest_map)
qed

text \<open>Nothing addresses the agent: no enabled target names it and no network is bound to it.\<close>

definition unaddressed :: "string \<Rightarrow> ProbeTarget list \<Rightarrow> Network list \<Rightarrow> bool" where
  "unaddressed a ts nets \<longleftrightarrow>
     list_all (\<lambda>t. pt_Enabled t = 1 \<longrightarrow> pt_Vantage t \<noteq> ProbeVantageAgentPrefix @ a) ts \<and>
     list_all (\<lambda>n. \<forall>x. net_AgentID n = Some x \<longrightarrow> trim_space x \<noteq> a) nets"

lemma unaddressed_plan:
  assumes "unaddressed a (db_targets db) (db_networks db)"
  shows "current_plan db a = [] \<and> a \<notin> set (known_of db)"
proof -
  have unbound: "a \<notin> set (known_of db)"
    using assms by (auto simp: unaddressed_def known_of_def agents_of_def list_all_iff)
  have "a \<notin> set (recipients (known_of db) t)" if "t \<in> set (db_targets db)" "pt_Enabled t = 1" for t
  proof -
    have "pt_Vantage t \<noteq> ProbeVantageAgentPrefix @ a" using assms that by (auto simp: unaddressed_def list_all_iff)
    moreover have "pt_Vantage t = ProbeVantageAgentPrefix @ drop (length ProbeVantageAgentPrefix) (pt_Vantage t)"
      if "has_prefix (pt_Vantage t) ProbeVantageAgentPrefix"
      using that append_take_drop_id [of "length ProbeVantageAgentPrefix" "pt_Vantage t"] by (simp add: has_prefix_def)
    ultimately show ?thesis using unbound by (auto simp: recipients_def Let_def)
  qed
  then show ?thesis using unbound by (auto simp: current_plan_def plan_for_def count_list_0_iff)
qed

lemma unaddressed_run:
  assumes dig: "\<And>x. digest x \<noteq> []" and order: "\<And>xs. set (order xs) = set xs"
  shows "disp_inv digest d \<Longrightarrow> unaddressed a (db_targets (dp_db d)) (db_networks (dp_db d)) \<Longrightarrow>
    list_all (\<lambda>ev. \<forall>ts ns as. ev = Tables ts ns as \<longrightarrow> unaddressed a ts ns) evs \<Longrightarrow>
    newest (dp_db (fold (run_event svc digest order) evs d)) a = newest (dp_db d) a \<and>
    current_plan (dp_db (fold (run_event svc digest order) evs d)) a = []"
proof (induction evs arbitrary: d)
  case (Cons ev evs)
  let ?d = "run_event svc digest order ev d"
  have inv: "disp_inv digest ?d" by (rule disp_inv_event [OF Cons.prems(1) dig order])
  have ff: "db_faults (dp_db d) = []" using Cons.prems(1) by (simp add: disp_inv_def)
  have "newest (dp_db ?d) a = newest (dp_db d) a \<and> unaddressed a (db_targets (dp_db ?d)) (db_networks (dp_db ?d))"
  proof (cases ev)
    case (Tick now)
    have "same_tables (dp_db d) (dp_db ?d)"
      using DispatchTick_effect [OF Cons.prems(1) dig order refl] Tick by (simp add: run_event_def delivers_def)
    then show ?thesis using Tick tick_newest [OF order ff] unaddressed_plan [OF Cons.prems(2)] Cons.prems(2)
      by (simp add: run_event_def same_tables_def)
  next
    case (Tables ts ns as)
    then show ?thesis using Cons.prems(3) by (simp add: run_event_def newest_def)
  next
    case (Acked i)
    then show ?thesis using Cons.prems(2) newest_settled(1) [OF ff] by (simp add: run_event_def)
  next
    case (Completed i status res)
    then show ?thesis using Cons.prems(2) newest_settled(2) [OF ff] by (simp add: run_event_def)
  qed
  then show ?case using Cons.IH [OF inv] Cons.prems(3) by simp
qed (simp add: unaddressed_plan)

text \<open>
  C35.  An agent that no network is bound to is never told to stop.  It receives the plan of the targets that name
  it; once the tables no longer address it, its plan is empty, yet however many ticks, edits
  that leave it unaddressed, acknowledgements and completions follow, the newest plan stored for it
  is still the old one.
\<close>

theorem unbound_agent_keeps_plan:
  assumes "db_faults db = []" "\<And>x. digest x \<noteq> []" "\<And>xs. set (order xs) = set xs"
    and "d = DispatchTick svc digest order now (fold (run_event svc digest order) evs (NewAgentDispatcher db))"
    and "current_plan (dp_db d) a \<noteq> []" "unaddressed a ts ns"
    and "list_all (\<lambda>ev. \<forall>ts ns as. ev = Tables ts ns as \<longrightarrow> unaddressed a ts ns) later"
  shows "let d' = fold (run_event svc digest order) (Tables ts ns as # later) d in
    current_plan (dp_db d') a = [] \<and> holds_plan digest (dp_db d') a (PlanFingerprint digest (plan_specs a (current_plan (dp_db d) a)))"
proof -
  let ?d = "fold (run_event svc digest order) evs (NewAgentDispatcher db)"
  let ?d1 = "run_event svc digest order (Tables ts ns as) d"
  have "disp_inv digest ?d" by (rule disp_inv_run [OF assms(2,3) disp_inv_new [OF assms(1)]])
  note eff = DispatchTick_effect [OF this assms(2,3,4)]
  have inv: "disp_inv digest d" and "current_plan (dp_db ?d) = current_plan (dp_db d)"
    using eff current_plan_cong by (auto simp: delivers_def)
  then have "holds_plan digest (dp_db d) a (PlanFingerprint digest (plan_specs a (current_plan (dp_db d) a)))"
    using eff assms(5) unfolding disp_inv_def by (auto split: if_splits)
  moreover have "newest (dp_db ?d1) a = newest (dp_db d) a" by (simp add: run_event_def newest_def)
  moreover have "disp_inv digest ?d1" by (rule disp_inv_event [OF inv assms(2,3)])
  moreover have "unaddressed a (db_targets (dp_db ?d1)) (db_networks (dp_db ?d1))" using assms(6) by (simp add: run_event_def)
  ultimately show ?thesis using unaddressed_run [OF assms(2,3), where d = ?d1 and a = a and evs = later and svc = svc] assms(7) by (simp add: holds_plan_def Let_def)
qed

theorem unbound_agent_keeps_plan_witness:
  "let t = shared_target\<lparr>pt_Vantage := ''agent:x''\<rparr>;
       d = DispatchTick (NewAgentCommandService False False) mark id 0 (NewAgentDispatcher (demo_db\<lparr>db_targets := [t]\<rparr>));
       d' = fold (run_event (NewAgentCommandService False False) mark id) [Tables [] [] [], Tick (10 * second), Tick (3600 * second)] d
   in current_plan (dp_db d') ''x'' = [] \<and> holds_plan mark (dp_db d') ''x'' (PlanFingerprint mark (plan_specs ''x'' [t]))"
proof -
  let ?t = "shared_target\<lparr>pt_Vantage := ''agent:x''\<rparr>" and ?svc = "NewAgentCommandService False False"
  let ?d = "DispatchTick ?svc mark id 0 (NewAgentDispatcher (demo_db\<lparr>db_targets := [?t]\<rparr>))"
  have "db_faults (demo_db\<lparr>db_targets := [?t]\<rparr>) = []" "current_plan (dp_db ?d) ''x'' = [?t]" by code_simp+
  then show ?thesis
    using unbound_agent_keeps_plan [of "demo_db\<lparr>db_targets := [?t]\<rparr>" mark id ?d ?svc 0 "[]" "''x''" "[]" "[]" "[Tick (10 * second), Tick (3600 * second)]" "[]"]
    by (simp add: mark_def unaddressed_def Let_def)
qed

end
