(* ===== verification/Probe_Quality.thy ===== *)
theory Probe_Quality
  imports Probe_Config
begin

section \<open>Network quality: verdicts\<close>

text \<open>
  \<^verbatim>\<open>internal/service/probetarget/quality.go\<close> and \<^verbatim>\<open>quality_metrics.go\<close>: the analysis of the stored results of one window
  (\<^verbatim>\<open>Analyze\<close>), the chain of verdicts on one vantage (\<^verbatim>\<open>judgeVantage\<close>) and the gauges.  Rates, latencies and scores are
  rational numbers where the code has floats, so that comparisons and means are exact.  A map is
  the list of its entries, with distinct keys; where the code ranges over a map, the order of the list is the order of
  the walk, which the language leaves open.  The lemmas show that the verdict is a function of the
  stored results that can be said without the code's intermediate data.
\<close>

subsection \<open>Verdicts, categories and legs\<close>

definition QualityVerdictOK :: string where "QualityVerdictOK = ''ok''"
definition QualityVerdictDegraded :: string where "QualityVerdictDegraded = ''degraded''"
definition QualityVerdictEgressDown :: string where "QualityVerdictEgressDown = ''egress_down''"
definition QualityVerdictDNSFault :: string where "QualityVerdictDNSFault = ''dns_fault''"
definition QualityVerdictUpstreamResolver :: string where "QualityVerdictUpstreamResolver = ''upstream_resolver''"
definition QualityVerdictInsufficient :: string where "QualityVerdictInsufficient = ''insufficient''"
definition QualityPrimaryGroup :: string where "QualityPrimaryGroup = ''domestic''"

lemmas verdict_defs = QualityVerdictOK_def QualityVerdictDegraded_def QualityVerdictEgressDown_def
  QualityVerdictDNSFault_def QualityVerdictUpstreamResolver_def QualityVerdictInsufficient_def

definition ProbeCategoryLAN :: string where "ProbeCategoryLAN = ''lan''"
definition ProbeCategoryExternal :: string where "ProbeCategoryExternal = ''external''"
definition ProbeCategoryQuality :: string where "ProbeCategoryQuality = ''quality''"

lemmas category_defs = ProbeCategoryLAN_def ProbeCategoryExternal_def ProbeCategoryQuality_def

definition TargetCategory :: "ProbeTarget \<Rightarrow> string" where
  "TargetCategory t =
     (if pt_Source t = ProbeSourceSystem then ProbeCategoryQuality
      else if pt_DeviceID t \<noteq> None \<or> pt_Source t = ProbeSourceAuto then ProbeCategoryLAN
      else ProbeCategoryExternal)"

record QualityTrackStats =
  ts_OkRate :: rat
  ts_P50Ms :: rat
  ts_Samples :: int
  ts_LastStatus :: string

record qualityLeg =
  ql_name :: string
  ql_module :: string
  ql_st :: QualityTrackStats

subsection \<open>Tracks of one window\<close>

record trackAgg =
  tg_samples :: int
  tg_ok :: int
  tg_last :: string
  tg_latencies :: "rat list"

definition new_track :: trackAgg where
  "new_track = \<lparr>tg_samples = 0, tg_ok = 0, tg_last = [], tg_latencies = []\<rparr>"

definition stats :: "trackAgg \<Rightarrow> QualityTrackStats" where
  "stats a =
     (let ms = sort (tg_latencies a); n = length ms in
      \<lparr>ts_OkRate = (if 0 < tg_samples a then of_int (tg_ok a) / of_int (tg_samples a) else 0),
       ts_P50Ms = (if 0 < n then ms ! ((n - 1) div 2) else 0),
       ts_Samples = tg_samples a, ts_LastStatus = tg_last a\<rparr>)"

text \<open>
  The maps of the analysis are lists of entries with distinct keys; \<open>at_key\<close> is the update of an entry
  that is made on demand.
\<close>

fun at_key :: "'k \<Rightarrow> ('v \<Rightarrow> 'v) \<Rightarrow> 'v \<Rightarrow> ('k \<times> 'v) list \<Rightarrow> ('k \<times> 'v) list" where
  "at_key k f z [] = [(k, f z)]"
| "at_key k f z ((k', v) # kvs) = (if k' = k then (k, f v) # kvs else (k', v) # at_key k f z kvs)"

type_synonym qualityKey = "int \<times> string"
type_synonym tracks = "(qualityKey \<times> trackAgg) list"

definition count_row :: "ProbeResult \<Rightarrow> trackAgg \<Rightarrow> trackAgg" where
  "count_row r a =
     (let a' = a\<lparr>tg_samples := tg_samples a + 1, tg_last := pr_Status r\<rparr> in
      if pr_Status r = ''success'' then a'\<lparr>tg_ok := tg_ok a + 1, tg_latencies := tg_latencies a @ [pr_LatencyMs r]\<rparr>
      else a')"

definition aggregate :: "ProbeResult list \<Rightarrow> tracks" where
  "aggregate rows = fold (\<lambda>r. at_key (pr_TargetID r, pr_Vantage r) (count_row r) new_track) rows []"

definition per_vantage :: "tracks \<Rightarrow> int \<Rightarrow> (string \<times> QualityTrackStats) list" where
  "per_vantage agg i = map (\<lambda>(k, a). (snd k, stats a)) (filter (\<lambda>(k, a). fst k = i) agg)"

definition per_vantage_of :: "tracks \<Rightarrow> (string \<rightharpoonup> int) \<Rightarrow> string \<Rightarrow> (string \<times> QualityTrackStats) list" where
  "per_vantage_of agg idOf name = (case idOf name of Some i \<Rightarrow> per_vantage agg i | None \<Rightarrow> [])"

definition crossVantageVerdict :: "(string \<times> QualityTrackStats) list \<Rightarrow> string" where
  "crossVantageVerdict per =
     (if per = [] then ''no_data''
      else if list_all (\<lambda>(v, st). \<not> 1 / 2 < ts_OkRate st) per then ''target_down''
      else if list_ex (\<lambda>(v, st). \<not> 1 / 2 < ts_OkRate st) per then ''mixed''
      else ''ok'')"

definition sortedKeys :: "string list \<Rightarrow> string list" where
  "sortedKeys ks = sort_by str_less (remdups ks)"

subsection \<open>Scores and budgets\<close>

definition mean_rate :: "qualityLeg list \<Rightarrow> rat" where
  "mean_rate legs = sum_list (map (\<lambda>l. ts_OkRate (ql_st l)) legs) / of_nat (length legs)"

definition okRateScore :: "qualityLeg list \<Rightarrow> int" where
  "okRateScore legs = (if legs = [] then 0 else \<lfloor>mean_rate legs * 100 + 1 / 2\<rfloor>)"

definition over_budget :: "ProbeQualityConfig \<Rightarrow> qualityLeg \<Rightarrow> bool" where
  "over_budget cfg l \<longleftrightarrow>
     (let budget = of_int (if ql_module l = ''dns'' then qc_DNSDegradedMs cfg else qc_HTTPDegradedMs cfg)
      in 0 < ts_P50Ms (ql_st l) \<and> budget < ts_P50Ms (ql_st l))"

definition health_reasons :: "ProbeQualityConfig \<Rightarrow> qualityLeg list \<Rightarrow> string list" where
  "health_reasons cfg legs =
     (if mean_rate legs < qc_OkRateThreshold cfg then [''ok_rate_low''] else []) @
     (if list_ex (over_budget cfg) legs then [''latency_high''] else [])"

record QualityVantageReport =
  vr_Vantage :: string
  vr_NetworkName :: string
  vr_Verdict :: string
  vr_Score :: int
  vr_Reasons :: "string list"

definition insufficient :: "string \<Rightarrow> QualityVantageReport" where
  "insufficient vantage =
     \<lparr>vr_Vantage = vantage, vr_NetworkName = [], vr_Verdict = QualityVerdictInsufficient, vr_Score = 0,
      vr_Reasons = [''insufficient_data'']\<rparr>"

text \<open>The last step of both judgements: degraded with the reasons found, or ok.\<close>

definition judge_health :: "ProbeQualityConfig \<Rightarrow> qualityLeg list \<Rightarrow> QualityVantageReport \<Rightarrow> QualityVantageReport" where
  "judge_health cfg legs vr =
     (let reasons = health_reasons cfg legs in
      if reasons \<noteq> [] then vr\<lparr>vr_Verdict := QualityVerdictDegraded, vr_Reasons := reasons, vr_Score := max (okRateScore legs - 20) 0\<rparr>
      else vr\<lparr>vr_Verdict := QualityVerdictOK, vr_Reasons := [], vr_Score := okRateScore legs\<rparr>)"

definition simple_legs :: "ProbeTarget list \<Rightarrow> string \<Rightarrow> (qualityKey \<rightharpoonup> QualityTrackStats) \<Rightarrow> qualityLeg list" where
  "simple_legs bucket vantage statsOf =
     List.map_filter (\<lambda>t. case statsOf (pt_ID t, vantage) of
        Some st \<Rightarrow> if ts_Samples st = 0 then None else Some \<lparr>ql_name = pt_Name t, ql_module = pt_Module t, ql_st = st\<rparr>
      | None \<Rightarrow> None) bucket"

definition judgeSimpleCategory ::
    "ProbeTarget list \<Rightarrow> string \<Rightarrow> (qualityKey \<rightharpoonup> QualityTrackStats) \<Rightarrow> ProbeQualityConfig \<Rightarrow> QualityVantageReport" where
  "judgeSimpleCategory bucket vantage statsOf cfg =
     (let legs = simple_legs bucket vantage statsOf in
      if legs = [] \<or> sum_list (map (\<lambda>l. ts_Samples (ql_st l)) legs) < 2 then insufficient vantage
      else judge_health cfg legs (insufficient vantage))"

subsection \<open>The verdict chain\<close>

definition ipLiteralHost :: "string \<Rightarrow> bool" where
  "ipLiteralHost target =
     (ParseIP (case SplitHostPort target of Some (host, port) \<Rightarrow> host | None \<Rightarrow> target) \<noteq> None)"

text \<open>The leg of one configured target: none without samples, none when the target fails at every one of several vantages.\<close>

definition judge_leg :: "tracks \<Rightarrow> (string \<rightharpoonup> int) \<Rightarrow> string \<Rightarrow> ProbeQualityTarget \<Rightarrow> qualityLeg option" where
  "judge_leg agg idOf vantage qt =
     (case (case idOf (qt_Name qt) of None \<Rightarrow> None | Some i \<Rightarrow> map_option stats (map_of agg (i, vantage))) of
        None \<Rightarrow> None
      | Some st \<Rightarrow>
          if ts_Samples st = 0 then None
          else let perV = per_vantage_of agg idOf (qt_Name qt) in
            if 1 < length perV \<and> crossVantageVerdict perV = ''target_down'' then None
            else Some \<lparr>ql_name = qt_Name qt, ql_module = qt_Module qt, ql_st = st\<rparr>)"

datatype leg_class = Direct | Dns | Other

definition classify_leg :: "ProbeQualityTarget \<Rightarrow> leg_class" where
  "classify_leg qt =
     (if qt_Module qt = ''dns'' then Dns
      else if qt_Module qt = ''tcp'' \<and> ipLiteralHost (qt_Target qt) then Direct
      else Other)"

definition legs_of ::
    "tracks \<Rightarrow> (string \<rightharpoonup> int) \<Rightarrow> string \<Rightarrow> ProbeQualityTarget list \<Rightarrow> leg_class \<Rightarrow> qualityLeg list" where
  "legs_of agg idOf vantage ts c = List.map_filter (judge_leg agg idOf vantage) (filter (\<lambda>qt. classify_leg qt = c) ts)"

definition leg_failed :: "qualityLeg \<Rightarrow> bool" where
  "leg_failed l \<longleftrightarrow> ts_OkRate (ql_st l) < 1 / 2"

definition leg_passed :: "ProbeQualityConfig \<Rightarrow> qualityLeg \<Rightarrow> bool" where
  "leg_passed cfg l \<longleftrightarrow> qc_OkRateThreshold cfg \<le> ts_OkRate (ql_st l)"

definition allFailed :: "qualityLeg list \<Rightarrow> bool" where
  "allFailed legs \<longleftrightarrow> legs \<noteq> [] \<and> list_all leg_failed legs"

definition judge_chain ::
    "ProbeQualityConfig \<Rightarrow> qualityLeg list \<Rightarrow> qualityLeg list \<Rightarrow> qualityLeg list \<Rightarrow> QualityVantageReport \<Rightarrow> QualityVantageReport" where
  "judge_chain cfg directs dnses others vr =
     (let legs = directs @ dnses @ others; directOK = directs \<noteq> [] \<and> \<not> list_ex leg_failed directs in
      if legs = [] then vr
      else if allFailed directs \<and> allFailed others then
        vr\<lparr>vr_Verdict := QualityVerdictEgressDown, vr_Reasons := [''egress_down.all_paths_failing''], vr_Score := min (okRateScore legs) 25\<rparr>
      else if directOK \<and> allFailed others \<and> allFailed dnses \<and> (others \<noteq> [] \<or> dnses \<noteq> []) then
        vr\<lparr>vr_Verdict := QualityVerdictDNSFault, vr_Reasons := [''dns_fault.direct_ok_name_resolution_dead''], vr_Score := min (okRateScore legs) 25\<rparr>
      else if 1 < length dnses \<and> list_ex (leg_passed cfg) dnses \<and> list_ex leg_failed dnses then
        vr\<lparr>vr_Verdict := QualityVerdictUpstreamResolver,
           vr_Reasons := map (\<lambda>l. ''upstream_resolver.failing:'' @ ql_name l) (filter leg_failed dnses),
           vr_Score := okRateScore legs\<rparr>
      else judge_health cfg legs vr)"

definition judgeVantage ::
    "ProbeQualityTarget list \<Rightarrow> tracks \<Rightarrow> (string \<rightharpoonup> int) \<Rightarrow> string \<Rightarrow> ProbeQualityConfig \<Rightarrow> QualityVantageReport" where
  "judgeVantage cfgTargets agg idOf vantage cfg =
     (let legs = legs_of agg idOf vantage cfgTargets
      in judge_chain cfg (legs Direct) (legs Dns) (legs Other) (insufficient vantage))"

text \<open>The leg once more, as the trend computes it.\<close>

definition legStatsInBucket :: "ProbeQualityTarget \<Rightarrow> tracks \<Rightarrow> (string \<rightharpoonup> int) \<Rightarrow> string \<Rightarrow> QualityTrackStats option" where
  "legStatsInBucket qt agg idOf vantage =
     (case idOf (qt_Name qt) of
        None \<Rightarrow> None
      | Some i \<Rightarrow>
          (case map_of agg (i, vantage) of
             None \<Rightarrow> None
           | Some a \<Rightarrow>
               if tg_samples a = 0 then None
               else if 1 < length (per_vantage agg i) \<and> crossVantageVerdict (per_vantage agg i) = ''target_down'' then None
               else Some (stats a)))"

subsection \<open>The report\<close>

record QualityTargetMatrix =
  tm_Name :: string
  tm_Module :: string
  tm_Target :: string
  tm_CrossVantage :: string
  tm_PerVantage :: "(string \<times> QualityTrackStats) list"

record QualityGroupReport =
  gr_Name :: string
  gr_Role :: string
  gr_Vantages :: "QualityVantageReport list"
  gr_Targets :: "QualityTargetMatrix list"

record QualityCategoryReport =
  cr_Category :: string
  cr_Vantages :: "QualityVantageReport list"
  cr_Targets :: "QualityTargetMatrix list"
  cr_Groups :: "QualityGroupReport list"

record QualityReport =
  qr_WindowMinutes :: int
  qr_Categories :: "QualityCategoryReport list"

definition matrix_column :: "string \<Rightarrow> string \<Rightarrow> string \<Rightarrow> (string \<times> QualityTrackStats) list \<Rightarrow> QualityTargetMatrix" where
  "matrix_column name mdl target per =
     \<lparr>tm_Name = name, tm_Module = mdl, tm_Target = target, tm_CrossVantage = crossVantageVerdict per, tm_PerVantage = per\<rparr>"

definition agent_names :: "Network list \<Rightarrow> string \<rightharpoonup> string" where
  "agent_names nets =
     map_of (rev (map (\<lambda>w. (trim_space (the (net_AgentID w)), net_Name w))
       (filter (\<lambda>w. net_AgentID w \<noteq> None \<and> trim_space (the (net_AgentID w)) \<noteq> []) nets)))"

definition networkNameFor :: "string \<Rightarrow> (string \<rightharpoonup> string) \<Rightarrow> string" where
  "networkNameFor vantage byAgent =
     (if has_prefix vantage ProbeVantageAgentPrefix
      then case byAgent (drop (length ProbeVantageAgentPrefix) vantage) of Some name \<Rightarrow> name | None \<Rightarrow> []
      else [])"

definition with_network :: "(string \<Rightarrow> string) \<Rightarrow> QualityVantageReport \<Rightarrow> QualityVantageReport" where
  "with_network networkName vr =
     (let name = networkName (vr_Vantage vr) in if name \<noteq> [] then vr\<lparr>vr_NetworkName := name\<rparr> else vr)"

definition target_ids :: "ProbeTarget list \<Rightarrow> string \<rightharpoonup> int" where
  "target_ids targets = map_of (rev (map (\<lambda>t. (pt_Name t, pt_ID t)) targets))"

definition config_column :: "tracks \<Rightarrow> (string \<rightharpoonup> int) \<Rightarrow> ProbeQualityTarget \<Rightarrow> QualityTargetMatrix" where
  "config_column agg idOf qt = matrix_column (qt_Name qt) (qt_Module qt) (qt_Target qt) (per_vantage_of agg idOf (qt_Name qt))"

definition group_role :: "string \<Rightarrow> string" where
  "group_role grp = (if grp = QualityPrimaryGroup then ''primary'' else ''reference'')"

definition analyzeGroup ::
    "ProbeQualityConfig \<Rightarrow> string \<Rightarrow> ProbeQualityTarget list \<Rightarrow> (string \<rightharpoonup> int) \<Rightarrow> tracks \<Rightarrow> (string \<Rightarrow> string) \<Rightarrow> QualityGroupReport" where
  "analyzeGroup cfg grp cfgTargets idOf agg networkName =
     (let vantages = sortedKeys (concat (map (\<lambda>qt. map fst (per_vantage_of agg idOf (qt_Name qt))) cfgTargets)) in
      \<lparr>gr_Name = grp, gr_Role = group_role grp,
       gr_Vantages = map (\<lambda>v. with_network networkName (judgeVantage cfgTargets agg idOf v cfg)) vantages,
       gr_Targets = map (config_column agg idOf) cfgTargets\<rparr>)"

definition qualityMatrixTargets :: "ProbeQualityConfig \<Rightarrow> (string \<rightharpoonup> int) \<Rightarrow> tracks \<Rightarrow> QualityTargetMatrix list" where
  "qualityMatrixTargets cfg idOf agg = concat (map (\<lambda>(name, ts). map (config_column agg idOf) ts) (qc_Groups cfg))"

definition simple_category ::
    "ProbeQualityConfig \<Rightarrow> ProbeTarget list \<Rightarrow> tracks \<Rightarrow> (string \<Rightarrow> string) \<Rightarrow> string \<Rightarrow> QualityCategoryReport" where
  "simple_category cfg targets agg networkName cat =
     (let bucket = filter (\<lambda>t. pt_Enabled t = 1 \<and> TargetCategory t = cat) targets;
          statsOf = (\<lambda>k. map_option stats (map_of agg k));
          vantages = sortedKeys (concat (map (\<lambda>t. map fst (per_vantage agg (pt_ID t))) bucket)) in
      \<lparr>cr_Category = cat,
       cr_Vantages = map (\<lambda>v. with_network networkName (judgeSimpleCategory bucket v statsOf cfg)) vantages,
       cr_Targets = map (\<lambda>t. matrix_column (pt_Name t) (pt_Module t) (pt_Target t) (per_vantage agg (pt_ID t))) bucket,
       cr_Groups = []\<rparr>)"

definition sorted_groups :: "ProbeQualityConfig \<Rightarrow> (string \<times> ProbeQualityTarget list) list" where
  "sorted_groups cfg = sort_by (\<lambda>a b. str_less (fst a) (fst b)) (qc_Groups cfg)"

definition quality_category ::
    "ProbeQualityConfig \<Rightarrow> ProbeTarget list \<Rightarrow> tracks \<Rightarrow> (string \<Rightarrow> string) \<Rightarrow> QualityCategoryReport" where
  "quality_category cfg targets agg networkName =
     (let idOf = target_ids targets;
          grs = map (\<lambda>(name, ts). analyzeGroup cfg name ts idOf agg networkName) (sorted_groups cfg) in
      \<lparr>cr_Category = ProbeCategoryQuality,
       cr_Vantages = concat (map gr_Vantages (filter (\<lambda>g. gr_Name g = QualityPrimaryGroup) grs)),
       cr_Targets = qualityMatrixTargets cfg idOf agg, cr_Groups = grs\<rparr>)"

definition wrap_error :: "string \<Rightarrow> 'a pprog \<Rightarrow> 'a pprog" where
  "wrap_error what m db = (case m db of (r, db') \<Rightarrow> (case r of Inl err \<Rightarrow> Inl (Wrapped what err) | Inr x \<Rightarrow> Inr x, db'))"

definition analysis ::
    "ProbeQualityConfig \<Rightarrow> int \<Rightarrow> ProbeResult list \<Rightarrow> ProbeTarget list \<Rightarrow> Network list \<Rightarrow> QualityReport" where
  "analysis cfg window rows targets nets =
     (let agg = aggregate rows; networkName = (\<lambda>v. networkNameFor v (agent_names nets)) in
      \<lparr>qr_WindowMinutes = window,
       qr_Categories = map (simple_category cfg targets agg networkName) [ProbeCategoryLAN, ProbeCategoryExternal] @
         [quality_category cfg targets agg networkName]\<rparr>)"

definition effective_window :: "ProbeQualityConfig \<Rightarrow> int \<Rightarrow> int" where
  "effective_window cfg windowMinutes = (if windowMinutes \<le> 0 then qc_WindowMinutes cfg else windowMinutes)"

definition analyze_cutoff :: "gotime \<Rightarrow> int \<Rightarrow> string" where
  "analyze_cutoff now window = format_rfc3339 (now + i64 (- window * minute))"

definition Analyze :: "ProbeQualityConfig \<Rightarrow> gotime \<Rightarrow> int \<Rightarrow> QualityReport pprog" where
  "Analyze cfg now windowMinutes =
     (let window = effective_window cfg windowMinutes in
      seq (wrap_error ''quality analyze: results since'' (ListProbeResultsSince (analyze_cutoff now window))) (\<lambda>rows.
      seq (wrap_error ''quality analyze: list targets'' ListProbeTargets) (\<lambda>targets.
      seq (wrap_error ''quality analyze: list networks'' ListNetworks) (\<lambda>nets.
      ret (analysis cfg window rows targets nets)))))"

subsection \<open>The gauges\<close>

text \<open>A gauge vector is the map from its label values to the number set last.\<close>

record qualityMetrics =
  qm_verdict :: "(string \<times> string \<times> string \<times> string) \<rightharpoonup> rat"
  qm_score :: "(string \<times> string) \<rightharpoonup> rat"

definition set_gauges :: "string \<Rightarrow> string \<Rightarrow> QualityVantageReport \<Rightarrow> qualityMetrics \<Rightarrow> qualityMetrics" where
  "set_gauges cat grp v m =
     m\<lparr>qm_verdict := (qm_verdict m)((vr_Vantage v, cat, grp, vr_Verdict v) \<mapsto> 1),
       qm_score := (qm_score m)((vr_Vantage v, cat) \<mapsto> of_int (vr_Score v))\<rparr>"

definition export_category :: "QualityCategoryReport \<Rightarrow> qualityMetrics \<Rightarrow> qualityMetrics" where
  "export_category cr m =
     (if cr_Category cr = ProbeCategoryQuality
      then fold (\<lambda>g. fold (set_gauges (cr_Category cr) (gr_Name g)) (gr_Vantages g)) (cr_Groups cr) m
      else fold (set_gauges (cr_Category cr) []) (cr_Vantages cr) m)"

definition refresh :: "ProbeQualityConfig \<Rightarrow> gotime \<Rightarrow> qualityMetrics \<Rightarrow> probe_db \<Rightarrow> qualityMetrics \<times> probe_db" where
  "refresh cfg now m db =
     (case Analyze cfg now (qc_WindowMinutes cfg) db of
        (Inl err, db') \<Rightarrow> (m, db')
      | (Inr report, db') \<Rightarrow>
          (fold export_category (qr_Categories report) \<lparr>qm_verdict = Map.empty, qm_score = Map.empty\<rparr>, db'))"

subsection \<open>Maps as lists of entries\<close>

lemma map_of_at_key:
  "map_of (at_key k f z kvs) k' = (if k' = k then Some (f (case map_of kvs k of Some v \<Rightarrow> v | None \<Rightarrow> z)) else map_of kvs k')"
  by (induction k f z kvs rule: at_key.induct) auto

lemma keys_at_key: "fst ` set (at_key k f z kvs) = insert k (fst ` set kvs)"
  by (induction k f z kvs rule: at_key.induct) auto

lemma distinct_at_key: "distinct (map fst kvs) \<Longrightarrow> distinct (map fst (at_key k f z kvs))"
proof (induction k f z kvs rule: at_key.induct)
  case (2 k f z k' v kvs)
  have "k' \<notin> fst ` set (at_key k f z kvs)" if "k' \<noteq> k" using 2(2) that by (simp add: keys_at_key)
  then show ?case using 2 by auto
qed simp

subsection \<open>What a track holds\<close>

text \<open>The results of one target from one vantage, and the share of them that succeeded.\<close>

definition track_rows :: "ProbeResult list \<Rightarrow> qualityKey \<Rightarrow> ProbeResult list" where
  "track_rows rows k = filter (\<lambda>r. (pr_TargetID r, pr_Vantage r) = k) rows"

definition succeeded :: "ProbeResult \<Rightarrow> bool" where
  "succeeded r \<longleftrightarrow> pr_Status r = ''success''"

definition track_of :: "ProbeResult list \<Rightarrow> trackAgg" where
  "track_of rs =
     \<lparr>tg_samples = int (length rs), tg_ok = int (length (filter succeeded rs)), tg_last = (if rs = [] then [] else pr_Status (last rs)),
      tg_latencies = map pr_LatencyMs (filter succeeded rs)\<rparr>"

lemma track_of_snoc: "track_of (rs @ [r]) = count_row r (track_of rs)"
  by (simp add: track_of_def count_row_def succeeded_def Let_def)

lemma aggregate_snoc:
  "aggregate (rows @ [r]) = at_key (pr_TargetID r, pr_Vantage r) (count_row r) new_track (aggregate rows)"
  by (simp add: aggregate_def)

lemma map_of_aggregate:
  "map_of (aggregate rows) k = (if track_rows rows k = [] then None else Some (track_of (track_rows rows k)))"
proof (induction rows rule: rev_induct)
  case Nil
  show ?case by (simp add: aggregate_def track_rows_def)
next
  case (snoc r rows)
  have new: "new_track = track_of []" by (simp add: new_track_def track_of_def)
  show ?case using snoc.IH
    by (auto simp: aggregate_snoc map_of_at_key track_rows_def new track_of_snoc [symmetric] simp del: track_of_snoc)
qed

lemma distinct_aggregate: "distinct (map fst (aggregate rows))"
  by (induction rows rule: rev_induct) (simp_all add: aggregate_snoc distinct_at_key, simp add: aggregate_def)

definition track_ok :: "trackAgg \<Rightarrow> bool" where
  "track_ok a \<longleftrightarrow> 0 \<le> tg_ok a \<and> tg_ok a \<le> tg_samples a"

lemma track_of_ok: "track_ok (track_of rs)"
  by (simp add: track_ok_def track_of_def)

definition rate_ok :: "QualityTrackStats \<Rightarrow> bool" where
  "rate_ok st \<longleftrightarrow> 0 \<le> ts_OkRate st \<and> ts_OkRate st \<le> 1"

lemma stats_simps [simp]:
  "ts_Samples (stats a) = tg_samples a" "ts_LastStatus (stats a) = tg_last a"
  "ts_OkRate (stats a) = (if 0 < tg_samples a then of_int (tg_ok a) / of_int (tg_samples a) else 0)"
  by (simp_all add: stats_def Let_def)

lemma stats_rate_ok: "track_ok a \<Longrightarrow> rate_ok (stats a)"
  by (simp add: rate_ok_def track_ok_def)

text \<open>The latency of a track is the lower median of its successes.\<close>

lemma filter_split: "filter P xs = filter P (take n xs) @ filter P (drop n xs)"
  by (metis append_take_drop_id filter_append)

lemma sorted_nth_count:
  fixes xs :: "'a::linorder list"
  assumes "sorted xs" "i < length xs"
  shows "i + 1 \<le> length (filter (\<lambda>x. x \<le> xs ! i) xs)" "length xs - i \<le> length (filter (\<lambda>x. xs ! i \<le> x) xs)"
proof -
  have "filter (\<lambda>x. x \<le> xs ! i) (take (Suc i) xs) = take (Suc i) xs"
    using sorted_nth_mono [OF assms(1) _ assms(2)] by (auto simp: filter_id_conv in_set_conv_nth less_Suc_eq_le)
  then show "i + 1 \<le> length (filter (\<lambda>x. x \<le> xs ! i) xs)"
    using assms(2) filter_split [of "\<lambda>x. x \<le> xs ! i" xs "Suc i"] by simp
  have "filter (\<lambda>x. xs ! i \<le> x) (drop i xs) = drop i xs"
    using sorted_nth_mono [OF assms(1)] by (auto simp: filter_id_conv in_set_conv_nth)
  then show "length xs - i \<le> length (filter (\<lambda>x. xs ! i \<le> x) xs)"
    using filter_split [of "\<lambda>x. xs ! i \<le> x" xs i] by simp
qed

lemma length_filter_sort: "length (filter P (sort xs)) = length (filter P xs)"
  by (simp add: filter_sort)

lemma stats_median:
  assumes "tg_latencies a \<noteq> []"
  shows "ts_P50Ms (stats a) \<in> set (tg_latencies a)"
    "length (tg_latencies a) \<le> 2 * length (filter (\<lambda>x. x \<le> ts_P50Ms (stats a)) (tg_latencies a))"
    "length (tg_latencies a) < 2 * length (filter (\<lambda>x. ts_P50Ms (stats a) \<le> x) (tg_latencies a))"
proof -
  let ?xs = "tg_latencies a" and ?i = "(length (tg_latencies a) - 1) div 2"
  have i: "?i < length (sort ?xs)" using assms by (cases ?xs) auto
  have "sort ?xs \<noteq> []" using assms by (metis length_0_conv length_sort)
  then have m: "ts_P50Ms (stats a) = sort ?xs ! ?i" by (simp add: stats_def Let_def)
  show "ts_P50Ms (stats a) \<in> set ?xs" unfolding m using nth_mem [OF i] by simp
  note c = sorted_nth_count [OF sorted_sort i, unfolded length_filter_sort length_sort]
  have "0 < length ?xs" using assms by simp
  show "length ?xs \<le> 2 * length (filter (\<lambda>x. x \<le> ts_P50Ms (stats a)) ?xs)" unfolding m using c(1) \<open>0 < length ?xs\<close> by linarith
  show "length ?xs < 2 * length (filter (\<lambda>x. ts_P50Ms (stats a) \<le> x) ?xs)" unfolding m using c(2) \<open>0 < length ?xs\<close> by linarith
qed

subsection \<open>Isolated targets\<close>

definition isolated :: "tracks \<Rightarrow> int \<Rightarrow> bool" where
  "isolated agg i \<longleftrightarrow> 1 < length (per_vantage agg i) \<and> crossVantageVerdict (per_vantage agg i) = ''target_down''"

lemma per_vantage_mem:
  assumes "distinct (map fst agg)"
  shows "(v, st) \<in> set (per_vantage agg i) \<longleftrightarrow> (\<exists>a. map_of agg (i, v) = Some a \<and> st = stats a)"
  using assms by (force simp: per_vantage_def map_of_eq_Some_iff)

lemma per_vantage_distinct: "distinct (map fst agg) \<Longrightarrow> distinct (map fst (per_vantage agg i))"
  by (induction agg) (force simp: per_vantage_def)+

lemma two_elements: "distinct xs \<Longrightarrow> 1 < length xs \<longleftrightarrow> (\<exists>x \<in> set xs. \<exists>y \<in> set xs. x \<noteq> y)"
  by (cases xs; cases "tl xs") auto

lemma isolated_iff:
  assumes "distinct (map fst agg)"
  shows "isolated agg i \<longleftrightarrow>
    (\<exists>v w. v \<noteq> w \<and> map_of agg (i, v) \<noteq> None \<and> map_of agg (i, w) \<noteq> None) \<and>
    (\<forall>v a. map_of agg (i, v) = Some a \<longrightarrow> ts_OkRate (stats a) \<le> 1 / 2)"
proof -
  let ?per = "per_vantage agg i"
  have keys: "v \<in> set (map fst ?per) \<longleftrightarrow> map_of agg (i, v) \<noteq> None" for v
    using per_vantage_mem [OF assms, of v _ i] by (force simp: image_iff)
  have "1 < length ?per \<longleftrightarrow> (\<exists>v w. v \<noteq> w \<and> map_of agg (i, v) \<noteq> None \<and> map_of agg (i, w) \<noteq> None)"
    using two_elements [OF per_vantage_distinct [OF assms, of i]] unfolding keys [symmetric] by auto
  moreover have "list_all (\<lambda>(v, st). \<not> 1 / 2 < ts_OkRate st) ?per \<longleftrightarrow> (\<forall>v a. map_of agg (i, v) = Some a \<longrightarrow> ts_OkRate (stats a) \<le> 1 / 2)"
  proof -
    have "list_all (\<lambda>(v, st). \<not> 1 / 2 < ts_OkRate st) ?per \<longleftrightarrow> (\<forall>v st. (v, st) \<in> set ?per \<longrightarrow> ts_OkRate st \<le> 1 / 2)"
      by (auto simp: list_all_iff not_less)
    then show ?thesis unfolding per_vantage_mem [OF assms] by blast
  qed
  moreover have "isolated agg i \<longleftrightarrow> 1 < length ?per \<and> list_all (\<lambda>(v, st). \<not> 1 / 2 < ts_OkRate st) ?per"
    by (auto simp: isolated_def crossVantageVerdict_def)
  ultimately show ?thesis by blast
qed

lemma judge_leg_eq:
  "judge_leg agg idOf vantage qt =
     map_option (\<lambda>st. \<lparr>ql_name = qt_Name qt, ql_module = qt_Module qt, ql_st = st\<rparr>) (legStatsInBucket qt agg idOf vantage)"
  by (auto simp: judge_leg_def legStatsInBucket_def per_vantage_of_def Let_def split: option.splits)

lemma legStats_isolated:
  "legStatsInBucket qt agg idOf vantage =
     (case idOf (qt_Name qt) of None \<Rightarrow> None
      | Some i \<Rightarrow> (case map_of agg (i, vantage) of None \<Rightarrow> None
          | Some a \<Rightarrow> if tg_samples a = 0 \<or> isolated agg i then None else Some (stats a)))"
  by (auto simp: legStatsInBucket_def isolated_def split: option.splits)

subsection \<open>Verdicts from the results of a window\<close>

text \<open>
  What the verdict of a vantage means in terms of the stored results: the results of a configured
  target from the vantage, when the target counts, and the tests on its results.
\<close>

definition target_rows :: "ProbeResult list \<Rightarrow> (string \<rightharpoonup> int) \<Rightarrow> string \<Rightarrow> ProbeQualityTarget \<Rightarrow> ProbeResult list" where
  "target_rows rows idOf v qt = (case idOf (qt_Name qt) of Some i \<Rightarrow> track_rows rows (i, v) | None \<Rightarrow> [])"

definition successes :: "ProbeResult list \<Rightarrow> nat" where
  "successes rs = length (filter succeeded rs)"

definition down_everywhere :: "ProbeResult list \<Rightarrow> int \<Rightarrow> bool" where
  "down_everywhere rows i \<longleftrightarrow>
     (\<exists>v w. v \<noteq> w \<and> track_rows rows (i, v) \<noteq> [] \<and> track_rows rows (i, w) \<noteq> []) \<and>
     (\<forall>v. 2 * successes (track_rows rows (i, v)) \<le> length (track_rows rows (i, v)))"

definition counts :: "ProbeResult list \<Rightarrow> (string \<rightharpoonup> int) \<Rightarrow> string \<Rightarrow> ProbeQualityTarget \<Rightarrow> bool" where
  "counts rows idOf v qt \<longleftrightarrow>
     target_rows rows idOf v qt \<noteq> [] \<and> (\<forall>i. idOf (qt_Name qt) = Some i \<longrightarrow> \<not> down_everywhere rows i)"

definition share :: "ProbeResult list \<Rightarrow> rat" where
  "share rs = of_nat (successes rs) / of_nat (length rs)"

definition mostly_failed :: "ProbeResult list \<Rightarrow> bool" where
  "mostly_failed rs \<longleftrightarrow> 2 * successes rs < length rs"

definition budget_of :: "ProbeQualityConfig \<Rightarrow> ProbeQualityTarget \<Rightarrow> rat" where
  "budget_of cfg qt = of_int (if qt_Module qt = ''dns'' then qc_DNSDegradedMs cfg else qc_HTTPDegradedMs cfg)"

text \<open>More than half of the successes took longer than the budget.\<close>

definition mostly_slow :: "rat \<Rightarrow> ProbeResult list \<Rightarrow> bool" where
  "mostly_slow budget rs \<longleftrightarrow>
     successes rs < 2 * length (filter (\<lambda>r. max 0 budget < pr_LatencyMs r) (filter succeeded rs))"

definition spec_verdict ::
    "ProbeQualityConfig \<Rightarrow> ProbeResult list \<Rightarrow> (string \<rightharpoonup> int) \<Rightarrow> string \<Rightarrow> ProbeQualityTarget list \<Rightarrow> string" where
  "spec_verdict cfg rows idOf v ts =
     (let of_class = (\<lambda>c. filter (\<lambda>qt. counts rows idOf v qt \<and> classify_leg qt = c) ts);
          D = of_class Direct; N = of_class Dns; H = of_class Other; L = D @ N @ H;
          rs = target_rows rows idOf v; failing = (\<lambda>qt. mostly_failed (rs qt)) in
      if L = [] then ''insufficient''
      else if D \<noteq> [] \<and> H \<noteq> [] \<and> list_all failing (D @ H) then ''egress_down''
      else if D \<noteq> [] \<and> H \<noteq> [] \<and> N \<noteq> [] \<and> \<not> list_ex failing D \<and> list_all failing (H @ N) then ''dns_fault''
      else if 1 < length N \<and> list_ex failing N \<and> list_ex (\<lambda>qt. qc_OkRateThreshold cfg \<le> share (rs qt)) N then ''upstream_resolver''
      else if sum_list (map (\<lambda>qt. share (rs qt)) L) / of_nat (length L) < qc_OkRateThreshold cfg \<or>
              list_ex (\<lambda>qt. mostly_slow (budget_of cfg qt) (rs qt)) L then ''degraded''
      else ''ok'')"

lemma rate_track_of: "rs \<noteq> [] \<Longrightarrow> ts_OkRate (stats (track_of rs)) = share rs"
  by (simp add: track_of_def share_def successes_def)

lemma share_half: "rs \<noteq> [] \<Longrightarrow> share rs < 1 / 2 \<longleftrightarrow> mostly_failed rs"
  "rs \<noteq> [] \<Longrightarrow> share rs \<le> 1 / 2 \<longleftrightarrow> 2 * successes rs \<le> length rs"
proof -
  assume ne: "rs \<noteq> []"
  then have pos: "(0::rat) < of_nat (length rs)" by simp
  have eq: "share rs * 2 * of_nat (length rs) = (of_nat (2 * successes rs) :: rat)" using ne by (simp add: share_def)
  have "share rs < 1 / 2 \<longleftrightarrow> share rs * 2 * of_nat (length rs) < 1 * of_nat (length rs)"
    using pos by (simp only: mult_less_cancel_right) simp
  then show "share rs < 1 / 2 \<longleftrightarrow> mostly_failed rs" unfolding eq mostly_failed_def by (simp only: mult_1 of_nat_less_iff)
  have "share rs \<le> 1 / 2 \<longleftrightarrow> share rs * 2 * of_nat (length rs) \<le> 1 * of_nat (length rs)"
    using pos by (simp only: mult_le_cancel_right) simp
  then show "share rs \<le> 1 / 2 \<longleftrightarrow> 2 * successes rs \<le> length rs" unfolding eq by (simp only: mult_1 of_nat_le_iff)
qed

lemma isolated_rows: "isolated (aggregate rows) i \<longleftrightarrow> down_everywhere rows i"
proof -
  have "(\<forall>v a. map_of (aggregate rows) (i, v) = Some a \<longrightarrow> ts_OkRate (stats a) \<le> 1 / 2) \<longleftrightarrow>
    (\<forall>v. 2 * successes (track_rows rows (i, v)) \<le> length (track_rows rows (i, v)))" (is "?l \<longleftrightarrow> ?r")
  proof -
    have "?l \<longleftrightarrow> (\<forall>v. track_rows rows (i, v) \<noteq> [] \<longrightarrow> share (track_rows rows (i, v)) \<le> 1 / 2)"
      using rate_track_of by (auto simp: map_of_aggregate simp del: stats_simps split: if_splits)
    also have "\<dots> \<longleftrightarrow> ?r" using share_half(2) by (force simp: successes_def)
    finally show ?thesis .
  qed
  moreover have "map_of (aggregate rows) k \<noteq> None \<longleftrightarrow> track_rows rows k \<noteq> []" for k by (simp add: map_of_aggregate)
  ultimately show ?thesis unfolding isolated_iff [OF distinct_aggregate] down_everywhere_def by (simp only:)
qed

definition leg_at :: "ProbeResult list \<Rightarrow> (string \<rightharpoonup> int) \<Rightarrow> string \<Rightarrow> ProbeQualityTarget \<Rightarrow> qualityLeg" where
  "leg_at rows idOf v qt =
     \<lparr>ql_name = qt_Name qt, ql_module = qt_Module qt, ql_st = stats (track_of (target_rows rows idOf v qt))\<rparr>"

lemma judge_leg_rows:
  "judge_leg (aggregate rows) idOf v qt = (if counts rows idOf v qt then Some (leg_at rows idOf v qt) else None)"
  by (auto simp: judge_leg_eq legStats_isolated isolated_rows map_of_aggregate counts_def target_rows_def leg_at_def track_of_def
      split: option.splits)

lemma map_filter_if: "List.map_filter (\<lambda>x. if P x then Some (f x) else None) xs = map f (filter P xs)"
  by (induction xs) (auto simp: List.map_filter_simps)

lemma legs_of_rows:
  "legs_of (aggregate rows) idOf v ts c = map (leg_at rows idOf v) (filter (\<lambda>qt. counts rows idOf v qt \<and> classify_leg qt = c) ts)"
proof -
  have "judge_leg (aggregate rows) idOf v = (\<lambda>qt. if counts rows idOf v qt then Some (leg_at rows idOf v qt) else None)"
    by (rule ext) (rule judge_leg_rows)
  then show ?thesis by (simp add: legs_of_def map_filter_if conj_commute)
qed

lemma leg_at_tests:
  assumes "counts rows idOf v qt"
  shows "leg_failed (leg_at rows idOf v qt) \<longleftrightarrow> mostly_failed (target_rows rows idOf v qt)"
    "leg_passed cfg (leg_at rows idOf v qt) \<longleftrightarrow> qc_OkRateThreshold cfg \<le> share (target_rows rows idOf v qt)"
    "ts_OkRate (ql_st (leg_at rows idOf v qt)) = share (target_rows rows idOf v qt)"
  using assms share_half(1) rate_track_of unfolding leg_failed_def leg_passed_def leg_at_def counts_def
  by (simp_all del: stats_simps)

lemma median_above:
  assumes "tg_latencies a \<noteq> []"
  shows "b < ts_P50Ms (stats a) \<longleftrightarrow> length (tg_latencies a) < 2 * length (filter (\<lambda>x. b < x) (tg_latencies a))"
proof
  let ?m = "ts_P50Ms (stats a)" and ?xs = "tg_latencies a"
  assume "b < ?m"
  then have "filter (\<lambda>x. ?m \<le> x) ?xs = filter (\<lambda>x. ?m \<le> x) (filter (\<lambda>x. b < x) ?xs)" by (auto intro!: filter_cong)
  then have "length (filter (\<lambda>x. ?m \<le> x) ?xs) \<le> length (filter (\<lambda>x. b < x) ?xs)" using length_filter_le by metis
  then show "length ?xs < 2 * length (filter (\<lambda>x. b < x) ?xs)" using stats_median(3) [OF assms] by linarith
next
  let ?m = "ts_P50Ms (stats a)" and ?xs = "tg_latencies a"
  assume above: "length ?xs < 2 * length (filter (\<lambda>x. b < x) ?xs)"
  show "b < ?m"
  proof (rule ccontr)
    assume "\<not> b < ?m"
    then have "filter (\<lambda>x. x \<le> ?m) ?xs = filter (\<lambda>x. x \<le> ?m) (filter (\<lambda>x. \<not> b < x) ?xs)" by (auto intro!: filter_cong)
    then have "length (filter (\<lambda>x. x \<le> ?m) ?xs) \<le> length (filter (\<lambda>x. \<not> b < x) ?xs)" using length_filter_le by metis
    then show False using stats_median(2) [OF assms] sum_length_filter_compl [of "\<lambda>x. b < x" ?xs] above by linarith
  qed
qed

lemma over_budget_rows: "over_budget cfg (leg_at rows idOf v qt) \<longleftrightarrow> mostly_slow (budget_of cfg qt) (target_rows rows idOf v qt)"
proof -
  let ?a = "track_of (target_rows rows idOf v qt)" and ?b = "budget_of cfg qt"
  have "over_budget cfg (leg_at rows idOf v qt) \<longleftrightarrow> max 0 ?b < ts_P50Ms (stats ?a)"
    by (auto simp: over_budget_def leg_at_def budget_of_def Let_def)
  also have "\<dots> \<longleftrightarrow> length (tg_latencies ?a) < 2 * length (filter (\<lambda>x. max 0 ?b < x) (tg_latencies ?a))"
  proof (cases "tg_latencies ?a = []")
    case True
    then show ?thesis by (simp add: stats_def)
  qed (rule median_above)
  also have "\<dots> \<longleftrightarrow> mostly_slow ?b (target_rows rows idOf v qt)"
    by (simp add: mostly_slow_def track_of_def successes_def filter_map comp_def)
  finally show ?thesis .
qed

lemma judge_chain_verdict:
  "vr_Verdict (judge_chain cfg ds ns hs vr) =
     (if ds @ ns @ hs = [] then vr_Verdict vr
      else if ds \<noteq> [] \<and> hs \<noteq> [] \<and> list_all leg_failed (ds @ hs) then ''egress_down''
      else if ds \<noteq> [] \<and> hs \<noteq> [] \<and> ns \<noteq> [] \<and> \<not> list_ex leg_failed ds \<and> list_all leg_failed (hs @ ns) then ''dns_fault''
      else if 1 < length ns \<and> list_ex leg_failed ns \<and> list_ex (leg_passed cfg) ns then ''upstream_resolver''
      else if mean_rate (ds @ ns @ hs) < qc_OkRateThreshold cfg \<or> list_ex (over_budget cfg) (ds @ ns @ hs) then ''degraded''
      else ''ok'')"
  unfolding judge_chain_def judge_health_def health_reasons_def allFailed_def verdict_defs Let_def
  by (simp only: list_all_append if_distrib [of vr_Verdict]) (auto simp: verdict_defs split: if_splits)

lemma list_ex_map_in: "(\<And>x. x \<in> set xs \<Longrightarrow> P (f x) = Q x) \<Longrightarrow> list_ex P (map f xs) = list_ex Q xs"
  by (auto simp: list_ex_iff)

lemma list_all_map_in: "(\<And>x. x \<in> set xs \<Longrightarrow> P (f x) = Q x) \<Longrightarrow> list_all P (map f xs) = list_all Q xs"
  by (auto simp: list_all_iff)

lemma mean_rate_rows:
  assumes "\<And>qt. qt \<in> set L \<Longrightarrow> counts rows idOf v qt"
  shows "mean_rate (map (leg_at rows idOf v) L) = sum_list (map (\<lambda>qt. share (target_rows rows idOf v qt)) L) / of_nat (length L)"
proof -
  have "map (\<lambda>qt. ts_OkRate (ql_st (leg_at rows idOf v qt))) L = map (\<lambda>qt. share (target_rows rows idOf v qt)) L"
    using leg_at_tests(3) assms by (intro map_cong refl) blast
  then show ?thesis by (simp only: mean_rate_def map_map comp_def length_map)
qed

text \<open>
  C0.  The verdict on a network is what the stored results say.  A configured target counts at a vantage
  when it has results from there and does not fail at every one of several vantages; a vantage
  without such a target is insufficient.  The verdict is egress down exactly when some counting
  targets need no name resolution, some others do, and all of them fail for more than half of their
  results; a fault of name resolution exactly when the direct targets work while all others and all
  resolvers fail, and there are targets of each of the three classes; then come split resolvers,
  and finally degraded or ok by the mean share of successes and by the latencies, where a
  target is slow when more than half of its successes exceed the budget.
\<close>

theorem verdict_exact: "vr_Verdict (judgeVantage ts (aggregate rows) idOf v cfg) = spec_verdict cfg rows idOf v ts"
proof -
  define cls where "cls = (\<lambda>c. filter (\<lambda>qt. counts rows idOf v qt \<and> classify_leg qt = c) ts)"
  let ?f = "leg_at rows idOf v" and ?fail = "\<lambda>qt. mostly_failed (target_rows rows idOf v qt)"
  define D N H where "D = cls Direct" and "N = cls Dns" and "H = cls Other"
  have mem: "counts rows idOf v qt" if "qt \<in> set (D @ N @ H)" for qt using that by (auto simp: D_def N_def H_def cls_def)
  have failed: "leg_failed (?f qt) = ?fail qt" if "qt \<in> set (D @ N @ H)" for qt using leg_at_tests(1) mem that by blast
  have tests: "list_all leg_failed (map ?f (D @ H)) = list_all ?fail (D @ H)" "list_all leg_failed (map ?f (H @ N)) = list_all ?fail (H @ N)"
    "list_ex leg_failed (map ?f D) = list_ex ?fail D" "list_ex leg_failed (map ?f N) = list_ex ?fail N"
    by (intro list_all_map_in list_ex_map_in failed; auto)+
  have passed: "list_ex (leg_passed cfg) (map ?f N) = list_ex (\<lambda>qt. qc_OkRateThreshold cfg \<le> share (target_rows rows idOf v qt)) N"
    by (intro list_ex_map_in leg_at_tests(2) mem) auto
  have slow: "list_ex (over_budget cfg) (map ?f (D @ N @ H)) = list_ex (\<lambda>qt. mostly_slow (budget_of cfg qt) (target_rows rows idOf v qt)) (D @ N @ H)"
    by (intro list_ex_map_in over_budget_rows)
  have mean: "mean_rate (map ?f (D @ N @ H)) =
      sum_list (map (\<lambda>qt. share (target_rows rows idOf v qt)) (D @ N @ H)) / of_nat (length (D @ N @ H))"
    by (rule mean_rate_rows) (rule mem)
  have judge: "judgeVantage ts (aggregate rows) idOf v cfg = judge_chain cfg (map ?f D) (map ?f N) (map ?f H) (insufficient v)"
    by (simp add: judgeVantage_def legs_of_rows cls_def D_def N_def H_def)
  show ?thesis
    unfolding judge judge_chain_verdict map_append [symmetric] tests passed slow mean length_map map_is_Nil_conv
      spec_verdict_def Let_def cls_def [symmetric] D_def [symmetric] N_def [symmetric] H_def [symmetric]
    by (simp add: insufficient_def verdict_defs)
qed

subsection \<open>Every report is sound\<close>

definition sound_report :: "QualityVantageReport \<Rightarrow> bool" where
  "sound_report vr \<longleftrightarrow>
     0 \<le> vr_Score vr \<and> vr_Score vr \<le> 100 \<and>
     vr_Verdict vr \<in> {''ok'', ''degraded'', ''egress_down'', ''dns_fault'', ''upstream_resolver'', ''insufficient''} \<and>
     (vr_Verdict vr \<in> {''egress_down'', ''dns_fault''} \<longrightarrow> vr_Score vr \<le> 25) \<and>
     (vr_Verdict vr = ''degraded'' \<longrightarrow> vr_Score vr \<le> 80) \<and> (vr_Verdict vr = ''insufficient'' \<longrightarrow> vr_Score vr = 0) \<and>
     (vr_Verdict vr = ''ok'' \<longleftrightarrow> vr_Reasons vr = [])"

lemma set_map_filter: "set (List.map_filter f xs) = {y. \<exists>x \<in> set xs. f x = Some y}"
  by (force simp: List.map_filter_def)

lemma mean_rate_bounds:
  assumes "legs \<noteq> []" "list_all (\<lambda>l. rate_ok (ql_st l)) legs"
  shows "0 \<le> mean_rate legs" "mean_rate legs \<le> 1"
proof -
  have "0 \<le> sum_list (map (\<lambda>l. ts_OkRate (ql_st l)) legs)"
    using assms(2) by (intro sum_list_nonneg) (auto simp: rate_ok_def list_all_iff)
  then show "0 \<le> mean_rate legs" by (simp add: mean_rate_def)
  have "sum_list (map (\<lambda>l. ts_OkRate (ql_st l)) legs) \<le> sum_list (map (\<lambda>l. 1) legs)"
    using assms(2) by (intro sum_list_mono) (auto simp: rate_ok_def list_all_iff)
  then show "mean_rate legs \<le> 1" using assms(1) by (simp add: mean_rate_def sum_list_triv divide_le_eq)
qed

lemma okRateScore_bounds:
  assumes "list_all (\<lambda>l. rate_ok (ql_st l)) legs"
  shows "0 \<le> okRateScore legs" "okRateScore legs \<le> 100"
  using mean_rate_bounds [OF _ assms] by (auto simp: okRateScore_def floor_le_iff)

lemma judge_health_sound:
  assumes "list_all (\<lambda>l. rate_ok (ql_st l)) legs"
  shows "sound_report (judge_health cfg legs (insufficient v))"
  using okRateScore_bounds [OF assms] by (auto simp: judge_health_def sound_report_def verdict_defs Let_def insufficient_def)

lemma insufficient_sound: "sound_report (insufficient v)"
  by (simp add: sound_report_def insufficient_def verdict_defs)

lemma judge_chain_sound:
  assumes "list_all (\<lambda>l. rate_ok (ql_st l)) (ds @ ns @ hs)"
  shows "sound_report (judge_chain cfg ds ns hs (insufficient v))"
proof -
  note b = okRateScore_bounds [OF assms]
  have "filter leg_failed ns \<noteq> []" if "list_ex leg_failed ns" using that by (auto simp: list_ex_iff filter_empty_conv)
  then show ?thesis
    using b judge_health_sound [OF assms] insufficient_sound
    unfolding judge_chain_def Let_def by (auto simp: sound_report_def verdict_defs insufficient_def)
qed

lemma legStats_track: "legStatsInBucket qt agg idOf v = Some st \<Longrightarrow> \<exists>k a. map_of agg k = Some a \<and> st = stats a \<and> tg_samples a \<noteq> 0"
  by (auto simp: legStatsInBucket_def split: option.splits if_splits)

lemma legs_rate_ok:
  assumes "\<And>k a. map_of agg k = Some a \<Longrightarrow> track_ok a" "l \<in> set (legs_of agg idOf v ts c)"
  shows "rate_ok (ql_st l)"
proof -
  obtain qt st where "legStatsInBucket qt agg idOf v = Some st" "ql_st l = st"
    using assms(2) by (auto simp: legs_of_def set_map_filter judge_leg_eq)
  then show ?thesis using legStats_track stats_rate_ok assms(1) by metis
qed

lemma judgeVantage_sound:
  assumes "\<And>k a. map_of agg k = Some a \<Longrightarrow> track_ok a"
  shows "sound_report (judgeVantage ts agg idOf v cfg)"
  unfolding judgeVantage_def Let_def using legs_rate_ok [OF assms] by (intro judge_chain_sound) (auto simp: list_all_iff)

lemma judgeSimpleCategory_sound:
  assumes "\<And>k st. statsOf k = Some st \<Longrightarrow> rate_ok st"
  shows "sound_report (judgeSimpleCategory bucket v statsOf cfg)"
proof -
  have "rate_ok (ql_st l)" if "l \<in> set (simple_legs bucket v statsOf)" for l
    using that assms by (auto simp: simple_legs_def set_map_filter split: option.splits if_splits)
  then show ?thesis using judge_health_sound insufficient_sound by (simp add: judgeSimpleCategory_def Let_def list_all_iff)
qed

lemma aggregate_track_ok: "map_of (aggregate rows) k = Some a \<Longrightarrow> track_ok a"
  using track_of_ok by (auto simp: map_of_aggregate split: if_splits)

lemma with_network_simps [simp]: "sound_report (with_network f vr) = sound_report vr" "vr_Vantage (with_network f vr) = vr_Vantage vr"
  by (simp_all add: with_network_def sound_report_def Let_def)

text \<open>What the reads of the analysis return.\<close>

definition listed_targets :: "probe_db \<Rightarrow> ProbeTarget list" where
  "listed_targets db = sort_by (\<lambda>a b. pt_ID a < pt_ID b) (db_targets db)"

definition rows_since :: "string \<Rightarrow> probe_db \<Rightarrow> ProbeResult list" where
  "rows_since cutoff db = sort_by (\<lambda>a b. newer b a) (filter (\<lambda>r. \<not> str_less (pr_CheckedAt r) cutoff) (db_results db))"

definition listed_networks :: "probe_db \<Rightarrow> Network list" where
  "listed_networks db = sort_by (\<lambda>a b. net_ID a < net_ID b) (db_networks db)"

lemma wrapped_read:
  assumes "wrap_error what (stmt (get_state f)) db = (r, db')"
  shows "\<exists>fs. db' = db\<lparr>db_faults := fs\<rparr> \<and> (r = Inl (Wrapped what ErrDatabase) \<or> r = Inr (f (db\<lparr>db_faults := fs\<rparr>)))"
proof -
  obtain r1 db1 where r1: "stmt (get_state f) db = (r1, db1)" by fastforce
  then have eq: "db' = db1" "r = (case r1 of Inl err \<Rightarrow> Inl (Wrapped what err) | Inr x \<Rightarrow> Inr x)" using assms by (simp_all add: wrap_error_def)
  show ?thesis using stmt_effect [OF r1] unfolding eq by (auto simp: get_state_def quiet_def)
qed

lemma wrapped_lists:
  "wrap_error what ListProbeTargets db = (r, db') \<Longrightarrow>
     quiet db db' \<and> (r = Inl (Wrapped what ErrDatabase) \<or> r = Inr (listed_targets db))"
  "wrap_error what ListNetworks db = (r2, db') \<Longrightarrow>
     quiet db db' \<and> (r2 = Inl (Wrapped what ErrDatabase) \<or> r2 = Inr (listed_networks db))"
  "wrap_error what (ListProbeResultsSince cutoff) db = (r3, db') \<Longrightarrow>
     quiet db db' \<and> (r3 = Inl (Wrapped what ErrDatabase) \<or> r3 = Inr (rows_since cutoff db))"
  unfolding ListProbeTargets_def ListNetworks_def ListProbeResultsSince_def
  by (drule wrapped_read; force simp: listed_targets_def listed_networks_def rows_since_def quiet_def)+

lemma quiet_lists:
  assumes "quiet db db'"
  shows "listed_targets db' = listed_targets db" "listed_networks db' = listed_networks db" "rows_since c db' = rows_since c db"
  using assms by (auto simp: quiet_def listed_targets_def listed_networks_def rows_since_def)

lemma quiet_trans: "quiet a b \<Longrightarrow> quiet b c \<Longrightarrow> quiet a c"
  by (auto simp: quiet_def)

lemma Analyze_ok:
  assumes "Analyze cfg now w db = (Inr rep, db')"
  shows "quiet db db' \<and> rep = analysis cfg (effective_window cfg w)
    (rows_since (analyze_cutoff now (effective_window cfg w)) db) (listed_targets db) (listed_networks db)"
proof -
  from seq_okD [OF assms [unfolded Analyze_def Let_def]] obtain rows db1 where
    1: "wrap_error ''quality analyze: results since'' (ListProbeResultsSince (analyze_cutoff now (effective_window cfg w))) db = (Inr rows, db1)"
    and rest: "seq (wrap_error ''quality analyze: list targets'' ListProbeTargets) (\<lambda>targets.
      seq (wrap_error ''quality analyze: list networks'' ListNetworks) (\<lambda>nets.
      ret (analysis cfg (effective_window cfg w) rows targets nets))) db1 = (Inr rep, db')" by blast
  from seq_okD [OF rest] obtain ts db2 where 2: "wrap_error ''quality analyze: list targets'' ListProbeTargets db1 = (Inr ts, db2)"
    and rest: "seq (wrap_error ''quality analyze: list networks'' ListNetworks) (\<lambda>nets.
      ret (analysis cfg (effective_window cfg w) rows ts nets)) db2 = (Inr rep, db')" by blast
  from seq_okD [OF rest] obtain ns db3 where 3: "wrap_error ''quality analyze: list networks'' ListNetworks db2 = (Inr ns, db3)"
    and "ret (analysis cfg (effective_window cfg w) rows ts ns) db3 = (Inr rep, db')" by blast
  then have "db3 = db'" "rep = analysis cfg (effective_window cfg w) rows ts ns" by (simp_all add: ret_def)
  moreover note q = wrapped_lists(3) [OF 1] wrapped_lists(1) [OF 2] wrapped_lists(2) [OF 3]
  moreover have "quiet db db2" using q quiet_trans by blast
  ultimately show ?thesis using quiet_lists [of db db1] quiet_lists [of db db2] quiet_trans by auto
qed

definition report_vantages :: "QualityReport \<Rightarrow> QualityVantageReport list" where
  "report_vantages rep = concat (map (\<lambda>cr. cr_Vantages cr @ concat (map gr_Vantages (cr_Groups cr))) (qr_Categories rep))"

lemma analyzeGroup_sound: "list_all sound_report (gr_Vantages (analyzeGroup cfg grp ts idOf (aggregate rows) names))"
  using judgeVantage_sound [OF aggregate_track_ok] by (simp add: analyzeGroup_def Let_def list_all_iff)

lemma simple_category_sound:
  "list_all sound_report (cr_Vantages (simple_category cfg targets (aggregate rows) names cat))"
  "cr_Groups (simple_category cfg targets (aggregate rows) names cat) = []"
proof -
  have "rate_ok st" if "map_option stats (map_of (aggregate rows) k) = Some st" for k st
    using that aggregate_track_ok [of rows k] by (auto intro: stats_rate_ok)
  then show "list_all sound_report (cr_Vantages (simple_category cfg targets (aggregate rows) names cat))"
    using judgeSimpleCategory_sound [where statsOf = "\<lambda>k. map_option stats (map_of (aggregate rows) k)"]
    by (simp add: simple_category_def Let_def list_all_iff)
  show "cr_Groups (simple_category cfg targets (aggregate rows) names cat) = []" by (simp add: simple_category_def Let_def)
qed

lemma quality_category_sound:
  "list_all sound_report (cr_Vantages (quality_category cfg targets (aggregate rows) names))"
  "list_all (\<lambda>g. list_all sound_report (gr_Vantages g)) (cr_Groups (quality_category cfg targets (aggregate rows) names))"
  using analyzeGroup_sound by (auto simp: quality_category_def Let_def list_all_iff)

lemma analysis_sound: "list_all sound_report (report_vantages (analysis cfg window rows targets nets))"
  using simple_category_sound quality_category_sound [of cfg targets rows]
  by (fastforce simp: report_vantages_def analysis_def Let_def list_all_iff)

text \<open>
  C0.  A report changes nothing, and every verdict in it is one of the six, with a score between 0 and
  100: at most 25 when the path or the name resolution is down, at most 80 when degraded, 0 without
  data; and reasons are given exactly when the verdict is not ok.
\<close>

theorem quality_report_sound:
  assumes "Analyze cfg now w db = (Inr rep, db')"
  shows "quiet db db' \<and> list_all sound_report (report_vantages rep)"
  using Analyze_ok [OF assms] analysis_sound by simp

subsection \<open>What the gauges show\<close>

lemma fold_set_gauges_other:
  "(v, cat) \<notin> (\<lambda>r. (vr_Vantage r, c)) ` set vs \<Longrightarrow> qm_score (fold (set_gauges c g) vs m) (v, cat) = qm_score m (v, cat)"
  by (induction vs arbitrary: m) (auto simp: set_gauges_def)

lemma fold_set_gauges_in:
  assumes "distinct (map vr_Vantage vs)" "vr \<in> set vs"
  shows "qm_score (fold (set_gauges c g) vs m) (vr_Vantage vr, c) = Some (of_int (vr_Score vr))"
  using assms
proof (induction vs arbitrary: m)
  case (Cons w vs)
  show ?case
  proof (cases "vr = w")
    case True
    then have "(vr_Vantage vr, c) \<notin> (\<lambda>r. (vr_Vantage r, c)) ` set vs" using Cons.prems(1) by force
    moreover have "qm_score (set_gauges c g w m) (vr_Vantage w, c) = Some (of_int (vr_Score w))" by (simp add: set_gauges_def)
    ultimately show ?thesis using True fold_set_gauges_other [of "vr_Vantage w" c c vs g "set_gauges c g w m"] by simp
  qed (use Cons in auto)
qed simp

lemma judge_vantage_name: "vr_Vantage (judgeVantage ts agg idOf v cfg) = v"
  by (simp add: judgeVantage_def judge_chain_def judge_health_def insufficient_def Let_def)

lemma distinct_insert_by: "distinct (insert_by lt x xs) \<longleftrightarrow> distinct (x # xs)"
  by (induction xs) auto

lemma distinct_sort_by [simp]: "distinct (sort_by lt xs) = distinct xs"
  by (induction xs) (auto simp: distinct_insert_by)

lemma group_vantages_distinct: "distinct (map vr_Vantage (gr_Vantages (analyzeGroup cfg grp ts idOf agg names)))"
  by (simp add: analyzeGroup_def Let_def comp_def judge_vantage_name sortedKeys_def)

lemma analysis_categories:
  "qr_Categories (analysis cfg w rows targets nets) =
     [simple_category cfg targets (aggregate rows) (\<lambda>v. networkNameFor v (agent_names nets)) ProbeCategoryLAN,
      simple_category cfg targets (aggregate rows) (\<lambda>v. networkNameFor v (agent_names nets)) ProbeCategoryExternal,
      quality_category cfg targets (aggregate rows) (\<lambda>v. networkNameFor v (agent_names nets))]"
  by (simp add: analysis_def Let_def)

lemma quality_category_last:
  assumes "cr_Groups (quality_category cfg targets agg names) = gs @ [g]" "vr \<in> set (gr_Vantages g)"
  shows "qm_score (export_category (quality_category cfg targets agg names) m) (vr_Vantage vr, ''quality'') = Some (of_int (vr_Score vr))"
proof -
  have cat: "cr_Category (quality_category cfg targets agg names) = ''quality''"
    by (simp add: quality_category_def category_defs Let_def)
  have "g \<in> set (cr_Groups (quality_category cfg targets agg names))" using assms(1) by simp
  then have "distinct (map vr_Vantage (gr_Vantages g))"
    using group_vantages_distinct by (auto simp: quality_category_def Let_def)
  then show ?thesis using fold_set_gauges_in [OF _ assms(2)] cat assms(1) by (simp add: export_category_def category_defs)
qed

text \<open>
  C0.  The score exported for a vantage of the egress matrix is the one of the group whose name comes last:
  the gauge has no label for the group, so that with a reference group after the primary one the
  score of the primary group is overwritten.
\<close>

theorem score_gauge_last_group:
  assumes "Analyze cfg now (qc_WindowMinutes cfg) db = (Inr rep, db')"
    and "cr_Groups (last (qr_Categories rep)) = gs @ [g]" "vr \<in> set (gr_Vantages g)"
  shows "qm_score (fst (refresh cfg now m db)) (vr_Vantage vr, ''quality'') = Some (of_int (vr_Score vr))"
proof -
  note rep = conjunct2 [OF Analyze_ok [OF assms(1)]]
  have "qm_score (fold export_category (qr_Categories rep) m0) (vr_Vantage vr, ''quality'') = Some (of_int (vr_Score vr))" for m0
    using quality_category_last assms(2,3) unfolding rep analysis_categories by simp
  then show ?thesis using assms(1) by (simp add: refresh_def)
qed

end
