(* ===== verification/Quality_Trend.thy ===== *)
theory Quality_Trend
  imports Probe_Quality
begin

section \<open>Network quality: the trend\<close>

text \<open>
  \<^verbatim>\<open>internal/service/probetarget/quality_history.go\<close> with the aggregating query of \<^verbatim>\<open>internal/db/probe_results.sql.go\<close>: the trend over hours
  or days, which replays the verdict chain on every bucket.  The lemmas relate the tracks that are
  put together from the rows of the query with the tracks of the results themselves.
\<close>

subsection \<open>The trend\<close>

record ListProbeQualityBucketsRow =
  qb_TargetID :: int
  qb_Vantage :: string
  qb_Bucket :: string
  qb_Samples :: int
  qb_OkCount :: "rat option"
  qb_AvgMs :: "rat option"

definition rows_in :: "nat \<Rightarrow> string \<Rightarrow> ProbeResult list \<Rightarrow> ProbeResult list" where
  "rows_in len b rows = filter (\<lambda>r. take len (pr_CheckedAt r) = b) rows"

definition bucket_row :: "ProbeResult list \<Rightarrow> nat \<Rightarrow> string \<times> int \<times> string \<Rightarrow> ListProbeQualityBucketsRow" where
  "bucket_row rows len = (\<lambda>(b, i, v).
     let rs = filter (\<lambda>r. pr_TargetID r = i \<and> pr_Vantage r = v) (rows_in len b rows);
         oks = filter (\<lambda>r. pr_Status r = ''success'') rs;
         ms = map pr_LatencyMs (filter (\<lambda>r. 0 < pr_LatencyMs r) oks)
     in \<lparr>qb_TargetID = i, qb_Vantage = v, qb_Bucket = b, qb_Samples = int (length rs),
         qb_OkCount = (if rs = [] then None else Some (of_nat (length oks))),
         qb_AvgMs = (if ms = [] then None else Some (sum_list ms / of_nat (length ms)))\<rparr>)"

definition bucket_less :: "string \<times> int \<times> string \<Rightarrow> string \<times> int \<times> string \<Rightarrow> bool" where
  "bucket_less x y \<longleftrightarrow>
     (case (x, y) of ((b, i, v), (b', i', v')) \<Rightarrow>
        str_less b b' \<or> b = b' \<and> (i < i' \<or> i = i' \<and> str_less v v'))"

definition system_rows :: "string \<Rightarrow> probe_db \<Rightarrow> ProbeResult list" where
  "system_rows cutoff db =
     filter (\<lambda>r. \<not> str_less (pr_CheckedAt r) cutoff \<and>
       list_ex (\<lambda>t. pt_ID t = pr_TargetID r \<and> pt_Source t = ''system'' \<and> pt_Enabled t = 1) (db_targets db)) (db_results db)"

definition quality_buckets :: "nat \<Rightarrow> ProbeResult list \<Rightarrow> ListProbeQualityBucketsRow list" where
  "quality_buckets len rows =
     map (bucket_row rows len)
       (sort_by bucket_less (remdups (map (\<lambda>r. (take len (pr_CheckedAt r), pr_TargetID r, pr_Vantage r)) rows)))"

definition ListProbeQualityBuckets :: "nat \<Rightarrow> string \<Rightarrow> ListProbeQualityBucketsRow list pprog" where
  "ListProbeQualityBuckets len cutoff = stmt (get_state (\<lambda>db. quality_buckets len (system_rows cutoff db)))"

record pointAcc =
  pa_okSum :: rat
  pa_okCount :: rat

record bucketing =
  bk_buckets :: "(string \<times> tracks) list"
  bk_acc :: "(string \<times> (string \<times> pointAcc) list) list"

definition synth_track :: "ListProbeQualityBucketsRow \<Rightarrow> trackAgg \<Rightarrow> trackAgg" where
  "synth_track r a =
     a\<lparr>tg_samples := tg_samples a + qb_Samples r,
       tg_ok := (case qb_OkCount r of Some c \<Rightarrow> tg_ok a + \<lfloor>c\<rfloor> | None \<Rightarrow> tg_ok a),
       tg_latencies := (case qb_AvgMs r of Some ms \<Rightarrow> if 0 < ms then [ms] else tg_latencies a | None \<Rightarrow> tg_latencies a)\<rparr>"

definition add_point :: "rat \<Rightarrow> rat \<Rightarrow> pointAcc \<Rightarrow> pointAcc" where
  "add_point ms n va = va\<lparr>pa_okSum := pa_okSum va + ms * n, pa_okCount := pa_okCount va + n\<rparr>"

text \<open>One row of the query; a mean without a count would be a nil dereference.\<close>

definition weigh_row :: "ListProbeQualityBucketsRow \<Rightarrow> (string \<times> pointAcc) list \<Rightarrow> (string \<times> pointAcc) list option" where
  "weigh_row r accs =
     (case qb_AvgMs r of
        None \<Rightarrow> Some accs
      | Some ms \<Rightarrow>
          if 0 < ms then
            (case qb_OkCount r of
               None \<Rightarrow> None
             | Some n \<Rightarrow> Some (at_key (qb_Vantage r) (add_point ms n) \<lparr>pa_okSum = 0, pa_okCount = 0\<rparr> accs))
          else Some accs)"

definition weigh_bucket :: "ListProbeQualityBucketsRow \<Rightarrow> (string \<times> (string \<times> pointAcc) list) list \<Rightarrow> (string \<times> (string \<times> pointAcc) list) list option" where
  "weigh_bucket r acc =
     (case weigh_row r (case map_of acc (qb_Bucket r) of Some accs \<Rightarrow> accs | None \<Rightarrow> []) of
        None \<Rightarrow> None
      | Some accs \<Rightarrow> Some (at_key (qb_Bucket r) (\<lambda>_. accs) [] acc))"

definition add_bucket_row :: "ListProbeQualityBucketsRow \<Rightarrow> bucketing \<Rightarrow> bucketing option" where
  "add_bucket_row r bk =
     (case weigh_bucket r (bk_acc bk) of
        None \<Rightarrow> None
      | Some acc \<Rightarrow>
          Some \<lparr>bk_buckets = at_key (qb_Bucket r) (at_key (qb_TargetID r, qb_Vantage r) (synth_track r) new_track) [] (bk_buckets bk),
                bk_acc = acc\<rparr>)"

fun add_bucket_rows :: "ListProbeQualityBucketsRow list \<Rightarrow> bucketing \<Rightarrow> bucketing option" where
  "add_bucket_rows [] bk = Some bk"
| "add_bucket_rows (r # rs) bk = (case add_bucket_row r bk of None \<Rightarrow> None | Some bk' \<Rightarrow> add_bucket_rows rs bk')"

definition bucket_legs :: "ProbeQualityTarget list \<Rightarrow> tracks \<Rightarrow> (string \<rightharpoonup> int) \<Rightarrow> string \<Rightarrow> QualityTrackStats list" where
  "bucket_legs ts agg idOf vantage = List.map_filter (\<lambda>qt. legStatsInBucket qt agg idOf vantage) ts"

definition bucketOkRate :: "ProbeQualityTarget list \<Rightarrow> tracks \<Rightarrow> (string \<rightharpoonup> int) \<Rightarrow> string \<Rightarrow> rat" where
  "bucketOkRate ts agg idOf vantage =
     (let sts = bucket_legs ts agg idOf vantage in
      if sts = [] then 0 else sum_list (map ts_OkRate sts) / of_nat (length sts))"

definition bucketSamples :: "ProbeQualityTarget list \<Rightarrow> tracks \<Rightarrow> (string \<rightharpoonup> int) \<Rightarrow> string \<Rightarrow> int" where
  "bucketSamples ts agg idOf vantage = sum_list (map ts_Samples (bucket_legs ts agg idOf vantage))"

record QualityHistoryPoint =
  hp_T :: string
  hp_OkRate :: rat
  hp_AvgMs :: rat
  hp_Samples :: int
  hp_Score :: int
  hp_Verdict :: string

record QualityHistorySeries =
  hs_Vantage :: string
  hs_NetworkName :: string
  hs_Points :: "QualityHistoryPoint list"

record QualityHistoryGroup =
  hg_Name :: string
  hg_Role :: string
  hg_Series :: "QualityHistorySeries list"

record QualityHistoryReport =
  hr_Days :: int
  hr_Bucket :: string
  hr_Groups :: "QualityHistoryGroup list"

definition bucketStart :: "nat \<Rightarrow> string \<Rightarrow> string" where
  "bucketStart len b = (if len = 13 then b @ '':00:00Z'' else b @ ''T00:00:00Z'')"

definition point_avg :: "bucketing \<Rightarrow> string \<Rightarrow> string \<Rightarrow> rat" where
  "point_avg bk b vantage =
     (case map_of (case map_of (bk_acc bk) b of Some accs \<Rightarrow> accs | None \<Rightarrow> []) vantage of
        Some va \<Rightarrow> if 0 < pa_okCount va then pa_okSum va / pa_okCount va else 0
      | None \<Rightarrow> 0)"

definition history_point ::
    "ProbeQualityConfig \<Rightarrow> (string \<rightharpoonup> int) \<Rightarrow> ProbeQualityTarget list \<Rightarrow> nat \<Rightarrow> bucketing \<Rightarrow> string \<Rightarrow> tracks \<Rightarrow> string \<Rightarrow> QualityHistoryPoint" where
  "history_point cfg idOf ts len bk b agg vantage =
     (let vr = judgeVantage ts agg idOf vantage cfg in
      \<lparr>hp_T = bucketStart len b, hp_OkRate = bucketOkRate ts agg idOf vantage, hp_AvgMs = point_avg bk b vantage,
       hp_Samples = bucketSamples ts agg idOf vantage, hp_Score = vr_Score vr, hp_Verdict = vr_Verdict vr\<rparr>)"

text \<open>The points of the buckets in their order, each appended to the series of its vantage.\<close>

definition add_history_point :: "string \<Rightarrow> QualityHistoryPoint \<Rightarrow> (string \<times> QualityHistorySeries) list \<Rightarrow> (string \<times> QualityHistorySeries) list" where
  "add_history_point vantage p =
     at_key vantage (\<lambda>ser. ser\<lparr>hs_Points := hs_Points ser @ [p]\<rparr>) \<lparr>hs_Vantage = vantage, hs_NetworkName = [], hs_Points = []\<rparr>"

definition add_bucket_points ::
    "ProbeQualityConfig \<Rightarrow> (string \<rightharpoonup> int) \<Rightarrow> ProbeQualityTarget list \<Rightarrow> nat \<Rightarrow> bucketing \<Rightarrow> string \<times> tracks \<Rightarrow>
      (string \<times> QualityHistorySeries) list \<Rightarrow> (string \<times> QualityHistorySeries) list" where
  "add_bucket_points cfg idOf ts len bk = (\<lambda>(b, agg).
     fold (\<lambda>v. add_history_point v (history_point cfg idOf ts len bk b agg v)) (remdups (map (\<lambda>(k, a). snd k) agg)))"

definition sortedVantages :: "(string \<times> QualityHistorySeries) list \<Rightarrow> (string \<times> QualityHistorySeries) list" where
  "sortedVantages m = sort_by (\<lambda>a b. str_less (fst a) (fst b)) m"

definition name_series :: "(string \<Rightarrow> string) \<Rightarrow> QualityHistorySeries \<Rightarrow> QualityHistorySeries" where
  "name_series networkName ser =
     (let name = networkName (hs_Vantage ser) in if name \<noteq> [] then ser\<lparr>hs_NetworkName := name\<rparr> else ser)"

definition history_group ::
    "ProbeQualityConfig \<Rightarrow> (string \<rightharpoonup> int) \<Rightarrow> (string \<Rightarrow> string) \<Rightarrow> nat \<Rightarrow> bucketing \<Rightarrow> string \<times> ProbeQualityTarget list \<Rightarrow> QualityHistoryGroup" where
  "history_group cfg idOf networkName len bk = (\<lambda>(grp, ts).
     let sorted = sort_by (\<lambda>a b. str_less (fst a) (fst b)) (bk_buckets bk);
         series = fold (add_bucket_points cfg idOf ts len bk) sorted []
     in \<lparr>hg_Name = grp, hg_Role = group_role grp, hg_Series = map (\<lambda>(v, ser). name_series networkName ser) (sortedVantages series)\<rparr>)"

definition history_bucket :: "int \<Rightarrow> nat \<times> string" where
  "history_bucket days = (if 7 < days then (10, ''day'') else (13, ''hour''))"

text \<open>\<^verbatim>\<open>AddDate\<close> with a number of days on a time in UTC, where every day has the same length.\<close>

definition history_cutoff :: "gotime \<Rightarrow> int \<Rightarrow> string" where
  "history_cutoff now days = format_rfc3339 (now - days * (86400 * second))"

definition History :: "ProbeQualityConfig \<Rightarrow> gotime \<Rightarrow> int \<Rightarrow> QualityHistoryReport pprog" where
  "History cfg now requested =
     (let days = (if requested \<le> 0 then 7 else requested); (len, name) = history_bucket days in
      seq (wrap_error ''quality history: buckets'' (ListProbeQualityBuckets len (history_cutoff now days))) (\<lambda>rows.
      seq (wrap_error ''quality history: list targets'' ListProbeTargets) (\<lambda>targets.
      seq (wrap_error ''quality history: list networks'' ListNetworks) (\<lambda>nets.
      case add_bucket_rows rows \<lparr>bk_buckets = [], bk_acc = []\<rparr> of
        None \<Rightarrow> raise (Panic ''nil pointer dereference'')
      | Some bk \<Rightarrow>
          ret \<lparr>hr_Days = days, hr_Bucket = name,
               hr_Groups = map (history_group cfg (target_ids targets) (\<lambda>v. networkNameFor v (agent_names nets)) len bk) (sorted_groups cfg)\<rparr>))))"

subsection \<open>Scores follow from shares and verdicts\<close>

lemma legs_split_sum:
  fixes h :: "qualityLeg \<Rightarrow> 'a::comm_monoid_add"
  shows "sum_list (map h (legs_of agg idOf v ts Direct @ legs_of agg idOf v ts Dns @ legs_of agg idOf v ts Other)) =
     sum_list (map h (List.map_filter (judge_leg agg idOf v) ts))"
proof (induction ts)
  case (Cons t ts)
  show ?case
    using Cons.IH by (cases "judge_leg agg idOf v t"; cases "classify_leg t")
      (simp_all add: legs_of_def List.map_filter_simps ac_simps)
qed (simp add: legs_of_def List.map_filter_simps)

lemma bucket_legs_judged: "bucket_legs ts agg idOf v = map ql_st (List.map_filter (judge_leg agg idOf v) ts)"
  by (induction ts) (auto simp: bucket_legs_def List.map_filter_simps judge_leg_eq split: option.splits)

definition all_legs :: "tracks \<Rightarrow> (string \<rightharpoonup> int) \<Rightarrow> string \<Rightarrow> ProbeQualityTarget list \<Rightarrow> qualityLeg list" where
  "all_legs agg idOf v ts = legs_of agg idOf v ts Direct @ legs_of agg idOf v ts Dns @ legs_of agg idOf v ts Other"

lemma bucket_legs_all:
  "length (bucket_legs ts agg idOf v) = length (all_legs agg idOf v ts)"
  "sum_list (map ts_OkRate (bucket_legs ts agg idOf v)) = sum_list (map (\<lambda>l. ts_OkRate (ql_st l)) (all_legs agg idOf v ts))"
proof -
  show "length (bucket_legs ts agg idOf v) = length (all_legs agg idOf v ts)"
    using legs_split_sum [of "\<lambda>_. 1::nat" agg idOf v ts]
    by (simp only: all_legs_def bucket_legs_judged length_map sum_list_triv of_nat_id mult_1_right)
  show "sum_list (map ts_OkRate (bucket_legs ts agg idOf v)) = sum_list (map (\<lambda>l. ts_OkRate (ql_st l)) (all_legs agg idOf v ts))"
    unfolding all_legs_def legs_split_sum bucket_legs_judged by (simp add: comp_def)
qed

lemma bucketOkRate_mean: "bucketOkRate ts agg idOf v = (if all_legs agg idOf v ts = [] then 0 else mean_rate (all_legs agg idOf v ts))"
proof -
  have "bucket_legs ts agg idOf v = [] \<longleftrightarrow> all_legs agg idOf v ts = []" using bucket_legs_all(1) by (metis length_0_conv)
  then show ?thesis by (simp only: bucketOkRate_def Let_def bucket_legs_all mean_rate_def)
qed

definition score_of :: "string \<Rightarrow> rat \<Rightarrow> int" where
  "score_of verdict rate =
     (let s = \<lfloor>rate * 100 + 1 / 2\<rfloor> in
      if verdict = ''insufficient'' then 0
      else if verdict \<in> {''egress_down'', ''dns_fault''} then min s 25
      else if verdict = ''degraded'' then max (s - 20) 0 else s)"

lemma judgeVantage_score:
  "vr_Score (judgeVantage ts agg idOf v cfg) = score_of (vr_Verdict (judgeVantage ts agg idOf v cfg)) (bucketOkRate ts agg idOf v)"
  unfolding judgeVantage_def Let_def bucketOkRate_mean all_legs_def judge_chain_def judge_health_def okRateScore_def
  by (auto simp: score_of_def insufficient_def verdict_defs Let_def)

lemma judgeVantage_insufficient: "vr_Verdict (judgeVantage ts agg idOf v cfg) = ''insufficient'' \<longleftrightarrow> bucket_legs ts agg idOf v = []"
proof -
  have "vr_Verdict (judgeVantage ts agg idOf v cfg) = ''insufficient'' \<longleftrightarrow> all_legs agg idOf v ts = []"
    unfolding judgeVantage_def Let_def judge_chain_verdict all_legs_def [symmetric] by (auto simp: insufficient_def verdict_defs)
  then show ?thesis using bucket_legs_all(1) by (metis length_0_conv)
qed

lemma bucketSamples_zero:
  assumes "\<And>k a. map_of agg k = Some a \<Longrightarrow> track_ok a"
  shows "0 \<le> bucketSamples ts agg idOf v" "bucketSamples ts agg idOf v = 0 \<longleftrightarrow> bucket_legs ts agg idOf v = []"
proof -
  have pos: "0 < ts_Samples st" if st: "st \<in> set (bucket_legs ts agg idOf v)" for st
  proof -
    obtain k a where "map_of agg k = Some a" "st = stats a" "tg_samples a \<noteq> 0"
      using st legStats_track unfolding bucket_legs_def set_map_filter by blast
    then show ?thesis using assms by (fastforce simp: track_ok_def)
  qed
  show "0 \<le> bucketSamples ts agg idOf v"
    unfolding bucketSamples_def using pos by (intro sum_list_nonneg) (auto intro: less_imp_le)
  have "0 < sum_list (map ts_Samples sts)" if "sts \<noteq> []" "\<And>st. st \<in> set sts \<Longrightarrow> 0 < ts_Samples st" for sts :: "QualityTrackStats list"
    using that by (induction sts rule: list_nonempty_induct) (auto intro: add_pos_pos)
  then show "bucketSamples ts agg idOf v = 0 \<longleftrightarrow> bucket_legs ts agg idOf v = []"
    using pos unfolding bucketSamples_def by fastforce
qed

lemma bucketOkRate_bounds:
  assumes "\<And>k a. map_of agg k = Some a \<Longrightarrow> track_ok a"
  shows "0 \<le> bucketOkRate ts agg idOf v" "bucketOkRate ts agg idOf v \<le> 1"
proof -
  have "list_all (\<lambda>l. rate_ok (ql_st l)) (all_legs agg idOf v ts)"
    using legs_rate_ok [OF assms] by (auto simp: all_legs_def list_all_iff)
  then show "0 \<le> bucketOkRate ts agg idOf v" "bucketOkRate ts agg idOf v \<le> 1"
    using mean_rate_bounds unfolding bucketOkRate_mean by auto
qed

definition consistent_point :: "QualityHistoryPoint \<Rightarrow> bool" where
  "consistent_point p \<longleftrightarrow>
     0 \<le> hp_OkRate p \<and> hp_OkRate p \<le> 1 \<and> 0 \<le> hp_Samples p \<and>
     (hp_Samples p = 0 \<longleftrightarrow> hp_Verdict p = ''insufficient'') \<and> hp_Score p = score_of (hp_Verdict p) (hp_OkRate p)"

lemma history_point_consistent:
  assumes "\<And>k a. map_of agg k = Some a \<Longrightarrow> track_ok a"
  shows "consistent_point (history_point cfg idOf ts len bk b agg v)"
  using bucketOkRate_bounds [OF assms] bucketSamples_zero [OF assms] judgeVantage_score judgeVantage_insufficient
  by (simp add: consistent_point_def history_point_def Let_def)

subsection \<open>Verdicts that do not look at latencies\<close>

text \<open>Two sets of tracks with the same counts give the same judgement up to latencies.\<close>

definition same_counts :: "tracks \<Rightarrow> tracks \<Rightarrow> bool" where
  "same_counts agg agg' \<longleftrightarrow> distinct (map fst agg) \<and> distinct (map fst agg') \<and>
     (\<forall>k. map_option (\<lambda>a. (tg_samples a, tg_ok a)) (map_of agg k) = map_option (\<lambda>a. (tg_samples a, tg_ok a)) (map_of agg' k))"

definition core_stats :: "QualityTrackStats \<Rightarrow> QualityTrackStats" where
  "core_stats st = st\<lparr>ts_P50Ms := 0, ts_LastStatus := []\<rparr>"

definition core :: "qualityLeg \<Rightarrow> qualityLeg" where
  "core l = l\<lparr>ql_st := core_stats (ql_st l)\<rparr>"

lemma core_simps [simp]:
  "ts_OkRate (core_stats st) = ts_OkRate st" "ts_Samples (core_stats st) = ts_Samples st" "ql_name (core l) = ql_name l"
  "leg_failed (core l) = leg_failed l" "leg_passed cfg (core l) = leg_passed cfg l"
  by (simp_all add: core_stats_def core_def leg_failed_def leg_passed_def)

lemma mean_rate_core: "mean_rate (map core legs) = mean_rate legs"
  by (simp add: mean_rate_def core_def comp_def)

lemma core_stats_same:
  "tg_samples a = tg_samples a' \<Longrightarrow> tg_ok a = tg_ok a' \<Longrightarrow> core_stats (stats a) = core_stats (stats a')"
  by (simp add: core_stats_def stats_def Let_def)

lemma same_countsD:
  assumes "same_counts agg agg'"
  shows "map_of agg k = None \<longleftrightarrow> map_of agg' k = None"
    "map_of agg k = Some a \<Longrightarrow> \<exists>a'. map_of agg' k = Some a' \<and> tg_samples a' = tg_samples a \<and> tg_ok a' = tg_ok a"
proof -
  have e: "map_option (\<lambda>a. (tg_samples a, tg_ok a)) (map_of agg k) = map_option (\<lambda>a. (tg_samples a, tg_ok a)) (map_of agg' k)"
    using assms unfolding same_counts_def by blast
  show "map_of agg k = None \<longleftrightarrow> map_of agg' k = None" using e by (cases "map_of agg k"; cases "map_of agg' k") auto
  show "\<exists>a'. map_of agg' k = Some a' \<and> tg_samples a' = tg_samples a \<and> tg_ok a' = tg_ok a" if "map_of agg k = Some a"
    using e that by (cases "map_of agg' k") auto
qed

lemma same_counts_sym: "same_counts agg agg' \<Longrightarrow> same_counts agg' agg"
  by (simp add: same_counts_def)

lemma same_counts_isolated:
  assumes "same_counts agg agg'"
  shows "isolated agg i = isolated agg' i"
proof -
  have "ts_OkRate (stats a) \<le> 1 / 2"
    if "same_counts g g'" "\<forall>v a. map_of g (i, v) = Some a \<longrightarrow> ts_OkRate (stats a) \<le> 1 / 2" "map_of g' (i, v) = Some a" for g g' v a
    using that same_countsD(2) [OF same_counts_sym [OF that(1)] that(3)] by fastforce
  then have "(\<forall>v a. map_of agg (i, v) = Some a \<longrightarrow> ts_OkRate (stats a) \<le> 1 / 2) \<longleftrightarrow>
      (\<forall>v a. map_of agg' (i, v) = Some a \<longrightarrow> ts_OkRate (stats a) \<le> 1 / 2)"
    using assms same_counts_sym by blast
  then show ?thesis using assms same_countsD(1) [OF assms] by (simp only: isolated_iff same_counts_def) 
qed

lemma same_counts_legStats:
  assumes "same_counts agg agg'"
  shows "map_option core_stats (legStatsInBucket qt agg idOf v) = map_option core_stats (legStatsInBucket qt agg' idOf v)"
proof (cases "idOf (qt_Name qt)")
  case (Some i)
  show ?thesis
  proof (cases "map_of agg (i, v)")
    case None
    then have "map_of agg' (i, v) = None" using same_countsD(1) [OF assms] by blast
    then show ?thesis using Some None by (simp add: legStats_isolated)
  next
    case (Some a)
    from same_countsD(2) [OF assms this] obtain a' where
      a': "map_of agg' (i, v) = Some a'" "tg_samples a' = tg_samples a" "tg_ok a' = tg_ok a" by blast
    show ?thesis
      using Some a' \<open>idOf (qt_Name qt) = Some i\<close> same_counts_isolated [OF assms] core_stats_same [of a a']
      by (simp add: legStats_isolated)
  qed
qed (simp add: legStats_isolated)

lemma same_counts_judge_leg:
  assumes "same_counts agg agg'"
  shows "map_option core (judge_leg agg idOf v qt) = map_option core (judge_leg agg' idOf v qt)"
proof -
  have "map_option core (judge_leg g idOf v qt) =
      map_option (\<lambda>st. \<lparr>ql_name = qt_Name qt, ql_module = qt_Module qt, ql_st = st\<rparr>) (map_option core_stats (legStatsInBucket qt g idOf v))" for g
    by (simp add: judge_leg_eq option.map_comp comp_def core_def)
  then show ?thesis using same_counts_legStats [OF assms] by simp
qed

lemma map_map_filter: "map f (List.map_filter g xs) = List.map_filter (\<lambda>x. map_option f (g x)) xs"
  by (induction xs) (auto simp: List.map_filter_simps split: option.splits)

lemma same_counts_legs: "same_counts agg agg' \<Longrightarrow> map core (legs_of agg idOf v ts c) = map core (legs_of agg' idOf v ts c)"
  by (simp add: legs_of_def map_map_filter same_counts_judge_leg)

lemma same_counts_bucket:
  assumes "same_counts agg agg'"
  shows "bucketOkRate ts agg idOf v = bucketOkRate ts agg' idOf v" "bucketSamples ts agg idOf v = bucketSamples ts agg' idOf v"
proof -
  have eq: "map core_stats (bucket_legs ts agg idOf v) = map core_stats (bucket_legs ts agg' idOf v)"
    by (simp add: bucket_legs_def map_map_filter same_counts_legStats [OF assms])
  have "map ts_OkRate (bucket_legs ts agg idOf v) = map ts_OkRate (bucket_legs ts agg' idOf v)"
    "map ts_Samples (bucket_legs ts agg idOf v) = map ts_Samples (bucket_legs ts agg' idOf v)"
    using arg_cong [OF eq, of "map ts_OkRate"] arg_cong [OF eq, of "map ts_Samples"] by (simp_all only: map_map comp_def core_simps)
  moreover have "length (bucket_legs ts agg idOf v) = length (bucket_legs ts agg' idOf v)" using eq by (rule map_eq_imp_length_eq)
  moreover from this have "bucket_legs ts agg idOf v = [] \<longleftrightarrow> bucket_legs ts agg' idOf v = []" by (metis length_0_conv)
  ultimately show "bucketOkRate ts agg idOf v = bucketOkRate ts agg' idOf v" "bucketSamples ts agg idOf v = bucketSamples ts agg' idOf v"
    by (simp_all only: bucketOkRate_def bucketSamples_def Let_def)
qed

definition same_judgement :: "QualityVantageReport \<Rightarrow> QualityVantageReport \<Rightarrow> bool" where
  "same_judgement r r' \<longleftrightarrow> r = r' \<or> vr_Verdict r \<in> {''ok'', ''degraded''} \<and> vr_Verdict r' \<in> {''ok'', ''degraded''}"

lemma okRateScore_core: "okRateScore (map core legs) = okRateScore legs"
  by (simp add: okRateScore_def mean_rate_core)

lemma chain_core: "same_judgement (judge_chain cfg ds ns hs vr) (judge_chain cfg (map core ds) (map core ns) (map core hs) vr)"
proof -
  have tests: "list_all leg_failed (map core ls) = list_all leg_failed ls" "list_ex leg_failed (map core ls) = list_ex leg_failed ls"
    "list_ex (leg_passed cfg) (map core ls) = list_ex (leg_passed cfg) ls"
    "map (\<lambda>l. s @ ql_name l) (filter leg_failed (map core ls)) = map (\<lambda>l. s @ ql_name l) (filter leg_failed ls)" for ls s
    by (simp_all add: list.pred_map list_ex_iff filter_map comp_def)
  have legs: "map core ds @ map core ns @ map core hs = map core (ds @ ns @ hs)" by simp
  have health: "vr_Verdict (judge_health cfg ls vr) \<in> {''ok'', ''degraded''}" for ls
    by (simp add: judge_health_def verdict_defs Let_def)
  show ?thesis
    unfolding judge_chain_def allFailed_def Let_def legs tests okRateScore_core map_is_Nil_conv length_map
    using health by (auto simp: same_judgement_def)
qed

lemma same_counts_judge:
  assumes "same_counts agg agg'"
  shows "same_judgement (judgeVantage ts agg idOf v cfg) (judgeVantage ts agg' idOf v cfg)"
proof -
  let ?L = "\<lambda>g c. legs_of g idOf v ts c" and ?vr = "insufficient v"
  have "same_judgement (judge_chain cfg (?L g Direct) (?L g Dns) (?L g Other) ?vr)
      (judge_chain cfg (map core (?L g Direct)) (map core (?L g Dns)) (map core (?L g Other)) ?vr)" for g
    by (rule chain_core)
  from this [of agg] this [of agg'] show ?thesis
    unfolding judgeVantage_def Let_def same_counts_legs [OF assms] by (auto simp: same_judgement_def)
qed

subsection \<open>Buckets hold the counts of their results\<close>

definition tracks_at :: "bucketing \<Rightarrow> string \<Rightarrow> tracks" where
  "tracks_at bk b = (case map_of (bk_buckets bk) b of Some agg \<Rightarrow> agg | None \<Rightarrow> [])"

definition bk_ok :: "bucketing \<Rightarrow> bool" where
  "bk_ok bk \<longleftrightarrow> distinct (map fst (bk_buckets bk)) \<and> (\<forall>(b, agg) \<in> set (bk_buckets bk). distinct (map fst agg))"

lemma at_key_values: "x \<in> snd ` set (at_key k f z kvs) \<Longrightarrow> x \<in> snd ` set kvs \<or> (\<exists>y \<in> insert z (snd ` set kvs). x = f y)"
  by (induction k f z kvs rule: at_key.induct) (auto split: if_splits)

lemma weigh_row_ok: "(qb_AvgMs r \<noteq> None \<longrightarrow> qb_OkCount r \<noteq> None) \<Longrightarrow> \<exists>accs'. weigh_row r accs = Some accs'"
  by (auto simp: weigh_row_def split: option.splits)

lemma add_bucket_row_ok:
  assumes "qb_AvgMs r \<noteq> None \<longrightarrow> qb_OkCount r \<noteq> None" "bk_ok bk"
  shows "\<exists>bk'. add_bucket_row r bk = Some bk' \<and> bk_ok bk' \<and>
    (\<forall>b k. map_of (tracks_at bk' b) k =
      (if (b, k) = (qb_Bucket r, qb_TargetID r, qb_Vantage r)
       then Some (synth_track r (case map_of (tracks_at bk b) k of Some a \<Rightarrow> a | None \<Rightarrow> new_track))
       else map_of (tracks_at bk b) k))"
proof -
  let ?bs = "at_key (qb_Bucket r) (at_key (qb_TargetID r, qb_Vantage r) (synth_track r) new_track) [] (bk_buckets bk)"
  obtain acc where acc: "weigh_bucket r (bk_acc bk) = Some acc"
    using weigh_row_ok [OF assms(1), of "case map_of (bk_acc bk) (qb_Bucket r) of Some accs \<Rightarrow> accs | None \<Rightarrow> []"]
    by (auto simp: weigh_bucket_def)
  have "distinct (map fst agg)" if "agg \<in> snd ` set ?bs" for agg
    using at_key_values [OF that] assms(2) by (auto simp: bk_ok_def intro!: distinct_at_key)
  then have "bk_ok \<lparr>bk_buckets = ?bs, bk_acc = acc\<rparr>"
    using assms(2) by (force simp: bk_ok_def distinct_at_key)
  then show ?thesis
    using acc by (auto simp: add_bucket_row_def tracks_at_def map_of_at_key split: option.splits)
qed

lemma add_bucket_rows_ok:
  assumes "distinct ks" "bk_ok bk" "\<And>b k. (b, k) \<in> set ks \<Longrightarrow> map_of (tracks_at bk b) k = None"
    and "\<And>x. x \<in> set ks \<Longrightarrow> (qb_AvgMs (f x) \<noteq> None \<longrightarrow> qb_OkCount (f x) \<noteq> None) \<and> (qb_Bucket (f x), qb_TargetID (f x), qb_Vantage (f x)) = x"
  shows "\<exists>bk'. add_bucket_rows (map f ks) bk = Some bk' \<and> bk_ok bk' \<and>
    (\<forall>b k. map_of (tracks_at bk' b) k = (if (b, k) \<in> set ks then Some (synth_track (f (b, k)) new_track) else map_of (tracks_at bk b) k))"
  using assms
proof (induction ks arbitrary: bk)
  case Nil
  then show ?case by simp
next
  case (Cons x ks)
  obtain b k where x: "x = (b, k)" by (cases x)
  have row: "qb_AvgMs (f x) \<noteq> None \<longrightarrow> qb_OkCount (f x) \<noteq> None" "(qb_Bucket (f x), qb_TargetID (f x), qb_Vantage (f x)) = x"
    using Cons.prems(4) [of x] by auto
  from add_bucket_row_ok [OF row(1) Cons.prems(2), unfolded row(2)] obtain bk1 where
    1: "add_bucket_row (f x) bk = Some bk1" "bk_ok bk1"
    and at1: "\<And>b' k'. map_of (tracks_at bk1 b') k' =
      (if (b', k') = x then Some (synth_track (f x) (case map_of (tracks_at bk b') k' of Some a \<Rightarrow> a | None \<Rightarrow> new_track))
       else map_of (tracks_at bk b') k')" by blast
  have fresh: "map_of (tracks_at bk1 b') k' = None" if "(b', k') \<in> set ks" for b' k'
    using that at1 [of b' k'] Cons.prems(1,3) by auto
  obtain bk' where 2: "add_bucket_rows (map f ks) bk1 = Some bk'" "bk_ok bk'"
    and at2: "\<And>b k. map_of (tracks_at bk' b) k = (if (b, k) \<in> set ks then Some (synth_track (f (b, k)) new_track) else map_of (tracks_at bk1 b) k)"
    using Cons.IH [OF _ 1(2) fresh] Cons.prems(1,4) by auto
  have "map_of (tracks_at bk b) k = None" using Cons.prems(3) x by simp
  then have "map_of (tracks_at bk' b') k' = (if (b', k') \<in> set (x # ks) then Some (synth_track (f (b', k')) new_track) else map_of (tracks_at bk b') k')" for b' k'
    using at2 [of b' k'] at1 [of b' k'] x Cons.prems(1) by auto
  then show ?case using 1(1) 2 by auto
qed

lemma bucket_row_track:
  "bucket_row rows len (b, i, v) =
    (let rs = track_rows (rows_in len b rows) (i, v); oks = filter succeeded rs; ms = map pr_LatencyMs (filter (\<lambda>r. 0 < pr_LatencyMs r) oks)
     in \<lparr>qb_TargetID = i, qb_Vantage = v, qb_Bucket = b, qb_Samples = int (length rs),
         qb_OkCount = (if rs = [] then None else Some (of_nat (length oks))),
         qb_AvgMs = (if ms = [] then None else Some (sum_list ms / of_nat (length ms)))\<rparr>)"
  by (simp add: bucket_row_def track_rows_def succeeded_def Let_def)

lemma bucket_counts:
  "\<exists>bk. add_bucket_rows (quality_buckets len rows) \<lparr>bk_buckets = [], bk_acc = []\<rparr> = Some bk \<and> bk_ok bk \<and>
    (\<forall>b. same_counts (tracks_at bk b) (aggregate (rows_in len b rows)))"
proof -
  define ks where "ks = sort_by bucket_less (remdups (map (\<lambda>r. (take len (pr_CheckedAt r), pr_TargetID r, pr_Vantage r)) rows))"
  have keys: "(b, i, v) \<in> set ks \<longleftrightarrow> track_rows (rows_in len b rows) (i, v) \<noteq> []" for b i v
    by (auto simp: ks_def track_rows_def rows_in_def filter_empty_conv)
  have "distinct ks" by (simp add: ks_def)
  moreover have "bk_ok \<lparr>bk_buckets = [], bk_acc = []\<rparr>" by (simp add: bk_ok_def)
  moreover have "(qb_AvgMs (bucket_row rows len x) \<noteq> None \<longrightarrow> qb_OkCount (bucket_row rows len x) \<noteq> None) \<and>
      (qb_Bucket (bucket_row rows len x), qb_TargetID (bucket_row rows len x), qb_Vantage (bucket_row rows len x)) = x" for x
    by (cases x) (auto simp: bucket_row_track Let_def)
  ultimately obtain bk where bk: "add_bucket_rows (map (bucket_row rows len) ks) \<lparr>bk_buckets = [], bk_acc = []\<rparr> = Some bk" "bk_ok bk"
    and at: "\<And>b k. map_of (tracks_at bk b) k = (if (b, k) \<in> set ks then Some (synth_track (bucket_row rows len (b, k)) new_track) else None)"
    using add_bucket_rows_ok [of ks "\<lparr>bk_buckets = [], bk_acc = []\<rparr>" "bucket_row rows len"] by (auto simp: tracks_at_def)
  have "same_counts (tracks_at bk b) (aggregate (rows_in len b rows))" for b
  proof -
    have "distinct (map fst (tracks_at bk b))"
      using bk(2) map_of_SomeD by (force simp: bk_ok_def tracks_at_def split: option.splits)
    moreover have "map_option (\<lambda>a. (tg_samples a, tg_ok a)) (map_of (tracks_at bk b) (i, v)) =
        map_option (\<lambda>a. (tg_samples a, tg_ok a)) (map_of (aggregate (rows_in len b rows)) (i, v))" for i v
      using keys [of b i v]
      by (simp add: at map_of_aggregate synth_track_def bucket_row_track new_track_def track_of_def Let_def split: option.splits)
    ultimately show ?thesis using distinct_aggregate by (auto simp: same_counts_def)
  qed
  then show ?thesis using bk by (auto simp: quality_buckets_def ks_def)
qed

subsection \<open>The points of a series\<close>

definition ser_points :: "(string \<times> QualityHistorySeries) list \<Rightarrow> string \<Rightarrow> QualityHistoryPoint list" where
  "ser_points s v = (case map_of s v of Some ser \<Rightarrow> hs_Points ser | None \<Rightarrow> [])"

lemma ser_points_add: "ser_points (add_history_point w p s) v = (if v = w then ser_points s v @ [p] else ser_points s v)"
  by (simp add: ser_points_def add_history_point_def map_of_at_key split: option.splits)

lemma ser_points_bucket:
  "set (ser_points (fold (\<lambda>w. add_history_point w (P w)) vs s) v) = set (ser_points s v) \<union> {P v | u. u = v \<and> v \<in> set vs}"
  by (induction vs arbitrary: s) (auto simp: ser_points_add)

definition vantages_of :: "tracks \<Rightarrow> string set" where
  "vantages_of agg = (\<lambda>(k, a). snd k) ` set agg"

lemma ser_points_buckets:
  "set (ser_points (fold (add_bucket_points cfg idOf ts len bk) bs s) v) =
     set (ser_points s v) \<union> {history_point cfg idOf ts len bk b agg v | b agg. (b, agg) \<in> set bs \<and> v \<in> vantages_of agg}"
proof (induction bs arbitrary: s)
  case (Cons x bs)
  obtain b agg where x: "x = (b, agg)" by (cases x)
  show ?case
    unfolding fold_Cons comp_def Cons.IH unfolding x add_bucket_points_def prod.case ser_points_bucket
      set_remdups set_map vantages_of_def [symmetric] by auto
qed simp

definition series_ok :: "(string \<times> QualityHistorySeries) list \<Rightarrow> bool" where
  "series_ok s \<longleftrightarrow> distinct (map fst s) \<and> (\<forall>(v, ser) \<in> set s. hs_Vantage ser = v)"

lemma at_key_entries: "(x, y) \<in> set (at_key k f z kvs) \<Longrightarrow> (x, y) \<in> set kvs \<or> x = k \<and> (y = f z \<or> (\<exists>w. (k, w) \<in> set kvs \<and> y = f w))"
  by (induction k f z kvs rule: at_key.induct) (auto split: if_splits)

lemma series_ok_add: "series_ok s \<Longrightarrow> series_ok (add_history_point v p s)"
  unfolding series_ok_def add_history_point_def by (auto simp: distinct_at_key dest!: at_key_entries)

lemma series_ok_fold: "series_ok s \<Longrightarrow> series_ok (fold (\<lambda>w. add_history_point w (P w)) vs s)"
  by (induction vs arbitrary: s) (simp_all add: series_ok_add)

lemma series_ok_buckets: "series_ok s \<Longrightarrow> series_ok (fold (add_bucket_points cfg idOf ts len bk) bs s)"
  by (induction bs arbitrary: s) (auto simp: add_bucket_points_def series_ok_fold split: prod.splits)

lemma name_series_simps [simp]: "hs_Points (name_series f ser) = hs_Points ser" "hs_Vantage (name_series f ser) = hs_Vantage ser"
  by (simp_all add: name_series_def Let_def)

text \<open>The points of a group: one for every bucket and every vantage with results in it.\<close>

lemma history_group_points:
  "(\<exists>ser \<in> set (hg_Series (history_group cfg idOf names len bk (grp, ts))). hs_Vantage ser = v \<and> p \<in> set (hs_Points ser)) \<longleftrightarrow>
   (\<exists>b agg. (b, agg) \<in> set (bk_buckets bk) \<and> v \<in> vantages_of agg \<and> p = history_point cfg idOf ts len bk b agg v)"
proof -
  define s where "s = fold (add_bucket_points cfg idOf ts len bk) (sort_by (\<lambda>a b. str_less (fst a) (fst b)) (bk_buckets bk)) []"
  have ok: "series_ok s" unfolding s_def by (rule series_ok_buckets) (simp add: series_ok_def)
  have "(\<exists>ser \<in> set (hg_Series (history_group cfg idOf names len bk (grp, ts))). hs_Vantage ser = v \<and> p \<in> set (hs_Points ser)) \<longleftrightarrow>
      (\<exists>w ser. (w, ser) \<in> set s \<and> hs_Vantage ser = v \<and> p \<in> set (hs_Points ser))"
    by (auto simp: history_group_def Let_def s_def [symmetric] sortedVantages_def split: prod.splits) 
  also have "\<dots> \<longleftrightarrow> p \<in> set (ser_points s v)"
    using ok by (fastforce simp: series_ok_def ser_points_def map_of_eq_Some_iff split: option.splits dest: map_of_SomeD)
  also have "\<dots> \<longleftrightarrow> (\<exists>b agg. (b, agg) \<in> set (bk_buckets bk) \<and> v \<in> vantages_of agg \<and> p = history_point cfg idOf ts len bk b agg v)"
    unfolding s_def ser_points_buckets by (auto simp: ser_points_def)
  finally show ?thesis .
qed

definition history_days :: "int \<Rightarrow> int" where
  "history_days requested = (if requested \<le> 0 then 7 else requested)"

definition history_rows :: "gotime \<Rightarrow> int \<Rightarrow> probe_db \<Rightarrow> ProbeResult list" where
  "history_rows now requested db = system_rows (history_cutoff now (history_days requested)) db"

definition history_len :: "int \<Rightarrow> nat" where
  "history_len requested = fst (history_bucket (history_days requested))"

definition history_report :: "ProbeQualityConfig \<Rightarrow> gotime \<Rightarrow> int \<Rightarrow> probe_db \<Rightarrow> bucketing \<Rightarrow> QualityHistoryReport" where
  "history_report cfg now requested db bk =
     \<lparr>hr_Days = history_days requested, hr_Bucket = snd (history_bucket (history_days requested)),
      hr_Groups = map (history_group cfg (target_ids (listed_targets db)) (\<lambda>v. networkNameFor v (agent_names (listed_networks db)))
        (history_len requested) bk) (sorted_groups cfg)\<rparr>"

lemma seq_run: "seq m f s = (case m s of (Inl e, s1) \<Rightarrow> (Inl e, s1) | (Inr x, s1) \<Rightarrow> f x s1)"
  by (simp add: seq_def split: prod.splits sum.splits)

lemma wrapped_buckets:
  "wrap_error what (ListProbeQualityBuckets len cutoff) db = (r, db') \<Longrightarrow>
     quiet db db' \<and> (r = Inl (Wrapped what ErrDatabase) \<or> r = Inr (quality_buckets len (system_rows cutoff db)))"
  unfolding ListProbeQualityBuckets_def by (drule wrapped_read) (force simp: system_rows_def quiet_def)

lemma History_run:
  assumes "History cfg now requested db = (r, db')"
    and "add_bucket_rows (quality_buckets (history_len requested) (history_rows now requested db)) \<lparr>bk_buckets = [], bk_acc = []\<rparr> = Some bk"
  shows "quiet db db' \<and> ((\<exists>what. r = Inl (Wrapped what ErrDatabase)) \<or> r = Inr (history_report cfg now requested db bk))"
proof -
  obtain r1 db1 where 1: "wrap_error ''quality history: buckets'' (ListProbeQualityBuckets (history_len requested) (history_cutoff now (history_days requested))) db = (r1, db1)"
    by fastforce
  obtain r2 db2 where 2: "wrap_error ''quality history: list targets'' ListProbeTargets db1 = (r2, db2)" by fastforce
  obtain r3 db3 where 3: "wrap_error ''quality history: list networks'' ListNetworks db2 = (r3, db3)" by fastforce
  note q = wrapped_buckets [OF 1] wrapped_lists(1) [OF 2] wrapped_lists(2) [OF 3]
  have qs: "quiet db db1" "quiet db db2" "quiet db db3" using q quiet_trans by blast+
  have run: "History cfg now requested db =
      (case r1 of Inl e \<Rightarrow> (Inl e, db1) | Inr rows \<Rightarrow> (case r2 of Inl e \<Rightarrow> (Inl e, db2) | Inr targets \<Rightarrow> (case r3 of Inl e \<Rightarrow> (Inl e, db3) | Inr nets \<Rightarrow>
        (case add_bucket_rows rows \<lparr>bk_buckets = [], bk_acc = []\<rparr> of
          None \<Rightarrow> raise (Panic ''nil pointer dereference'')
        | Some bk \<Rightarrow> ret \<lparr>hr_Days = history_days requested, hr_Bucket = snd (history_bucket (history_days requested)),
            hr_Groups = map (history_group cfg (target_ids targets) (\<lambda>v. networkNameFor v (agent_names nets)) (history_len requested) bk) (sorted_groups cfg)\<rparr>) db3)))"
    unfolding History_def history_days_def [symmetric] Let_def case_prod_beta history_len_def [symmetric]
    by (simp add: seq_run 1 2 3 split: sum.splits option.splits)
  show ?thesis
    using assms q qs quiet_lists [OF qs(1)] quiet_lists [OF qs(2)] unfolding run
    by (auto simp: ret_def history_report_def history_rows_def split: sum.splits)
qed

lemma History_cases:
  assumes "History cfg now requested db = (r, db')"
  obtains bk where "quiet db db'" "bk_ok bk"
    "\<And>b. same_counts (tracks_at bk b) (aggregate (rows_in (history_len requested) b (history_rows now requested db)))"
    "(\<exists>what. r = Inl (Wrapped what ErrDatabase)) \<or> r = Inr (history_report cfg now requested db bk)"
  using bucket_counts [of "history_len requested" "history_rows now requested db"] History_run [OF assms] that by blast

lemma history_report_group:
  "g \<in> set (hr_Groups (history_report cfg now requested db bk)) \<Longrightarrow> \<exists>ts. (hg_Name g, ts) \<in> set (qc_Groups cfg) \<and>
    g = history_group cfg (target_ids (listed_targets db)) (\<lambda>v. networkNameFor v (agent_names (listed_networks db))) (history_len requested) bk (hg_Name g, ts)"
  by (auto simp: history_report_def sorted_groups_def history_group_def Let_def)

lemma bucket_tracks: "bk_ok bk \<Longrightarrow> (b, agg) \<in> set (bk_buckets bk) \<Longrightarrow> tracks_at bk b = agg"
  by (auto simp: bk_ok_def tracks_at_def)

lemma vantages_of_map: "distinct (map fst agg) \<Longrightarrow> v \<in> vantages_of agg \<longleftrightarrow> (\<exists>i. map_of agg (i, v) \<noteq> None)"
  by (force simp: vantages_of_def map_of_eq_None_iff image_iff)

text \<open>Where a point comes from.\<close>

lemma history_point_origin:
  assumes "History cfg now requested db = (Inr rep, db')" "g \<in> set (hr_Groups rep)" "ser \<in> set (hg_Series g)" "p \<in> set (hs_Points ser)"
  obtains ts bk b agg where "(hg_Name g, ts) \<in> set (qc_Groups cfg)"
    "same_counts agg (aggregate (rows_in (history_len requested) b (history_rows now requested db)))"
    "hs_Vantage ser \<in> vantages_of agg" "tracks_at bk b = agg" "rep = history_report cfg now requested db bk"
    "p = history_point cfg (target_ids (listed_targets db)) ts (history_len requested) bk b agg (hs_Vantage ser)"
proof -
  obtain bk where bk: "bk_ok bk" "rep = history_report cfg now requested db bk"
    "\<And>b. same_counts (tracks_at bk b) (aggregate (rows_in (history_len requested) b (history_rows now requested db)))"
    using History_cases [OF assms(1)] by (metis sum.distinct(1) sum.inject(2))
  obtain ts where ts: "(hg_Name g, ts) \<in> set (qc_Groups cfg)"
    "g = history_group cfg (target_ids (listed_targets db)) (\<lambda>v. networkNameFor v (agent_names (listed_networks db))) (history_len requested) bk (hg_Name g, ts)"
    using history_report_group assms(2) unfolding bk(2) by blast
  obtain b agg where "(b, agg) \<in> set (bk_buckets bk)" "hs_Vantage ser \<in> vantages_of agg"
    "p = history_point cfg (target_ids (listed_targets db)) ts (history_len requested) bk b agg (hs_Vantage ser)"
    using history_group_points [of cfg "target_ids (listed_targets db)" "\<lambda>v. networkNameFor v (agent_names (listed_networks db))"
        "history_len requested" bk "hg_Name g" ts "hs_Vantage ser" p] assms(3,4) ts(2) by metis
  then show ?thesis using that ts(1) bk bucket_tracks [OF bk(1)] by metis
qed

lemma same_counts_track_ok:
  assumes "same_counts agg (aggregate rows)" "map_of agg k = Some a"
  shows "track_ok a"
  using same_countsD(2) [OF assms] aggregate_track_ok by (fastforce simp: track_ok_def)

text \<open>
  C0.  The trend is consistent: it never dereferences a missing count, and in every point the score
  follows from the share of successes and the verdict, the share lies between 0 and 1, and a point
  without samples is exactly one with insufficient data.
\<close>

theorem history_consistent:
  assumes "History cfg now requested db = (r, db')"
  shows "(\<exists>what. r = Inl (Wrapped what ErrDatabase)) \<or>
    (\<exists>rep. r = Inr rep \<and> list_all (\<lambda>g. list_all (\<lambda>ser. list_all consistent_point (hs_Points ser)) (hg_Series g)) (hr_Groups rep))"
proof (cases r)
  case (Inr rep)
  have "consistent_point p" if "g \<in> set (hr_Groups rep)" "ser \<in> set (hg_Series g)" "p \<in> set (hs_Points ser)" for g ser p
    using history_point_origin [OF assms [unfolded Inr] that] history_point_consistent same_counts_track_ok by metis
  then show ?thesis using Inr by (auto simp: list_all_iff)
qed (use History_cases [OF assms] in blast)

text \<open>
  C0.  The trend replays the verdict chain: a point of the trend is the judgement on the stored results
  of its bucket.  The share of successes and the number of samples are those of the results, and the
  verdict and the score are those the chain gives for the results themselves, except that
  the choice between ok and degraded, which looks at latencies, may differ.
\<close>

theorem history_replays_chain:
  assumes "History cfg now requested db = (Inr rep, db')" "g \<in> set (hr_Groups rep)" "ser \<in> set (hg_Series g)" "p \<in> set (hs_Points ser)"
  shows "\<exists>ts b. (hg_Name g, ts) \<in> set (qc_Groups cfg) \<and> hp_T p = bucketStart (history_len requested) b \<and>
    (let agg = aggregate (rows_in (history_len requested) b (history_rows now requested db));
         ids = target_ids (listed_targets db); v = hs_Vantage ser; vr = judgeVantage ts agg ids v cfg
     in v \<in> vantages_of agg \<and> hp_OkRate p = bucketOkRate ts agg ids v \<and> hp_Samples p = bucketSamples ts agg ids v \<and>
       (if vr_Verdict vr \<in> {''ok'', ''degraded''} then hp_Verdict p \<in> {''ok'', ''degraded''}
        else hp_Verdict p = vr_Verdict vr \<and> hp_Score p = vr_Score vr))"
proof -
  from history_point_origin [OF assms] obtain ts bk b agg where
    o: "(hg_Name g, ts) \<in> set (qc_Groups cfg)" "same_counts agg (aggregate (rows_in (history_len requested) b (history_rows now requested db)))"
      "hs_Vantage ser \<in> vantages_of agg" "p = history_point cfg (target_ids (listed_targets db)) ts (history_len requested) bk b agg (hs_Vantage ser)"
    by metis
  let ?agg = "aggregate (rows_in (history_len requested) b (history_rows now requested db))"
  have "hs_Vantage ser \<in> vantages_of ?agg"
    using o(2,3) vantages_of_map same_countsD(1) [OF o(2)] unfolding same_counts_def by metis
  moreover have "same_judgement (judgeVantage ts agg (target_ids (listed_targets db)) (hs_Vantage ser) cfg)
      (judgeVantage ts ?agg (target_ids (listed_targets db)) (hs_Vantage ser) cfg)"
    by (rule same_counts_judge [OF o(2)])
  ultimately show ?thesis
    using o(1) same_counts_bucket [OF o(2)] unfolding o(4)
    by (intro exI [of _ ts] exI [of _ b]) (auto simp: history_point_def same_judgement_def Let_def)
qed

text \<open>
  C0.  The mean latency of a point does not depend on the group: two groups of one report show the same
  latency for the same bucket and vantage, whichever targets they hold.
\<close>

theorem history_latency_shared:
  assumes "History cfg now requested db = (Inr rep, db')"
    and "g \<in> set (hr_Groups rep)" "ser \<in> set (hg_Series g)" "p \<in> set (hs_Points ser)"
    and "g' \<in> set (hr_Groups rep)" "ser' \<in> set (hg_Series g')" "p' \<in> set (hs_Points ser')"
    and "hs_Vantage ser = hs_Vantage ser'" "hp_T p = hp_T p'"
  shows "hp_AvgMs p = hp_AvgMs p'"
proof -
  obtain bk where bk: "bk_ok bk" "rep = history_report cfg now requested db bk"
    using History_cases [OF assms(1)] by (metis sum.distinct(1) sum.inject(2))
  let ?len = "history_len requested" and ?ids = "target_ids (listed_targets db)" and ?names = "\<lambda>v. networkNameFor v (agent_names (listed_networks db))"
  have point: "\<exists>b. hp_T q = bucketStart ?len b \<and> hp_AvgMs q = point_avg bk b (hs_Vantage s)"
    if mem: "h \<in> set (hr_Groups rep)" "s \<in> set (hg_Series h)" "q \<in> set (hs_Points s)" for h s q
  proof -
    obtain ts where h: "h = history_group cfg ?ids ?names ?len bk (hg_Name h, ts)"
      using history_report_group mem(1) unfolding bk(2) by blast
    show ?thesis
      using history_group_points [of cfg ?ids ?names ?len bk "hg_Name h" ts "hs_Vantage s" q] mem(2,3) unfolding h [symmetric]
      by (auto simp: history_point_def Let_def)
  qed
  then show ?thesis using point [OF assms(2-4)] point [OF assms(5-7)] assms(8,9) by (auto simp: bucketStart_def split: if_splits)
qed

end
