(* ===== verification/Spec2Isabelle.thy ===== *)
theory Spec2Isabelle
  imports Cidrutil Change_Detect Agent_Watch Probe_Machine Probe_Autogen Probe_Dispatch Quality_Trend
begin

text \<open>
  Verification library for MiBee Steward.
\<close>

end
